(* ===== verification/Voy_Prelude.thy ===== *)
theory Voy_Prelude
  imports Main "HOL-Library.Word"
begin

text \<open>
  The part every other theory shares: the names of the machine types, the splitting of a
  16-bit value into its two bytes (the code writes it out at every place it packs a node id
  or a queue item), C strings and bytes, the exhaustive check of a statement about one byte,
  and the collections of simplification rules (\<open>codec_simps\<close> for the byte formats,
  \<open>step_simps\<close> for the state machines).

  Conventions of the whole development.  A \<open>uint8_t\<close>, \<open>uint16_t\<close>, \<open>uint32_t\<close> is a
  word of that width and wraps as the code's does.  A \<open>size_t\<close> that counts bytes of a buffer
  is a \<open>nat\<close>: every such count in the code is compared with a small constant before it is
  added to anything, so it cannot reach \<open>2 ^ 32\<close>.  A pointer that the code compares with
  \<open>nullptr\<close> is an \<open>option\<close>.  A function that fills a caller's buffer and returns the
  number of bytes written (0 on failure) returns the bytes written (\<open>None\<close> on failure).
\<close>

unbundle bit_operations_syntax

section \<open>Machine types\<close>

type_synonym u8 = "8 word"
type_synonym u16 = "16 word"
type_synonym u32 = "32 word"
type_synonym u64 = "64 word"
type_synonym bytes = "u8 list"

named_theorems codec_simps "unfolding rules of the byte formats"
named_theorems step_simps "unfolding rules of the step functions of state machines"

section \<open>Exhaustive checks over one byte\<close>

lemma u8_all_lt_256:
  assumes "\<forall>n \<in> {0..<256}. P (word_of_nat n :: u8)"
  shows "P x"
proof -
  have "unat x \<in> {0..<256}" using unsigned_less [where w = x] by simp
  with assms have "P (word_of_nat (unat x))" by (rule bspec)
  then show ?thesis by simp
qed

lemma unat_u8_lt [simp]: "unat (x :: u8) < 256"
  using unsigned_less [where w = x] by simp

lemma unat_u8_le [simp]: "unat (x :: u8) \<le> 255"
  using unat_u8_lt [of x] by linarith

lemma unat_u16_lt [simp]: "unat (x :: u16) < 65536"
  using unsigned_less [where w = x] by simp

lemma unat_u32_lt [simp]: "unat (x :: u32) < 4294967296"
  using unsigned_less [where w = x] by simp

lemma unat_of_nat_u8 [simp]: "n < 256 \<Longrightarrow> unat (word_of_nat n :: u8) = n"
  by (simp add: unat_of_nat)

lemma unat_of_nat_u32 [simp]: "n < 4294967296 \<Longrightarrow> unat (word_of_nat n :: u32) = n"
  by (simp add: unat_of_nat)

section \<open>Sixteen-bit values as two bytes\<close>

definition hi8 :: "u16 \<Rightarrow> u8" where
  "hi8 w = ucast (drop_bit 8 w)"

definition lo8 :: "u16 \<Rightarrow> u8" where
  "lo8 w = ucast w"

definition join8 :: "u8 \<Rightarrow> u8 \<Rightarrow> u16" where
  "join8 h l = push_bit 8 (ucast h) OR ucast l"

lemma join8_hi_lo [simp]: "join8 (hi8 w) (lo8 w) = w"
  by (rule bit_word_eqI) (auto simp: join8_def hi8_def lo8_def bit_simps)

lemma hi8_join8 [simp]: "hi8 (join8 h l) = h"
  by (rule bit_word_eqI) (auto simp: join8_def hi8_def bit_simps dest: bit_imp_le_length)

lemma lo8_join8 [simp]: "lo8 (join8 h l) = l"
  by (rule bit_word_eqI) (auto simp: join8_def lo8_def bit_simps)

lemma join8_inject [simp]: "join8 h l = join8 h' l' \<longleftrightarrow> h = h' \<and> l = l'"
  by (metis hi8_join8 lo8_join8)

lemma join8_eq_iff: "join8 h l = w \<longleftrightarrow> h = hi8 w \<and> l = lo8 w"
  by (metis hi8_join8 lo8_join8 join8_hi_lo)

lemma hi_lo_eq_iff: "w = v \<longleftrightarrow> hi8 w = hi8 v \<and> lo8 w = lo8 v"
  by (metis join8_hi_lo)

section \<open>Bytes, characters and C strings\<close>

definition chr_of :: "u8 \<Rightarrow> char" where
  "chr_of b = char_of (unat b)"

definition byte_of :: "char \<Rightarrow> u8" where
  "byte_of c = word_of_nat (of_char c)"

lemma byte_of_chr_of [simp]: "byte_of (chr_of b) = b"
  by (simp add: chr_of_def byte_of_def)

lemma chr_of_byte_of [simp]: "chr_of (byte_of c) = c"
proof -
  have "of_char c mod 256 = (of_char c :: nat)" by simp
  then have "of_char c < (256 :: nat)" by (metis mod_less_divisor zero_less_numeral)
  then show ?thesis by (simp add: chr_of_def byte_of_def)
qed

text \<open>What a C function that stops at the first NUL sees of a block of bytes.\<close>

definition c_str :: "bytes \<Rightarrow> string" where
  "c_str bs = map chr_of (takeWhile (\<lambda>b. b \<noteq> 0) bs)"

lemma c_str_no_nul: "0 \<notin> set bs \<Longrightarrow> c_str bs = map chr_of bs"
proof -
  assume "0 \<notin> set bs"
  then have "takeWhile (\<lambda>b. b \<noteq> 0) bs = bs" by (auto simp: takeWhile_eq_all_conv)
  then show ?thesis unfolding c_str_def by (rule arg_cong)
qed

section \<open>Reading through a possibly null pointer\<close>

text \<open>The first \<open>n\<close> bytes at a pointer; nothing is read when \<open>n\<close> is 0.\<close>

definition rd :: "bytes option \<Rightarrow> nat \<Rightarrow> bytes" where
  "rd p n = (case p of None \<Rightarrow> [] | Some bs \<Rightarrow> take n bs)"

lemma rd_Some [simp]: "rd (Some bs) n = take n bs"
  by (simp add: rd_def)

section \<open>Lists\<close>

lemma length_4_conv: "length xs \<ge> 4 \<longleftrightarrow> (\<exists>a b c d ys. xs = a # b # c # d # ys)"
proof
  assume "length xs \<ge> 4"
  then show "\<exists>a b c d ys. xs = a # b # c # d # ys"
    by (cases xs; cases "tl xs"; cases "tl (tl xs)"; cases "tl (tl (tl xs))") auto
qed auto

lemma foldl_invariant:
  assumes "P a" and "\<And>a x. P a \<Longrightarrow> P (f a x)"
  shows "P (foldl f a xs)"
  using assms(1) by (induction xs arbitrary: a) (auto intro: assms(2))

text \<open>The first index a loop over an array stops at.\<close>

fun find_idx :: "('a \<Rightarrow> bool) \<Rightarrow> 'a list \<Rightarrow> nat option" where
  "find_idx P [] = None"
| "find_idx P (x # xs) = (if P x then Some 0 else map_option Suc (find_idx P xs))"

lemma find_idx_SomeD:
  "find_idx P xs = Some i \<Longrightarrow> i < length xs \<and> P (xs ! i) \<and> (\<forall>j < i. \<not> P (xs ! j))"
proof (induction xs arbitrary: i)
  case (Cons x xs)
  show ?case
  proof (cases "P x")
    case False
    with Cons.prems obtain k where k: "find_idx P xs = Some k" "i = Suc k" by auto
    with Cons.IH [of k] False show ?thesis by (auto simp: nth_Cons split: nat.splits)
  qed (use Cons.prems in auto)
qed simp

lemma find_idx_None: "find_idx P xs = None \<longleftrightarrow> (\<forall>x \<in> set xs. \<not> P x)"
  by (induction xs) auto

lemma find_idx_find: "find P xs = map_option ((!) xs) (find_idx P xs)"
  by (induction xs) (auto simp: option.map_comp comp_def)

section \<open>Decimal numbers as text\<close>

definition digit :: "nat \<Rightarrow> char" where
  "digit d = char_of (48 + d)"

fun dec_nat :: "nat \<Rightarrow> string" where
  "dec_nat n = (if n < 10 then [digit n] else dec_nat (n div 10) @ [digit (n mod 10)])"

declare dec_nat.simps [simp del]

definition dec_int :: "int \<Rightarrow> string" where
  "dec_int n = (if n < 0 then CHR 0x2D # dec_nat (nat (- n)) else dec_nat (nat n))"

text \<open>A C string as bytes.\<close>

definition str_bytes :: "string \<Rightarrow> bytes" where
  "str_bytes s = map byte_of s"

lemma length_str_bytes [simp]: "length (str_bytes s) = length s"
  by (simp add: str_bytes_def)

lemma c_str_str_bytes: "CHR 0x00 \<notin> set s \<Longrightarrow> c_str (str_bytes s) = s"
proof -
  assume a: "CHR 0x00 \<notin> set s"
  have z: "byte_of (CHR 0x00) = 0" by (simp add: byte_of_def)
  have c0: "c = CHR 0x00" if "byte_of c = 0" for c
  proof -
    have "chr_of (byte_of c) = chr_of (byte_of (CHR 0x00))" by (simp only: that z)
    then show ?thesis by (simp only: chr_of_byte_of)
  qed
  have "0 \<notin> set (str_bytes s)"
  proof
    assume "0 \<in> set (str_bytes s)"
    then obtain c where "c \<in> set s" "byte_of c = 0" by (auto simp: str_bytes_def)
    with c0 a show False by blast
  qed
  then show ?thesis by (simp add: c_str_no_nul) (simp add: str_bytes_def comp_def)
qed

lemma dec_nat_length: "n < 10 ^ k \<Longrightarrow> 0 < k \<Longrightarrow> length (dec_nat n) \<le> k"
proof (induction n arbitrary: k rule: dec_nat.induct)
  case (1 n)
  show ?case
  proof (cases "n < 10")
    case True
    then show ?thesis using "1.prems" by (simp add: dec_nat.simps [of n])
  next
    case False
    with "1.prems" obtain m where k: "k = Suc m" "0 < m" by (cases k; cases "k - 1") auto
    with "1.prems" have "n div 10 < 10 ^ m" by (simp add: div_less_iff_less_mult mult.commute)
    from "1.IH" [OF False this k(2)] False show ?thesis by (simp add: dec_nat.simps [of n] k(1))
  qed
qed

end
