(* ===== verification/Lora_Frame.thy ===== *)
theory Lora_Frame
  imports Voy_Prelude
begin

text \<open>
  The LoRa v2 packet of \<open>src/src/lora/lora_proto.h\<close> (lines 16-101): the CRC-8, the two
  framing functions and \<open>parse_packet\<close>.  A frame is \<open>[len][type][seq][crc8]\<close> and the
  payload; the checksum covers the sequence byte and the payload.

  The lemmas show that the checksum step is a bijection of the running checksum, so a
  difference in one byte can never be cancelled by later equal bytes, that framing and
  parsing are inverse to each other in both directions, and which frames are refused.
\<close>

section \<open>Constants\<close>

definition T_LORA_MSG :: u8 where "T_LORA_MSG = 0"
definition T_RAW_DATA :: u8 where "T_RAW_DATA = 1"
definition T_REC_AKNG :: u8 where "T_REC_AKNG = 2"
definition T_LORA_SERIAL :: u8 where "T_LORA_SERIAL = 3"
definition T_NET :: u8 where "T_NET = 4"
definition HEADER_LEN :: nat where "HEADER_LEN = 4"
definition MAX_PAYLOAD :: nat where "MAX_PAYLOAD = 251"
definition MAX_FRAME :: nat where "MAX_FRAME = HEADER_LEN + MAX_PAYLOAD"
definition MAX_RETRIES :: u8 where "MAX_RETRIES = 3"
definition ACK_OK :: u8 where "ACK_OK = 1"
definition ACK_RETRY :: u8 where "ACK_RETRY = 0"

lemmas lora_const_defs =
  T_LORA_MSG_def T_RAW_DATA_def T_REC_AKNG_def T_LORA_SERIAL_def T_NET_def HEADER_LEN_def
  MAX_PAYLOAD_def MAX_FRAME_def MAX_RETRIES_def ACK_OK_def ACK_RETRY_def

section \<open>CRC-8\<close>

text \<open>One round of the inner loop: shift left, and reduce by the polynomial when a bit
  falls out at the top.\<close>

definition crc8_bit :: "u8 \<Rightarrow> u8" where
  "crc8_bit crc = (if crc AND 0x80 \<noteq> 0 then push_bit 1 crc XOR 0x07 else push_bit 1 crc)"

fun crc8_bits :: "nat \<Rightarrow> u8 \<Rightarrow> u8" where
  "crc8_bits 0 crc = crc"
| "crc8_bits (Suc n) crc = crc8_bits n (crc8_bit crc)"

fun crc8_update :: "u8 \<Rightarrow> bytes \<Rightarrow> u8" where
  "crc8_update crc [] = crc"
| "crc8_update crc (b # bs) = crc8_update (crc8_bits 8 (crc XOR b)) bs"

definition crc8 :: "bytes \<Rightarrow> u8" where
  "crc8 bs = crc8_update 0 bs"

definition packet_crc :: "u8 \<Rightarrow> bytes \<Rightarrow> u8" where
  "packet_crc seq payload = crc8_update (crc8_update 0 [seq]) payload"

section \<open>Framing\<close>

definition frame_packet ::
  "u8 \<Rightarrow> u8 \<Rightarrow> bytes option \<Rightarrow> nat \<Rightarrow> nat option \<Rightarrow> bytes option" where
  \<comment> \<open>\<open>cap\<close> is \<open>None\<close> for a null output pointer, else the capacity of the buffer\<close>
  "frame_packet type seq payload len cap =
     (if len > MAX_PAYLOAD \<or> type = T_REC_AKNG \<or> type > T_NET then None
      else case cap of
        None \<Rightarrow> None
      | Some out_cap \<Rightarrow>
          if out_cap < HEADER_LEN + len then None
          else if len > 0 \<and> payload = None then None
          else Some ([word_of_nat len, type, seq, packet_crc seq (rd payload len)] @ rd payload len))"

definition frame_ack :: "u8 \<Rightarrow> u8 \<Rightarrow> nat option \<Rightarrow> bytes option" where
  "frame_ack seq result cap =
     (case cap of
        None \<Rightarrow> None
      | Some out_cap \<Rightarrow>
          if out_cap < HEADER_LEN + 1 then None else Some [1, T_REC_AKNG, seq, 0, result])"

datatype ParseErr = ErrNone | TooShort | LenMismatch | BadType | BadCrc | BadAck

record Parsed =
  p_ok :: bool
  p_err :: ParseErr
  p_type :: u8
  p_seq :: u8
  p_len :: u8
  p_payload :: "bytes option"

definition parse_packet :: "bytes option \<Rightarrow> Parsed" where
  "parse_packet buf =
     (let p = \<lparr>p_ok = False, p_err = ErrNone, p_type = 0, p_seq = 0, p_len = 0, p_payload = None\<rparr> in
      case buf of
        None \<Rightarrow> p\<lparr>p_err := TooShort\<rparr>
      | Some bs \<Rightarrow>
          if length bs < HEADER_LEN then p\<lparr>p_err := TooShort\<rparr>
          else
            let p = p\<lparr>p_len := bs ! 0, p_type := bs ! 1, p_seq := bs ! 2,
                     p_payload := Some (drop HEADER_LEN bs)\<rparr> in
            if length bs \<noteq> HEADER_LEN + unat (p_len p) then p\<lparr>p_err := LenMismatch\<rparr>
            else if p_type p > T_NET then p\<lparr>p_err := BadType\<rparr>
            else if p_type p = T_REC_AKNG then
              (if p_len p \<noteq> 1 then p\<lparr>p_err := BadAck\<rparr> else p\<lparr>p_ok := True\<rparr>)
            else if bs ! 3 \<noteq> packet_crc (p_seq p) (drop HEADER_LEN bs) then p\<lparr>p_err := BadCrc\<rparr>
            else p\<lparr>p_ok := True\<rparr>)"

section \<open>The checksum step is a bijection\<close>

text \<open>The round backwards: bit 0 tells whether the polynomial was added.\<close>

definition crc8_unbit :: "u8 \<Rightarrow> u8" where
  "crc8_unbit c = (if c AND 1 \<noteq> 0 then drop_bit 1 (c XOR 0x07) OR 0x80 else drop_bit 1 c)"

lemma and_0x80_eq_0: "x AND 0x80 = 0 \<longleftrightarrow> \<not> bit (x :: u8) 7"
  using and_exp_eq_0_iff_not_bit [of x 7] by simp

lemma and_1_eq_0: "x AND 1 = 0 \<longleftrightarrow> \<not> bit (x :: u8) 0"
  using and_exp_eq_0_iff_not_bit [of x 0] by simp

lemma crc8_bit_msb:
  "bit c 7 \<Longrightarrow> crc8_bit c = push_bit 1 c XOR 7"
  "\<not> bit c 7 \<Longrightarrow> crc8_bit c = push_bit 1 c"
  by (simp_all only: crc8_bit_def and_0x80_eq_0 not_not if_True if_False not_False_eq_True
      not_True_eq_False)

lemma bit_0_push_bit_1: "\<not> bit (push_bit 1 (c :: u8)) 0"
  by (simp only: bit_push_bit_iff) simp

lemma bit_0_push_bit_1_xor_7: "bit (push_bit 1 (c :: u8) XOR 7) 0"
  by (simp only: bit_xor_iff bit_0_push_bit_1) simp

lemma drop_push_bit_1: "bit (drop_bit 1 (push_bit 1 (c :: u8))) n \<longleftrightarrow> n < 7 \<and> bit c n"
  by (simp only: bit_drop_bit_eq comp_def bit_push_bit_iff) auto

lemma crc8_unbit_bit: "crc8_unbit (crc8_bit c) = c"
proof (rule bit_word_eqI)
  fix n
  assume n: "n < LENGTH(8)"
  show "bit (crc8_unbit (crc8_bit c)) n = bit c n"
  proof (cases "bit c 7")
    case True
    have x: "(push_bit 1 c XOR 7) XOR 7 = push_bit 1 c" by (simp only: xor.assoc) simp
    have "crc8_unbit (crc8_bit c) = drop_bit 1 (push_bit 1 c) OR push_bit 7 1"
      using bit_0_push_bit_1_xor_7 [of c]
      by (simp only: crc8_unbit_def crc8_bit_msb(1) [OF True] and_1_eq_0 x) simp
    with True n show ?thesis
      by (cases "n = 7") (simp_all only: bit_or_iff drop_push_bit_1 bit_push_bit_iff, auto simp: bit_1_iff)
  next
    case False
    have "crc8_unbit (crc8_bit c) = drop_bit 1 (push_bit 1 c)"
      using bit_0_push_bit_1 [of c]
      by (simp only: crc8_unbit_def crc8_bit_msb(2) [OF False] and_1_eq_0 not_not) simp
    with False n show ?thesis
      by (cases "n = 7") (simp_all only: drop_push_bit_1, simp_all)
  qed
qed

lemma crc8_bit_inject [simp]: "crc8_bit c = crc8_bit d \<longleftrightarrow> c = d"
  by (metis crc8_unbit_bit)

lemma crc8_bits_inject [simp]: "crc8_bits n c = crc8_bits n d \<longleftrightarrow> c = d"
  by (induction n arbitrary: c d) auto

lemma xor_right_inject [simp]: "c XOR b = d XOR b \<longleftrightarrow> c = (d :: u8)"
proof
  assume "c XOR b = d XOR b"
  then have "(c XOR b) XOR b = (d XOR b) XOR b" by (rule arg_cong)
  then show "c = d" by (simp only: xor.assoc) simp
qed simp

lemma xor_left_inject [simp]: "b XOR c = b XOR d \<longleftrightarrow> c = (d :: u8)"
  by (simp add: xor.commute [of b])

lemma crc8_update_append: "crc8_update c (xs @ ys) = crc8_update (crc8_update c xs) ys"
  by (induction xs arbitrary: c) auto

lemma crc8_update_inject [simp]: "crc8_update c bs = crc8_update d bs \<longleftrightarrow> c = d"
  by (induction bs arbitrary: c d) (auto simp del: crc8_bits.simps)

lemma crc8_update_one_byte:
  "crc8_update c (xs @ b # ys) = crc8_update c (xs @ b' # ys) \<longleftrightarrow> b = b'"
  by (simp add: crc8_update_append del: crc8_bits.simps)

lemma crc8_update_byte_changed:
  assumes "i < length bs" and "b \<noteq> bs ! i"
  shows "crc8_update c (bs[i := b]) \<noteq> crc8_update c bs"
  using assms crc8_update_one_byte [of c "take i bs" b "drop (Suc i) bs" "bs ! i"]
  by (simp add: upd_conv_take_nth_drop id_take_nth_drop [symmetric])

lemma packet_crc_eq: "packet_crc seq pl = crc8_update 0 (seq # pl)"
  by (simp add: packet_crc_def)

section \<open>Framing and parsing\<close>

lemma frame_packet_SomeD:
  assumes "frame_packet ty seq p len cap = Some f"
  shows "len \<le> MAX_PAYLOAD" and "ty \<noteq> T_REC_AKNG" and "ty \<le> T_NET"
    and "f = word_of_nat len # ty # seq # packet_crc seq (rd p len) # rd p len"
  using assms by (auto simp: frame_packet_def split: if_splits option.splits)

text \<open>When the caller passes a payload of \<open>len\<close> bytes and a buffer that is large enough, a
  data type is always framed.\<close>

lemma frame_packet_total:
  assumes "length pl \<le> MAX_PAYLOAD" "ty \<noteq> T_REC_AKNG" "ty \<le> T_NET" "HEADER_LEN + length pl \<le> cap"
  shows "frame_packet ty seq (Some pl) (length pl) (Some cap) =
    Some (word_of_nat (length pl) # ty # seq # packet_crc seq pl # pl)"
  using assms by (auto simp: frame_packet_def)

lemma parse_packet_okD:
  assumes "p_ok (parse_packet (Some bs))"
  shows "\<exists>l ty seq c pl. bs = l # ty # seq # c # pl \<and> unat l = length pl \<and> ty \<le> T_NET \<and>
     (ty = T_REC_AKNG \<longrightarrow> l = 1) \<and> (ty \<noteq> T_REC_AKNG \<longrightarrow> c = packet_crc seq pl) \<and>
     parse_packet (Some bs) =
       \<lparr>p_ok = True, p_err = ErrNone, p_type = ty, p_seq = seq, p_len = l, p_payload = Some pl\<rparr>"
proof -
  from assms have "length bs \<ge> 4"
    by (auto simp: parse_packet_def HEADER_LEN_def Let_def split: if_splits)
  then obtain l ty seq c pl where bs: "bs = l # ty # seq # c # pl"
    unfolding length_4_conv by blast
  from assms show ?thesis
    unfolding bs by (auto simp: parse_packet_def HEADER_LEN_def Let_def split: if_splits)
qed

lemma parse_packet_data:
  assumes "unat l = length pl" "ty \<noteq> T_REC_AKNG" "ty \<le> T_NET"
  shows "parse_packet (Some (l # ty # seq # c # pl)) =
    (if c = packet_crc seq pl
     then \<lparr>p_ok = True, p_err = ErrNone, p_type = ty, p_seq = seq, p_len = l, p_payload = Some pl\<rparr>
     else \<lparr>p_ok = False, p_err = BadCrc, p_type = ty, p_seq = seq, p_len = l, p_payload = Some pl\<rparr>)"
  using assms by (auto simp: parse_packet_def HEADER_LEN_def Let_def)

text \<open>The acknowledged byte survives the ACK frame.\<close>

lemma parse_frame_ack:
  assumes "frame_ack seq v cap = Some f"
  shows "parse_packet (Some f) =
    \<lparr>p_ok = True, p_err = ErrNone, p_type = T_REC_AKNG, p_seq = seq, p_len = 1, p_payload = Some [v]\<rparr>"
  using assms by (auto simp: frame_ack_def parse_packet_def lora_const_defs split: option.splits if_splits)

text \<open>
  C3 (parse_frame_packet). Every frame the sender can build is accepted by the receiver's parser,
  which gives back exactly the type, the sequence number and the payload bytes that were framed
  (any payload of 0 to 251 bytes, any data type, any output buffer that is large enough).\<close>

theorem parse_frame_packet:
  assumes "frame_packet ty seq (Some pl) (length pl) cap = Some f"
  shows "parse_packet (Some f) =
    \<lparr>p_ok = True, p_err = ErrNone, p_type = ty, p_seq = seq, p_len = word_of_nat (length pl),
     p_payload = Some pl\<rparr> \<and> length f = HEADER_LEN + length pl \<and> length f \<le> MAX_FRAME"
proof -
  note * = frame_packet_SomeD [OF assms]
  from *(1) have "unat (word_of_nat (length pl) :: u8) = length pl"
    by (simp add: MAX_PAYLOAD_def)
  with * show ?thesis by (simp add: parse_packet_data HEADER_LEN_def MAX_FRAME_def)
qed

theorem parse_frame_packet_witness:
  "p_payload (parse_packet (Some [3, 0, 9, packet_crc 9 [1, 0, 255], 1, 0, 255])) = Some [1, 0, 255]"
proof -
  have "frame_packet 0 9 (Some [1, 0, 255]) (length [1, 0, 255 :: u8]) (Some 255) =
      Some [3, 0, 9, packet_crc 9 [1, 0, 255], 1, 0, 255]"
    by (simp add: frame_packet_def lora_const_defs)
  from parse_frame_packet [OF this] show ?thesis by simp
qed

text \<open>
  C4 (parse_packet_sound). The parser accepts nothing else: an accepted byte string is, byte for
  byte, either the frame that \<open>frame_packet\<close> builds for the type, sequence number and payload
  reported (when the radio's limit of 255 bytes holds), or an acknowledgement of one payload byte,
  whose checksum byte is not looked at.\<close>

theorem parse_packet_sound:
  assumes "p_ok (parse_packet (Some bs))" and "length bs \<le> MAX_FRAME"
  shows "\<exists>pl. p_payload (parse_packet (Some bs)) = Some pl \<and> length pl \<le> MAX_PAYLOAD \<and>
    unat (p_len (parse_packet (Some bs))) = length pl \<and>
    (if p_type (parse_packet (Some bs)) = T_REC_AKNG
     then \<exists>c v. pl = [v] \<and> bs = [1, T_REC_AKNG, p_seq (parse_packet (Some bs)), c, v]
     else frame_packet (p_type (parse_packet (Some bs))) (p_seq (parse_packet (Some bs)))
            (Some pl) (length pl) (Some MAX_FRAME) = Some bs)"
proof -
  from parse_packet_okD [OF assms(1)] obtain l ty seq c pl where
    bs: "bs = l # ty # seq # c # pl" and l: "unat l = length pl" and ty: "ty \<le> T_NET"
    and ack: "ty = T_REC_AKNG \<longrightarrow> l = 1" and crc: "ty \<noteq> T_REC_AKNG \<longrightarrow> c = packet_crc seq pl"
    and p: "parse_packet (Some bs) =
       \<lparr>p_ok = True, p_err = ErrNone, p_type = ty, p_seq = seq, p_len = l, p_payload = Some pl\<rparr>"
    by blast
  from assms(2) bs have len: "length pl \<le> MAX_PAYLOAD" by (simp add: MAX_FRAME_def HEADER_LEN_def)
  have l': "l = word_of_nat (length pl)" by (simp flip: l)
  show ?thesis
  proof (cases "ty = T_REC_AKNG")
    case True
    with ack l have "length pl = 1" by simp
    then obtain v where "pl = [v]" by (cases pl) auto
    with True ack l len bs show ?thesis unfolding p by simp
  next
    case False
    with crc ty len show ?thesis
      unfolding p using l by (simp add: frame_packet_total MAX_FRAME_def bs flip: l')
  qed
qed

theorem parse_packet_sound_witness:
  "frame_packet 4 7 (Some [0xAB]) 1 (Some MAX_FRAME) = Some [1, 4, 7, packet_crc 7 [0xAB], 0xAB]"
proof -
  have ok: "p_ok (parse_packet (Some [1, 4, 7, packet_crc 7 [0xAB], 0xAB]))"
    by (simp add: parse_packet_def lora_const_defs)
  have len: "length [1, 4, 7, packet_crc 7 [0xAB], 0xAB] \<le> MAX_FRAME"
    by (simp add: lora_const_defs)
  from parse_packet_sound [OF ok len] show ?thesis
    by (simp add: parse_packet_def lora_const_defs)
qed

text \<open>What one changed byte does to a frame of a data type, by position.\<close>

lemma parse_len_changed:
  assumes "unat l = length pl" "b \<noteq> l"
  shows "p_err (parse_packet (Some (b # ty # seq # c # pl))) = LenMismatch \<and>
    \<not> p_ok (parse_packet (Some (b # ty # seq # c # pl)))"
proof -
  from assms have "length pl \<noteq> unat b" by (metis unsigned_word_eqI)
  then show ?thesis by (simp add: parse_packet_def HEADER_LEN_def Let_def)
qed

lemma parse_seq_changed:
  assumes "b \<noteq> seq" "unat l = length pl" "ty \<noteq> T_REC_AKNG" "ty \<le> T_NET"
  shows "p_err (parse_packet (Some (l # ty # b # packet_crc seq pl # pl))) = BadCrc \<and>
    \<not> p_ok (parse_packet (Some (l # ty # b # packet_crc seq pl # pl)))"
proof -
  from assms(1) have "packet_crc seq pl \<noteq> packet_crc b pl"
    using crc8_update_one_byte [of 0 "[]" seq pl b] by (simp add: packet_crc_eq del: crc8_bits.simps)
  with assms(2-4) show ?thesis by (simp add: parse_packet_data)
qed

lemma parse_payload_changed:
  assumes "i < length pl" "b \<noteq> pl ! i" "unat l = length pl" "ty \<noteq> T_REC_AKNG" "ty \<le> T_NET"
  shows "p_err (parse_packet (Some (l # ty # seq # packet_crc seq pl # pl[i := b]))) = BadCrc \<and>
    \<not> p_ok (parse_packet (Some (l # ty # seq # packet_crc seq pl # pl[i := b])))"
proof -
  from assms(1,2) have "packet_crc seq pl \<noteq> packet_crc seq (pl[i := b])"
    using crc8_update_byte_changed [of i pl b "crc8_update 0 [seq]"]
    by (metis packet_crc_def)
  with assms(3-5) show ?thesis by (simp add: parse_packet_data)
qed

text \<open>
  C5 (frame_corruption_detected). Damage to any single byte of a data frame other than its type
  byte is detected: whatever the payload and whatever the wrong value, a changed length byte is
  reported as a length mismatch and a changed sequence, checksum or payload byte as a bad
  checksum, and the packet is not accepted.\<close>

theorem frame_corruption_detected:
  assumes "frame_packet ty seq (Some pl) (length pl) cap = Some f"
    and "i < length f" and "i \<noteq> 1" and "b \<noteq> f ! i"
  shows "\<not> p_ok (parse_packet (Some (f[i := b]))) \<and>
    p_err (parse_packet (Some (f[i := b]))) = (if i = 0 then LenMismatch else BadCrc)"
proof -
  note fp = frame_packet_SomeD [OF assms(1)]
  let ?l = "word_of_nat (length pl) :: u8"
  have f: "f = ?l # ty # seq # packet_crc seq pl # pl" using fp(4) by simp
  have l: "unat ?l = length pl" using fp(1) by (simp add: MAX_PAYLOAD_def)
  consider "i = 0" | "i = 2" | "i = 3" | j where "i = Suc (Suc (Suc (Suc j)))"
    using assms(3) by (metis One_nat_def Suc_1 eval_nat_numeral(3) not0_implies_Suc)
  then show ?thesis
  proof cases
    case 1
    with assms(4) f show ?thesis
      using parse_len_changed [OF l, of b ty seq "packet_crc seq pl"] by simp
  next
    case 2
    with assms(4) f fp(2,3) show ?thesis by (simp add: parse_seq_changed [OF _ l])
  next
    case 3
    with assms(4) f fp(2,3) show ?thesis by (simp add: parse_packet_data l eval_nat_numeral)
  next
    case 4
    with assms(2,4) f fp(2,3) show ?thesis by (simp add: parse_payload_changed [OF _ _ l])
  qed
qed

theorem frame_corruption_detected_witness:
  "p_err (parse_packet (Some [2, 0, 9, packet_crc 9 [5, 6], 5, 7])) = BadCrc"
proof -
  have f: "frame_packet 0 9 (Some [5, 6]) (length [5, 6 :: u8]) (Some 255) =
      Some [2, 0, 9, packet_crc 9 [5, 6], 5, 6]"
    by (simp add: frame_packet_def lora_const_defs)
  show ?thesis using frame_corruption_detected [OF f, of 5 7] by simp
qed

text \<open>
  The type byte is the one header byte the checksum does not cover: a
  frame whose type byte was changed into another data type is accepted as a packet of that other
  type, with the same sequence number and payload, and a one-byte frame whose type byte was
  changed into the acknowledgement type is accepted as an acknowledgement.\<close>

lemma type_byte_unprotected:
  assumes "frame_packet ty seq (Some pl) (length pl) cap = Some f"
    and "ty' \<le> T_NET" and "ty' \<noteq> T_REC_AKNG \<or> length pl = 1"
  shows "p_ok (parse_packet (Some (f[1 := ty']))) \<and>
    p_type (parse_packet (Some (f[1 := ty']))) = ty' \<and>
    p_seq (parse_packet (Some (f[1 := ty']))) = seq \<and>
    p_payload (parse_packet (Some (f[1 := ty']))) = Some pl"
proof -
  note fp = frame_packet_SomeD [OF assms(1)]
  have f: "f[1 := ty'] = word_of_nat (length pl) # ty' # seq # packet_crc seq pl # pl"
    using fp(4) by simp
  have l: "unat (word_of_nat (length pl) :: u8) = length pl" using fp(1) by (simp add: MAX_PAYLOAD_def)
  show ?thesis
  proof (cases "ty' = T_REC_AKNG")
    case True
    with assms(3) show ?thesis
      unfolding f by (simp add: parse_packet_def lora_const_defs Let_def)
  next
    case False
    with assms(2) show ?thesis unfolding f by (simp add: parse_packet_data l)
  qed
qed

end
