(* ===== verification/Lora_Retry.thy ===== *)
theory Lora_Retry
  imports Lora_Frame
begin

text \<open>
  The sender's retry state machine and its random backoff (\<open>src/src/lora/lora_proto.h\<close>,
  lines 103-136 and 249-265).  \<open>TxRetry\<close> counts the transmissions of one packet; the four
  operations are the code's, returning the new state and the action the caller must take.

  The lemmas show what every operation does on every branch, that the counter never passes
  \<open>MAX_RETRIES + 1\<close>, and the bounds of the backoff.
\<close>

section \<open>The machine\<close>

datatype TxAction = Wait | Retransmit | Success | Fail

record TxRetry =
  t_seq :: u8
  attempts :: u8
  t_done :: bool

definition tx_begin :: "TxRetry \<Rightarrow> u8 \<Rightarrow> TxRetry" where
  "tx_begin t seq = t\<lparr>t_seq := seq, attempts := 1, t_done := False\<rparr>"

definition tx_next_attempt_or_fail :: "TxRetry \<Rightarrow> TxRetry \<times> TxAction" where
  "tx_next_attempt_or_fail t =
     (if attempts t > MAX_RETRIES then (t\<lparr>t_done := True\<rparr>, Fail)
      else (t\<lparr>attempts := attempts t + 1\<rparr>, Retransmit))"

definition tx_on_ack :: "TxRetry \<Rightarrow> u8 \<Rightarrow> u8 \<Rightarrow> TxRetry \<times> TxAction" where
  "tx_on_ack t ack_seq value =
     (if t_done t then (t, Wait)
      else if ack_seq \<noteq> t_seq t then (t, Wait)
      else if value = ACK_OK then (t\<lparr>t_done := True\<rparr>, Success)
      else tx_next_attempt_or_fail t)"

definition tx_on_timeout :: "TxRetry \<Rightarrow> TxRetry \<times> TxAction" where
  "tx_on_timeout t = (if t_done t then (t, Wait) else tx_next_attempt_or_fail t)"

lemmas tx_defs [step_simps] =
  tx_begin_def tx_next_attempt_or_fail_def tx_on_ack_def tx_on_timeout_def MAX_RETRIES_def ACK_OK_def

section \<open>Backoff\<close>

definition TX_ATTEMPTS :: u8 where "TX_ATTEMPTS = MAX_RETRIES + 1"
definition TX_RETRY_GAP_MS :: u32 where "TX_RETRY_GAP_MS = 10"
definition ACK_FRAME_LEN :: nat where "ACK_FRAME_LEN = HEADER_LEN + 1"
definition BACKOFF_BASE_MS :: u32 where "BACKOFF_BASE_MS = 1000"

definition retry_backoff_max_ms :: "u32 \<Rightarrow> u32 \<Rightarrow> u32" where
  "retry_backoff_max_ms data_airtime ack_airtime = BACKOFF_BASE_MS + 4 * (data_airtime + ack_airtime)"

definition retry_backoff_ms :: "u32 \<Rightarrow> u32 \<Rightarrow> u32" where
  "retry_backoff_ms rnd max_ms = TX_RETRY_GAP_MS + (if max_ms \<noteq> 0 then rnd mod max_ms else 0)"

section \<open>Lemmas\<close>

text \<open>The states of one packet between two transmissions: not finished, between 1 and
  \<open>MAX_RETRIES + 1\<close> transmissions made.\<close>

definition tx_live :: "TxRetry \<Rightarrow> bool" where
  "tx_live t \<longleftrightarrow> \<not> t_done t \<and> 1 \<le> unat (attempts t) \<and> unat (attempts t) \<le> 4"

lemma tx_begin_live: "tx_live (tx_begin t seq)"
  by (simp add: tx_live_def tx_begin_def)

lemma unat_Suc_attempts: "unat (attempts t) \<le> 4 \<Longrightarrow> unat (attempts t + 1) = Suc (unat (attempts t))"
  by (simp add: unat_word_ariths)

lemma attempts_gt_MAX: "attempts t > MAX_RETRIES \<longleftrightarrow> unat (attempts t) > 3"
  by (simp add: MAX_RETRIES_def word_less_nat_alt)

text \<open>What happens when a transmission was not acknowledged.\<close>

lemma tx_next_cases:
  assumes "tx_live t"
  shows "unat (attempts t) < 4 \<and>
      (\<exists>t'. tx_next_attempt_or_fail t = (t', Retransmit) \<and> tx_live t' \<and> t_seq t' = t_seq t \<and>
         unat (attempts t') = Suc (unat (attempts t))) \<or>
    unat (attempts t) = 4 \<and> (\<exists>t'. tx_next_attempt_or_fail t = (t', Fail) \<and> t_done t')"
proof (cases "unat (attempts t) < 4")
  case True
  with assms have "\<not> attempts t > MAX_RETRIES" by (simp add: attempts_gt_MAX)
  with True assms show ?thesis
    by (auto simp: tx_next_attempt_or_fail_def tx_live_def unat_Suc_attempts)
next
  case False
  with assms have "unat (attempts t) = 4" by (simp add: tx_live_def)
  then show ?thesis by (auto simp: tx_next_attempt_or_fail_def attempts_gt_MAX)
qed

lemma tx_on_timeout_live: "tx_live t \<Longrightarrow> tx_on_timeout t = tx_next_attempt_or_fail t"
  by (simp add: tx_on_timeout_def tx_live_def)

lemma tx_on_ack_live:
  "tx_live t \<Longrightarrow> tx_on_ack t s v =
    (if s \<noteq> t_seq t then (t, Wait)
     else if v = ACK_OK then (t\<lparr>t_done := True\<rparr>, Success)
     else tx_next_attempt_or_fail t)"
  by (simp add: tx_on_ack_def tx_live_def)

text \<open>A finished packet reacts to nothing any more.\<close>

lemma tx_done_inert: "t_done t \<Longrightarrow> tx_on_ack t s v = (t, Wait) \<and> tx_on_timeout t = (t, Wait)"
  by (simp add: tx_on_ack_def tx_on_timeout_def)

lemma retry_backoff_ms_zero: "retry_backoff_ms rnd 0 = TX_RETRY_GAP_MS"
  by (simp add: retry_backoff_ms_def)

lemma backoff_window:
  assumes "max_ms \<noteq> 0" and "unat max_ms + 10 < 2 ^ 32"
  shows "unat TX_RETRY_GAP_MS \<le> unat (retry_backoff_ms rnd max_ms) \<and>
    unat (retry_backoff_ms rnd max_ms) < unat TX_RETRY_GAP_MS + unat max_ms"
proof -
  from assms(1) have pos: "0 < unat max_ms" by (simp add: unat_gt_0)
  have "unat (rnd mod max_ms) = unat rnd mod unat max_ms" by (simp add: unat_mod)
  then have lt: "unat (rnd mod max_ms) < unat max_ms" using pos by simp
  have "unat (10 + rnd mod max_ms) = 10 + unat (rnd mod max_ms)"
    using lt assms(2) by (simp add: unat_word_ariths)
  with lt assms(1) show ?thesis by (simp add: retry_backoff_ms_def TX_RETRY_GAP_MS_def)
qed

text \<open>
  The random backoff lies in the half-open window the code promises,
  from \<open>TX_RETRY_GAP_MS\<close> up to but excluding \<open>TX_RETRY_GAP_MS + max_ms\<close>, for every
  random value, as long as the window itself fits a 32-bit millisecond count.\<close>

lemma retry_backoff_ms_bounds:
  assumes "max_ms \<noteq> 0" and "unat max_ms + 10 < 2 ^ 32"
  shows "unat TX_RETRY_GAP_MS \<le> unat (retry_backoff_ms rnd max_ms) \<and>
    unat (retry_backoff_ms rnd max_ms) < unat TX_RETRY_GAP_MS + unat max_ms"
  using backoff_window [OF assms] .

end
