(* ===== verification/Lora_Airtime.thy ===== *)
theory Lora_Airtime
  imports Lora_Retry Complex_Main "HOL-Library.Log_Nat"
begin

text \<open>
  Time on air and the worst-case duration of a transmission
  (\<open>src/src/lora/lora_proto.h\<close>, lines 233-247 and 267-280).

  The code computes in \<open>double\<close>.  A \<open>double\<close> is modelled by its rational value and every
  operation by the exact operation followed by \<open>fl\<close>, the rounding of the IEEE binary64
  format (53-bit significand, round to nearest, ties to even).  All values here are
  positive and between \<open>2 ^ -20\<close> and \<open>2 ^ 60\<close>, so neither subnormal numbers nor overflow
  to infinity play a part and \<open>fl\<close> leaves them out.
\<close>

section \<open>Rounding of the double format\<close>

definition round_half_even :: "rat \<Rightarrow> int" where
  "round_half_even x =
     (let n = \<lfloor>x\<rfloor>; d = x - of_int n
      in if d < 1/2 then n else if d > 1/2 then n + 1 else if even n then n else n + 1)"

definition two_pow :: "int \<Rightarrow> rat" where
  "two_pow e = (if 0 \<le> e then 2 ^ nat e else 1 / 2 ^ nat (- e))"

text \<open>The exponent of the binade of a positive number: the \<open>e\<close> with \<open>2 ^ e \<le> x < 2 ^ (e + 1)\<close>.\<close>

definition binade :: "rat \<Rightarrow> int" where
  "binade x =
     (if 1 \<le> x then int (floorlog 2 (nat \<lfloor>x\<rfloor>)) - 1
      else - int (floorlog 2 (nat (\<lceil>1 / x\<rceil> - 1))))"

definition fl :: "rat \<Rightarrow> rat" where
  "fl x = (if x \<le> 0 then 0
           else let u = two_pow (binade x - 52) in of_int (round_half_even (x / u)) * u)"

lemma round_half_even_error: "\<bar>of_int (round_half_even x) - x\<bar> \<le> 1 / 2"
proof -
  have "of_int \<lfloor>x\<rfloor> \<le> x" "x < of_int \<lfloor>x\<rfloor> + 1" by linarith+
  then show ?thesis by (auto simp: round_half_even_def Let_def abs_le_iff)
qed

lemma two_pow_pos [simp]: "0 < two_pow e"
  by (simp add: two_pow_def)

lemma two_pow_minus_52: "two_pow (e - 52) = two_pow e / 2 ^ 52"
proof -
  consider "52 \<le> e" | "0 \<le> e" "e < 52" | "e < 0" by linarith
  then show ?thesis
  proof cases
    case 1
    then have "nat e = nat (e - 52) + 52" by simp
    then show ?thesis using 1 by (simp add: two_pow_def power_add)
  next
    case 2
    then have "(2 :: rat) ^ 52 = 2 ^ nat (52 - e) * 2 ^ nat e"
      by (simp flip: power_add nat_add_distrib)
    then have "(2 :: rat) ^ nat e = 2 ^ 52 / 2 ^ nat (52 - e)" by (simp del: power_numeral)
    then show ?thesis using 2 unfolding two_pow_def by simp
  next
    case 3
    then have "nat (52 - e) = nat (- e) + 52" by simp
    then show ?thesis using 3 by (simp add: two_pow_def power_add)
  qed
qed

text \<open>The exponent is that of the binade.\<close>

lemma binade_bounds:
  assumes "0 < x"
  shows "two_pow (binade x) \<le> x \<and> x < 2 * two_pow (binade x)"
proof (cases "1 \<le> x")
  case True
  define n where "n = nat \<lfloor>x\<rfloor>"
  from True have n: "0 < n" "of_nat n \<le> x" "x < of_nat n + 1" unfolding n_def by linarith+
  let ?f = "floorlog 2 n"
  from floorlog_bounds [of n 2] n(1) have b: "2 ^ (?f - 1) \<le> n" "n < 2 ^ ?f" by simp_all
  have f: "0 < ?f" using n(1) by (simp add: floorlog_eq_zero_iff neq0_conv [symmetric] del: neq0_conv)
  have tp: "two_pow (binade x) = 2 ^ (?f - 1)"
    using True f by (simp add: binade_def two_pow_def n_def nat_diff_distrib)
  have "(2 :: rat) ^ (?f - 1) \<le> of_nat n" using b(1) by (metis of_nat_le_iff of_nat_numeral of_nat_power)
  moreover have "of_nat n + 1 \<le> (2 :: rat) ^ ?f"
    using b(2) by (metis Suc_leI of_nat_Suc of_nat_le_iff of_nat_numeral of_nat_power add.commute)
  moreover have "(2 :: rat) ^ ?f = 2 * 2 ^ (?f - 1)" using f by (metis power_eq_if less_numeral_extra(3))
  ultimately show ?thesis using n tp by linarith
next
  case False
  define y where "y = 1 / x"
  from assms False have y: "1 < y" "x = 1 / y" by (auto simp: y_def)
  define n where "n = nat (\<lceil>y\<rceil> - 1)"
  have n: "0 < n" "of_nat n < y" "y \<le> of_nat n + 1" using y(1) unfolding n_def by linarith+
  let ?f = "floorlog 2 n"
  from floorlog_bounds [of n 2] n(1) have b: "2 ^ (?f - 1) \<le> n" "n < 2 ^ ?f" by simp_all
  have f: "0 < ?f" using n(1) by (simp add: floorlog_eq_zero_iff neq0_conv [symmetric] del: neq0_conv)
  have tp: "two_pow (binade x) = 1 / 2 ^ ?f"
    using False f by (simp add: binade_def two_pow_def n_def y_def)
  have "(2 :: rat) ^ (?f - 1) \<le> of_nat n" using b(1) by (metis of_nat_le_iff of_nat_numeral of_nat_power)
  moreover have "of_nat n + 1 \<le> (2 :: rat) ^ ?f"
    using b(2) by (metis Suc_leI of_nat_Suc of_nat_le_iff of_nat_numeral of_nat_power add.commute)
  moreover have "(2 :: rat) ^ ?f = 2 * 2 ^ (?f - 1)" using f by (metis power_eq_if less_numeral_extra(3))
  ultimately have w: "y \<le> 2 ^ ?f" "2 ^ ?f < 2 * y" using n by linarith+
  have "x * y \<le> x * 2 ^ ?f" using w(1) assms by (intro mult_left_mono) auto
  moreover have "x * 2 ^ ?f < x * (2 * y)" using w(2) assms by (intro mult_strict_left_mono) auto
  moreover have "x * y = 1" using y by simp
  ultimately have "1 \<le> x * 2 ^ ?f" "x * 2 ^ ?f < 2" by (simp_all add: algebra_simps)
  then show ?thesis unfolding tp by (simp add: field_simps)
qed

lemma fl_error:
  assumes "0 < x"
  shows "\<bar>fl x - x\<bar> \<le> x / 2 ^ 53"
proof -
  define u where "u = two_pow (binade x - 52)"
  have u: "0 < u" by (simp add: u_def)
  have "u \<le> x / 2 ^ 52" using binade_bounds [OF assms] by (simp add: u_def two_pow_minus_52 divide_right_mono)
  have "fl x = of_int (round_half_even (x / u)) * u" using assms by (simp add: fl_def u_def Let_def)
  then have "fl x - x = (of_int (round_half_even (x / u)) - x / u) * u"
    using u by (simp add: left_diff_distrib)
  then have "\<bar>fl x - x\<bar> = \<bar>of_int (round_half_even (x / u)) - x / u\<bar> * u" using u by (simp add: abs_mult)
  also have "\<dots> \<le> 1 / 2 * u" using round_half_even_error u by (intro mult_right_mono) auto
  also have "\<dots> \<le> x / 2 ^ 53" using \<open>u \<le> x / 2 ^ 52\<close> by simp
  finally show ?thesis .
qed

section \<open>The functions\<close>

definition airtime_ms :: "int \<Rightarrow> int \<Rightarrow> int \<Rightarrow> nat \<Rightarrow> u32" where
  "airtime_ms sf bw_hz cr4 payload_len =
     (if sf < 6 \<or> sf > 12 \<or> bw_hz \<le> 0 \<or> cr4 < 5 \<or> cr4 > 8 then 0
      else
        let tsym_ms = fl (fl (2 ^ nat sf * 1000) / of_int bw_hz);
            de = (if tsym_ms > 16 then 1 else 0);
            num = 8 * int payload_len - 4 * sf + 28 + 16;
            den = 4 * (sf - 2 * de);
            n = (if num > 0 then (num + den - 1) div den else 0);
            symbols = fl (fl (fl (8 + 17/4) + 8) + of_int (n * cr4));
            ms = fl (symbols * tsym_ms)
        in word_of_int \<lfloor>ms\<rfloor> + 1)"

definition tx_expected_ms :: "int \<Rightarrow> int \<Rightarrow> int \<Rightarrow> nat \<Rightarrow> u32 \<Rightarrow> u32" where
  "tx_expected_ms sf bw_hz cr4 frame_len ack_timeout_ms =
     (if frame_len > MAX_FRAME then 0
      else
        let data = airtime_ms sf bw_hz cr4 frame_len;
            ack = airtime_ms sf bw_hz cr4 ACK_FRAME_LEN
        in if data = 0 \<or> ack = 0 then 0
           else ucast TX_ATTEMPTS * (data + ack_timeout_ms + ack) +
                ucast MAX_RETRIES * (TX_RETRY_GAP_MS + retry_backoff_max_ms data ack))"

section \<open>The floating-point formula gives the exact result\<close>

text \<open>The number of symbols after the preamble and the exact time on air, over the rationals.\<close>

definition sym_count :: "int \<Rightarrow> bool \<Rightarrow> nat \<Rightarrow> int" where
  "sym_count sf low_rate len =
     (let num = 8 * int len - 4 * sf + 44; den = 4 * (sf - 2 * of_bool low_rate)
      in if num > 0 then (num + den - 1) div den else 0)"

definition exact_tsym :: "int \<Rightarrow> int \<Rightarrow> rat" where
  "exact_tsym sf bw = 2 ^ nat sf * 1000 / of_int bw"

definition exact_airtime :: "int \<Rightarrow> int \<Rightarrow> int \<Rightarrow> nat \<Rightarrow> rat" where
  "exact_airtime sf bw cr4 len =
     (81/4 + of_int (sym_count sf (exact_tsym sf bw > 16) len * cr4)) * exact_tsym sf bw"

lemma fl_pos: "0 < x \<Longrightarrow> 0 < fl x"
proof -
  assume x: "0 < x"
  then have "x / 2 ^ 53 < x" by simp
  with fl_error [OF x] show ?thesis by linarith
qed

text \<open>Multiples of 1/4 below \<open>2 ^ 38\<close> are represented exactly.\<close>

lemma fl_quarters:
  assumes "0 < k" "k < 2 ^ 40"
  shows "fl (of_int k / 4) = of_int k / 4"
proof -
  define x :: rat where "x = of_int k / 4"
  define e where "e = binade x"
  have x: "0 < x" using assms(1) by (simp add: x_def)
  have "(of_int k :: rat) < of_int (2 ^ 40)" using assms(2) by (simp only: of_int_less_iff)
  then have lt: "x < 2 ^ 40" by (simp add: x_def)
  have e: "e < 40"
  proof (rule ccontr)
    assume "\<not> e < 40"
    then have "(2 :: rat) ^ 40 \<le> 2 ^ nat e" by (intro power_increasing) auto
    with binade_bounds [OF x] lt \<open>\<not> e < 40\<close> show False by (simp add: e_def [symmetric] two_pow_def)
  qed
  define m where "m = nat (52 - e) - 2"
  have "nat (52 - e) = m + 2" using e by (simp add: m_def)
  then have u: "two_pow (e - 52) = 1 / (4 * 2 ^ m)" using e by (simp add: two_pow_def power_add)
  have "x / two_pow (e - 52) = of_int (k * 2 ^ m)" by (simp add: u x_def)
  then have "round_half_even (x / two_pow (e - 52)) = k * 2 ^ m" by (simp only: round_half_even_def floor_of_int) simp
  then have "fl x = of_int (k * 2 ^ m) * two_pow (e - 52)" using x by (simp add: fl_def e_def Let_def)
  then show ?thesis by (simp add: u x_def)
qed

lemma fl_of_int: "0 < k \<Longrightarrow> k < 2 ^ 38 \<Longrightarrow> fl (of_int k) = of_int k"
  using fl_quarters [of "4 * k"] by simp

lemma fl_pow_sf: "6 \<le> sf \<Longrightarrow> sf \<le> 12 \<Longrightarrow> fl (2 ^ nat sf * 1000) = 2 ^ nat sf * 1000"
proof -
  assume "6 \<le> sf" "sf \<le> 12"
  then have "(2 :: int) ^ nat sf \<le> 2 ^ 12" by (intro power_increasing) auto
  then show ?thesis using fl_of_int [of "2 ^ nat sf * 1000"] by simp
qed

lemma fl_preamble: "fl (fl (8 + 17/4) + 8) = 81/4"
proof -
  have a: "fl (49/4) = 49/4" using fl_quarters [of 49] by simp
  have b: "fl (81/4) = 81/4" using fl_quarters [of 81] by simp
  have c: "8 + 17/4 = (49/4 :: rat)" "49/4 + 8 = (81/4 :: rat)" by simp_all
  show ?thesis by (simp only: a b c)
qed

lemma sym_count_nonneg: "6 \<le> sf \<Longrightarrow> 0 \<le> sym_count sf b len"
  by (simp add: sym_count_def Let_def pos_imp_zdiv_nonneg_iff)

lemma sym_count_le:
  assumes "6 \<le> sf" "sf \<le> 12" "len \<le> 255"
  shows "sym_count sf b len \<le> 130"
proof -
  have "(8 * int len - 4 * sf + 44 + d - 1) div d \<le> 130" if "16 \<le> d" for d
  proof -
    have "8 * int len - 4 * sf + 44 + d - 1 < 131 * d" using assms that by linarith
    moreover have "(8 * int len - 4 * sf + 44 + d - 1) div d * d \<le> 8 * int len - 4 * sf + 44 + d - 1"
      using that by (simp add: minus_mod_eq_div_mult [symmetric])
    ultimately have "(8 * int len - 4 * sf + 44 + d - 1) div d * d < 131 * d" by linarith
    with that have "(8 * int len - 4 * sf + 44 + d - 1) div d < 131" by (simp only: mult_less_cancel_right)
    then show ?thesis by linarith
  qed
  from this [of "4 * (sf - 2 * of_bool b)"] assms show ?thesis
    by (cases b) (simp_all add: sym_count_def Let_def)
qed

text \<open>The low-data-rate decision of the code agrees with the exact one.\<close>

lemma fl_tsym_gt_16:
  assumes "6 \<le> sf" "sf \<le> 12" "0 < bw" "bw \<le> 500000"
  shows "fl (exact_tsym sf bw) > 16 \<longleftrightarrow> exact_tsym sf bw > 16"
proof -
  define P :: int where "P = 2 ^ nat sf * 1000"
  define t where "t = exact_tsym sf bw"
  have P: "0 < P" by (simp add: P_def)
  have t: "t = of_int P / of_int bw" by (simp add: t_def exact_tsym_def P_def)
  have tpos: "0 < t" using P assms by (simp add: t)
  have err: "\<bar>fl t - t\<bar> \<le> t / 2 ^ 53" by (rule fl_error [OF tpos])
  define b :: rat where "b = of_int bw"
  have b: "0 < b" using assms by (simp add: b_def)
  consider "P = 16 * bw" | "P < 16 * bw" | "P > 16 * bw" by linarith
  then have "fl t > 16 \<longleftrightarrow> t > 16"
  proof cases
    case 1
    then have "t = of_int 16" using assms by (simp add: t)
    moreover from this have "fl t = of_int 16" using fl_of_int [of 16] by simp
    ultimately show ?thesis by simp
  next
    case 2
    then have "P \<le> 16 * bw - 1" by linarith
    then have "(of_int P :: rat) \<le> of_int (16 * bw - 1)" by (simp only: of_int_le_iff)
    also have "\<dots> = (16 - 1 / b) * b" using b by (simp add: left_diff_distrib b_def)
    finally have "t \<le> 16 - 1 / of_int bw" using b by (simp add: t b_def pos_divide_le_eq)
    moreover have "1 / of_int bw \<ge> (1 / 500000 :: rat)" using assms by (simp add: field_simps)
    ultimately have le: "t \<le> 16 - 1 / 500000" by linarith
    then have "t / 2 ^ 53 \<le> 16 / 2 ^ 53" by (intro divide_right_mono) auto
    also have "\<dots> \<le> 1 / 500000" by simp
    finally have "fl t \<le> 16" using err le by linarith
    with le show ?thesis by linarith
  next
    case 3
    then have "16 * bw + 1 \<le> P" by linarith
    then have "of_int (16 * bw + 1) \<le> (of_int P :: rat)" by (simp only: of_int_le_iff)
    moreover have "of_int (16 * bw + 1) = (16 + 1 / b) * b" using b by (simp add: distrib_right b_def)
    ultimately have "16 + 1 / of_int bw \<le> t" using b by (simp add: t b_def pos_le_divide_eq)
    moreover have "1 / of_int bw \<ge> (1 / 500000 :: rat)" using assms by (simp add: field_simps)
    ultimately have ge: "t \<ge> 16 + 1 / 500000" by linarith
    have "(16 :: rat) < (16 + 1 / 500000) * (1 - 1 / 2 ^ 53)" by simp
    moreover have "(16 + 1 / 500000) * (1 - 1 / 2 ^ 53) \<le> t * (1 - 1 / 2 ^ 53)"
      using ge by (intro mult_right_mono) auto
    moreover have "t * (1 - 1 / 2 ^ 53) = t - t / 2 ^ 53" by (simp only: right_diff_distrib) simp
    ultimately have "16 < fl t" using err by linarith
    with ge show ?thesis by linarith
  qed
  then show ?thesis by (simp add: t_def)
qed

lemma floor_gap:
  fixes M x :: rat
  assumes M: "M = of_int K / of_int q" and q: "0 < q" and close: "\<bar>x - M\<bar> < 1 / of_int q"
  shows "of_int \<lfloor>x\<rfloor> \<le> M \<and> M \<le> of_int \<lfloor>x\<rfloor> + 1"
proof (rule conjI; rule ccontr)
  have fx: "of_int \<lfloor>x\<rfloor> \<le> x" "x < of_int \<lfloor>x\<rfloor> + 1" by linarith+
  {
    assume "\<not> of_int \<lfloor>x\<rfloor> \<le> M"
    then have "(of_int K :: rat) < of_int (\<lfloor>x\<rfloor> * q)" using q by (simp add: M field_simps)
    then have "K + 1 \<le> \<lfloor>x\<rfloor> * q" by (simp only: of_int_less_iff)
    then have "(of_int (K + 1) :: rat) \<le> of_int (\<lfloor>x\<rfloor> * q)" by (simp only: of_int_le_iff)
    then have "(of_int K + 1) / of_int q \<le> (of_int \<lfloor>x\<rfloor> :: rat)" using q by (simp add: pos_divide_le_eq)
    then have "M + 1 / of_int q \<le> of_int \<lfloor>x\<rfloor>" by (simp add: M add_divide_distrib)
    with close fx show False by linarith
  }
  {
    assume "\<not> M \<le> of_int \<lfloor>x\<rfloor> + 1"
    then have "(of_int ((\<lfloor>x\<rfloor> + 1) * q) :: rat) < of_int K" using q by (simp add: M field_simps)
    then have "(\<lfloor>x\<rfloor> + 1) * q + 1 \<le> K" by (simp only: of_int_less_iff)
    then have "(of_int ((\<lfloor>x\<rfloor> + 1) * q + 1) :: rat) \<le> of_int K" by (simp only: of_int_le_iff)
    then have "((of_int \<lfloor>x\<rfloor> + 1) * of_int q + 1) / of_int q \<le> M" using q by (simp add: M divide_right_mono)
    then have "of_int \<lfloor>x\<rfloor> + 1 + 1 / of_int q \<le> M" using q by (simp add: add_divide_distrib)
    with close fx show False by linarith
  }
qed

text \<open>The configurations the range checks of the program let through, and some more.\<close>

definition radio_range :: "int \<Rightarrow> int \<Rightarrow> int \<Rightarrow> bool" where
  "radio_range sf bw cr4 \<longleftrightarrow> 6 \<le> sf \<and> sf \<le> 12 \<and> 7800 \<le> bw \<and> bw \<le> 500000 \<and> 5 \<le> cr4 \<and> cr4 \<le> 8"

lemma exact_airtime_bounds:
  assumes r: "radio_range sf bw cr4" and len: "len \<le> 255"
  shows "0 < exact_airtime sf bw cr4 len \<and> exact_airtime sf bw cr4 len \<le> 560000"
proof -
  define n where "n = sym_count sf (exact_tsym sf bw > 16) len"
  have n: "0 \<le> n" "n \<le> 130"
    using r len by (auto simp: n_def radio_range_def intro: sym_count_nonneg sym_count_le)
  have cr: "5 \<le> cr4" "cr4 \<le> 8" using r by (auto simp: radio_range_def)
  have ncr: "0 \<le> n * cr4" "n * cr4 \<le> 130 * 8" using n cr by (simp, intro mult_mono) auto
  then have S: "0 \<le> (of_int (n * cr4) :: rat)" "of_int (n * cr4) \<le> (of_int 1040 :: rat)"
    by (simp_all only: of_int_0_le_iff of_int_le_iff)
  have "(2 :: rat) ^ nat sf \<le> 2 ^ 12" using r by (intro power_increasing) (auto simp: radio_range_def)
  moreover have "(7800 :: rat) \<le> of_int bw" using r by (simp add: radio_range_def)
  ultimately have "exact_tsym sf bw \<le> (2 ^ 12 * 1000) / 7800" unfolding exact_tsym_def
    by (intro frac_le mult_right_mono) auto
  then have t: "exact_tsym sf bw \<le> 526" by simp
  have tpos: "0 < exact_tsym sf bw" using r by (simp add: exact_tsym_def radio_range_def)
  have "(81/4 + of_int (n * cr4)) * exact_tsym sf bw \<le> (81/4 + 1040) * 526"
    using S(2) t tpos unfolding of_int_numeral by (intro mult_mono add_left_mono) linarith+
  moreover have "0 < (81/4 + of_int (n * cr4)) * exact_tsym sf bw"
    using S tpos by (intro mult_pos_pos) auto
  ultimately show ?thesis by (simp add: exact_airtime_def n_def)
qed

text \<open>What the code computes, with the roundings that are exact removed.\<close>

lemma airtime_ms_rounded:
  assumes r: "radio_range sf bw cr4" and len: "len \<le> 255"
  shows "airtime_ms sf bw cr4 len =
    word_of_int \<lfloor>fl ((81/4 + of_int (sym_count sf (exact_tsym sf bw > 16) len * cr4)) * fl (exact_tsym sf bw))\<rfloor> + 1"
proof -
  have rr: "6 \<le> sf" "sf \<le> 12" "0 < bw" "bw \<le> 500000" "5 \<le> cr4" "cr4 \<le> 8"
    using r by (auto simp: radio_range_def)
  define n where "n = sym_count sf (exact_tsym sf bw > 16) len"
  have n: "0 \<le> n" "n \<le> 130"
    using rr len by (auto simp: n_def intro: sym_count_nonneg sym_count_le)
  have ncr: "0 \<le> n * cr4" "n * cr4 \<le> 130 * 8" using n rr by (simp, intro mult_mono) auto
  have "fl (of_int (81 + 4 * (n * cr4)) / 4) = of_int (81 + 4 * (n * cr4)) / 4"
    using ncr by (intro fl_quarters) auto
  then have sym: "fl (81/4 + of_int (n * cr4)) = 81/4 + of_int (n * cr4)"
    by (simp add: add_divide_distrib)
  have ts: "fl (fl (2 ^ nat sf * 1000) / of_int bw) = fl (exact_tsym sf bw)"
    using rr by (simp add: fl_pow_sf exact_tsym_def)
  have nn: "n = (let num = 8 * int len - 4 * sf + 28 + 16;
              den = 4 * (sf - 2 * (if fl (exact_tsym sf bw) > 16 then 1 else 0))
            in if num > 0 then (num + den - 1) div den else 0)"
    using fl_tsym_gt_16 [OF rr(1-4)] by (simp add: n_def sym_count_def Let_def)
  have guard: "\<not> (sf < 6 \<or> sf > 12 \<or> bw \<le> 0 \<or> cr4 < 5 \<or> cr4 > 8)" using rr by auto
  show ?thesis unfolding airtime_ms_def if_not_P [OF guard] ts fl_preamble n_def [symmetric] Let_def
    by (simp only: nn [unfolded Let_def, symmetric] sym)
qed

lemma airtime_ms_nat:
  assumes r: "radio_range sf bw cr4" and len: "len \<le> 255"
  shows "exact_airtime sf bw cr4 len \<le> of_nat (unat (airtime_ms sf bw cr4 len)) \<and>
    of_nat (unat (airtime_ms sf bw cr4 len)) \<le> exact_airtime sf bw cr4 len + 1 \<and>
    0 < unat (airtime_ms sf bw cr4 len) \<and> unat (airtime_ms sf bw cr4 len) \<le> 560001"
proof -
  define n where "n = sym_count sf (exact_tsym sf bw > 16) len"
  define S :: rat where "S = 81/4 + of_int (n * cr4)"
  define t where "t = exact_tsym sf bw"
  define x where "x = fl (S * fl t)"
  have rr: "6 \<le> sf" "sf \<le> 12" "0 < bw" "bw \<le> 500000" "5 \<le> cr4" "cr4 \<le> 8"
    using r by (auto simp: radio_range_def)
  have n: "0 \<le> n" using rr by (simp add: n_def sym_count_nonneg)
  have Sp: "0 < S" using n rr by (simp add: S_def add_pos_nonneg)
  have tp: "0 < t" using rr by (simp add: t_def exact_tsym_def)
  define M where "M = S * t"
  have M: "M = exact_airtime sf bw cr4 len" by (simp add: M_def S_def t_def n_def exact_airtime_def)
  have Mb: "0 < M" "M \<le> 560000" using exact_airtime_bounds [OF r len] by (simp_all add: M)
  define y where "y = S * fl t"
  have yp: "0 < y" using Sp fl_pos [OF tp] by (simp add: y_def)
  have "\<bar>y - M\<bar> = S * \<bar>fl t - t\<bar>" using Sp by (simp add: y_def M_def abs_mult flip: right_diff_distrib)
  also have "\<dots> \<le> S * (t / 2 ^ 53)" using Sp fl_error [OF tp] by (intro mult_left_mono) auto
  also have "\<dots> = M / 2 ^ 53" by (simp add: M_def)
  also have "\<dots> \<le> 560000 / 2 ^ 53" using Mb by (intro divide_right_mono) auto
  also have "\<dots> \<le> 1 / 8000000" by simp
  finally have e1: "\<bar>y - M\<bar> \<le> 1 / 8000000" .
  with Mb have "y \<le> 560001" by linarith
  then have "y / 2 ^ 53 \<le> 560001 / 2 ^ 53" by (intro divide_right_mono) auto
  also have "\<dots> \<le> 1 / 8000000" by simp
  finally have e2: "\<bar>x - y\<bar> \<le> 1 / 8000000" using fl_error [OF yp] by (simp add: x_def y_def)
  have e: "\<bar>x - M\<bar> \<le> 1 / 4000000" using e1 e2 by linarith
  have "(1 :: rat) / 2000000 \<le> 1 / of_int (4 * bw)"
    using rr by (intro divide_left_mono) auto
  with e have close: "\<bar>x - M\<bar> < 1 / of_int (4 * bw)" by linarith
  have "M = of_int ((81 + 4 * (n * cr4)) * (2 ^ nat sf * 1000)) / of_int (4 * bw)"
    using rr by (simp add: M_def S_def t_def exact_tsym_def field_simps)
  from floor_gap [OF this _ close] rr have fg: "of_int \<lfloor>x\<rfloor> \<le> M" "M \<le> of_int \<lfloor>x\<rfloor> + 1" by simp_all
  have x0: "0 \<le> \<lfloor>x\<rfloor>" using fl_pos [OF yp] by (simp add: x_def y_def less_imp_le)
  have "(of_int \<lfloor>x\<rfloor> :: rat) \<le> of_int 560000" unfolding of_int_numeral using fg(1) Mb(2) by linarith
  then have xb: "\<lfloor>x\<rfloor> \<le> 560000" by (simp only: of_int_le_iff)
  define m where "m = nat \<lfloor>x\<rfloor>"
  have m: "\<lfloor>x\<rfloor> = int m" "m \<le> 560000" unfolding m_def using x0 xb by linarith+
  have "airtime_ms sf bw cr4 len = word_of_int \<lfloor>x\<rfloor> + 1"
    using airtime_ms_rounded [OF r len] by (simp add: x_def S_def t_def n_def)
  then have "airtime_ms sf bw cr4 len = word_of_nat (Suc m)" by (simp add: m(1))
  then have u: "unat (airtime_ms sf bw cr4 len) = Suc m" using m(2) by (simp del: of_nat_Suc)
  show ?thesis unfolding u M [symmetric] using fg m by simp
qed

text \<open>
  C7 (airtime_ms_correct). For every radio setting the program accepts and every frame length, the
  double-precision computation returns a millisecond count that is never below the exact
  Semtech time on air and at most one millisecond above it: no rounding of the floating-point
  operations and no cast loses a millisecond.\<close>

theorem airtime_ms_correct:
  assumes "radio_range sf bw cr4" and "len \<le> 255"
  shows "exact_airtime sf bw cr4 len \<le> of_nat (unat (airtime_ms sf bw cr4 len)) \<and>
    of_nat (unat (airtime_ms sf bw cr4 len)) \<le> exact_airtime sf bw cr4 len + 1"
  using airtime_ms_nat [OF assms] by blast

theorem airtime_ms_correct_witness:
  "exact_airtime 7 125000 5 20 \<le> of_nat (unat (airtime_ms 7 125000 5 20)) \<and>
   of_nat (unat (airtime_ms 7 125000 5 20)) \<le> exact_airtime 7 125000 5 20 + 1 \<and>
   exact_airtime 7 125000 5 20 = 7072 / 125"
  using airtime_ms_correct [of 7 125000 5 20]
  by (simp add: radio_range_def exact_airtime_def exact_tsym_def sym_count_def Let_def)

section \<open>The worst case of a whole transmission\<close>

lemma ACK_FRAME_LEN_eq: "ACK_FRAME_LEN = 5"
  by (simp add: ACK_FRAME_LEN_def HEADER_LEN_def)

text \<open>
  For every accepted radio setting and every frame the radio can carry, the
  announced worst case is four times (airtime of the frame, ACK timeout, airtime of the ACK)
  plus three times the longest backoff, computed without any 32-bit wrap-around, and never
  the 0 that means "invalid".\<close>

lemma tx_expected_ms_value:
  assumes "radio_range sf bw cr4" and "len \<le> MAX_FRAME" and "unat T \<le> 100000000"
  shows "unat (tx_expected_ms sf bw cr4 len T) =
    4 * (unat (airtime_ms sf bw cr4 len) + unat T + unat (airtime_ms sf bw cr4 5)) +
    3 * (10 + (1000 + 4 * (unat (airtime_ms sf bw cr4 len) + unat (airtime_ms sf bw cr4 5)))) \<and>
    0 < unat (tx_expected_ms sf bw cr4 len T)"
proof -
  define D where "D = airtime_ms sf bw cr4 len"
  define A where "A = airtime_ms sf bw cr4 5"
  from assms(2) have len: "len \<le> 255" by (simp add: MAX_FRAME_def HEADER_LEN_def MAX_PAYLOAD_def)
  have D: "0 < unat D" "unat D \<le> 560001" using airtime_ms_nat [OF assms(1) len] by (simp_all add: D_def)
  have A: "0 < unat A" "unat A \<le> 560001" using airtime_ms_nat [OF assms(1), of 5] by (simp_all add: A_def)
  have nz: "D \<noteq> 0" "A \<noteq> 0" using D(1) A(1) by auto
  have "tx_expected_ms sf bw cr4 len T = 4 * (D + T + A) + 3 * (10 + (1000 + 4 * (D + A)))"
    using assms(2) nz
    by (simp add: tx_expected_ms_def D_def A_def ACK_FRAME_LEN_eq Let_def TX_ATTEMPTS_def MAX_RETRIES_def
        TX_RETRY_GAP_MS_def retry_backoff_max_ms_def BACKOFF_BASE_MS_def)
  then have "unat (tx_expected_ms sf bw cr4 len T) =
      4 * (unat D + unat T + unat A) + 3 * (10 + (1000 + 4 * (unat D + unat A)))"
    using D A assms(3) by (simp add: unat_word_ariths)
  then show ?thesis by (simp add: D_def A_def)
qed

end
