(* ===== verification/Lora_Dedup.thy ===== *)
theory Lora_Dedup
  imports Lora_Frame
begin

text \<open>
  Duplicate detection on the receiving side (\<open>src/src/lora/lora_proto.h\<close>, lines 138-231).

  \<open>RxDedup\<close> remembers the last accepted sequence number of one source; \<open>RxDedupMulti\<close>
  remembers it for up to \<open>DEDUP_SLOTS\<close> sources, keyed by a 32-bit hash, and forgets an entry
  after a window of accepted packets.  The interface both give to the receive path is the
  locale \<open>duplicate_filter\<close>.

  The specification of the multi-source filter is a history: the list of the committed
  \<open>(key, seq)\<close> pairs, newest first.  \<open>dd_run\<close> is the filter after that history; the
  theorems say what the filter answers in terms of the history alone.
\<close>

section \<open>Single source\<close>

record RxDedup =
  have_seq :: bool
  last_seq :: u8

definition rx_is_duplicate :: "RxDedup \<Rightarrow> u8 \<Rightarrow> bool" where
  "rx_is_duplicate d seq \<longleftrightarrow> have_seq d \<and> last_seq d = seq"

definition rx_commit :: "RxDedup \<Rightarrow> u8 \<Rightarrow> RxDedup" where
  "rx_commit d seq = d\<lparr>have_seq := True, last_seq := seq\<rparr>"

section \<open>Several sources\<close>

definition DEDUP_SLOTS :: nat where "DEDUP_SLOTS = 4"
definition DEDUP_WINDOW :: u32 where "DEDUP_WINDOW = 16"

record RxDedupEntry =
  e_key :: u32
  e_at :: u32
  e_seq :: u8
  e_used :: bool

record RxDedupMulti =
  entries :: "RxDedupEntry list"
  lru :: nat
  accepted :: u32

definition RxDedupEntry_init :: RxDedupEntry where
  "RxDedupEntry_init = \<lparr>e_key = 0, e_at = 0, e_seq = 0, e_used = False\<rparr>"

definition RxDedupMulti_init :: RxDedupMulti where
  "RxDedupMulti_init = \<lparr>entries = replicate DEDUP_SLOTS RxDedupEntry_init, lru = 0, accepted = 0\<rparr>"

text \<open>The MAC hash; a null pointer is \<open>None\<close>.\<close>

fun hash_mac_loop :: "u32 \<Rightarrow> string \<Rightarrow> u32" where
  "hash_mac_loop h [] = h"
| "hash_mac_loop h (c # cs) = hash_mac_loop ((push_bit 5 h + h) XOR ucast (byte_of c)) cs"

definition hash_mac :: "string option \<Rightarrow> u32" where
  "hash_mac mac =
     (case mac of
        None \<Rightarrow> 1
      | Some s \<Rightarrow> if s = [] then 1
                  else let h = hash_mac_loop 5381 s in if h \<noteq> 0 then h else 1)"

abbreviation has_key :: "u32 \<Rightarrow> RxDedupEntry \<Rightarrow> bool" where
  "has_key key e \<equiv> e_used e \<and> e_key e = key"

definition rx_dedup_lookup :: "RxDedupMulti \<Rightarrow> u32 \<Rightarrow> RxDedupEntry option" where
  "rx_dedup_lookup d key = find (has_key key) (entries d)"

text \<open>The slot \<open>rx_dedup_find\<close> returns a pointer to, as its index, and the updated table.\<close>

definition rx_dedup_find :: "RxDedupMulti \<Rightarrow> u32 \<Rightarrow> RxDedupMulti \<times> nat" where
  "rx_dedup_find d key =
     (case find_idx (has_key key) (entries d) of
        Some i \<Rightarrow> (d, i)
      | None \<Rightarrow>
          (case find_idx (\<lambda>e. \<not> e_used e) (entries d) of
             Some i \<Rightarrow> (d, i)
           | None \<Rightarrow>
               (d\<lparr>lru := (lru d + 1) mod DEDUP_SLOTS,
                  entries := (entries d)[lru d := (entries d ! lru d)\<lparr>e_used := False\<rparr>]\<rparr>,
                lru d)))"

definition rx_is_duplicate_multi :: "RxDedupMulti \<Rightarrow> u32 \<Rightarrow> u8 \<Rightarrow> bool" where
  "rx_is_duplicate_multi d key seq =
     (case rx_dedup_lookup d key of
        None \<Rightarrow> False
      | Some e \<Rightarrow> e_seq e = seq \<and> accepted d - e_at e < DEDUP_WINDOW)"

definition rx_commit_multi :: "RxDedupMulti \<Rightarrow> u32 \<Rightarrow> u8 \<Rightarrow> RxDedupMulti" where
  "rx_commit_multi d key seq =
     (case rx_dedup_find d key of
        (d', i) \<Rightarrow>
          d'\<lparr>entries := (entries d')[i := (entries d' ! i)\<lparr>e_key := key, e_seq := seq,
                                              e_at := accepted d', e_used := True\<rparr>],
             accepted := accepted d' + 1\<rparr>)"

section \<open>Invariant: the table against the history\<close>

text \<open>The filter after the commits of a history, newest first.\<close>

fun dd_run :: "(u32 \<times> u8) list \<Rightarrow> RxDedupMulti" where
  "dd_run [] = RxDedupMulti_init"
| "dd_run ((k, s) # h) = rx_commit_multi (dd_run h) k s"

text \<open>An entry is right for a history when its key's newest commit is the one it holds.\<close>

definition entry_ok :: "(u32 \<times> u8) list \<Rightarrow> RxDedupEntry \<Rightarrow> bool" where
  "entry_ok h e \<longleftrightarrow> (\<exists>i < length h. h ! i = (e_key e, e_seq e) \<and>
      (\<forall>j < i. fst (h ! j) \<noteq> e_key e) \<and> e_at e = of_nat (length h - 1 - i))"

definition dd_shape :: "RxDedupMulti \<Rightarrow> bool" where
  "dd_shape d \<longleftrightarrow> length (entries d) = DEDUP_SLOTS \<and> lru d < DEDUP_SLOTS \<and>
     (\<forall>i < DEDUP_SLOTS. \<forall>j < DEDUP_SLOTS. e_used (entries d ! i) \<longrightarrow> e_used (entries d ! j) \<longrightarrow>
        e_key (entries d ! i) = e_key (entries d ! j) \<longrightarrow> i = j)"

definition dd_inv :: "(u32 \<times> u8) list \<Rightarrow> RxDedupMulti \<Rightarrow> bool" where
  "dd_inv h d \<longleftrightarrow> dd_shape d \<and> accepted d = of_nat (length h) \<and>
     (\<forall>e \<in> set (entries d). e_used e \<longrightarrow> entry_ok h e)"

lemma entry_ok_newer: "entry_ok h e \<Longrightarrow> e_key e \<noteq> k \<Longrightarrow> entry_ok ((k, s) # h) e"
  unfolding entry_ok_def
proof (elim exE conjE)
  fix i assume *: "e_key e \<noteq> k" "i < length h" "h ! i = (e_key e, e_seq e)"
    "\<forall>j<i. fst (h ! j) \<noteq> e_key e" "e_at e = word_of_nat (length h - 1 - i)"
  show "\<exists>i<length ((k, s) # h). ((k, s) # h) ! i = (e_key e, e_seq e) \<and>
      (\<forall>j<i. fst (((k, s) # h) ! j) \<noteq> e_key e) \<and> e_at e = word_of_nat (length ((k, s) # h) - 1 - i)"
    by (rule exI [where x = "Suc i"]) (use * in \<open>auto simp: nth_Cons split: nat.splits\<close>)
qed

lemma rx_commit_multi_alt:
  "rx_commit_multi d key seq =
     (case rx_dedup_find d key of
        (d', i) \<Rightarrow>
          d'\<lparr>entries := (entries d')[i := \<lparr>e_key = key, e_at = accepted d', e_seq = seq, e_used = True\<rparr>],
             accepted := accepted d' + 1\<rparr>)"
proof -
  have "e\<lparr>e_key := key, e_seq := seq, e_at := a, e_used := True\<rparr> =
      \<lparr>e_key = key, e_at = a, e_seq = seq, e_used = True\<rparr>" for e :: RxDedupEntry and a
    by (cases e) simp
  then show ?thesis unfolding rx_commit_multi_def by (simp only:)
qed

text \<open>What a commit does to the table: it overwrites one slot \<open>i\<close>, and no used slot other
  than \<open>i\<close> holds the key.\<close>

lemma commit_cases:
  assumes "dd_shape d"
  obtains i e l where "i < DEDUP_SLOTS" "l < DEDUP_SLOTS"
    "rx_commit_multi d key seq =
       d\<lparr>entries := (entries d)[i := \<lparr>e_key = key, e_at = accepted d, e_seq = seq, e_used = True\<rparr>],
         lru := l, accepted := accepted d + 1\<rparr>"
    "\<And>j. j < DEDUP_SLOTS \<Longrightarrow> has_key key (entries d ! j) \<Longrightarrow> j = i"
    "\<And>j. j < DEDUP_SLOTS \<Longrightarrow> \<not> e_used (entries d ! j) \<Longrightarrow> has_key key (entries d ! i) \<or> \<not> e_used (entries d ! i)"
proof (cases "find_idx (has_key key) (entries d)")
  case (Some i)
  from find_idx_SomeD [OF this] assms
  have i: "i < DEDUP_SLOTS" "has_key key (entries d ! i)" by (auto simp: dd_shape_def)
  show thesis
    by (rule that [of i "lru d"])
      (use assms i Some in \<open>auto simp: rx_commit_multi_alt rx_dedup_find_def dd_shape_def\<close>)
next
  case None
  then have nk: "\<And>j. j < length (entries d) \<Longrightarrow> \<not> has_key key (entries d ! j)"
    by (auto simp: all_set_conv_all_nth find_idx_None)
  show thesis
  proof (cases "find_idx (\<lambda>e. \<not> e_used e) (entries d)")
    case (Some i)
    from find_idx_SomeD [OF this] have i: "i < length (entries d)" "\<not> e_used (entries d ! i)" by auto
    show thesis
      by (rule that [of i "lru d"])
        (use assms i Some None nk in
          \<open>auto simp: rx_commit_multi_alt rx_dedup_find_def dd_shape_def split: option.splits\<close>)
  next
    case None2: None
    then have used: "\<And>j. j < length (entries d) \<Longrightarrow> e_used (entries d ! j)"
      by (auto simp: all_set_conv_all_nth find_idx_None)
    show thesis
      by (rule that [of "lru d" "(lru d + 1) mod DEDUP_SLOTS"])
        (use assms None None2 used nk in
          \<open>auto simp: rx_commit_multi_alt rx_dedup_find_def dd_shape_def DEDUP_SLOTS_def\<close>)
  qed
qed

lemma commit_shape:
  assumes "dd_shape d"
  shows "dd_shape (rx_commit_multi d key seq)"
proof -
  from assms obtain i e l where i: "i < DEDUP_SLOTS" and l: "l < DEDUP_SLOTS"
    and eq: "rx_commit_multi d key seq =
       d\<lparr>entries := (entries d)[i := \<lparr>e_key = key, e_at = accepted d, e_seq = seq, e_used = True\<rparr>],
         lru := l, accepted := accepted d + 1\<rparr>"
    and only: "\<And>j. j < DEDUP_SLOTS \<Longrightarrow> has_key key (entries d ! j) \<Longrightarrow> j = i"
    by (rule commit_cases [of d key seq]) blast
  have len: "length (entries d) = DEDUP_SLOTS" using assms by (simp add: dd_shape_def)
  define es where "es = entries (rx_commit_multi d key seq)"
  have es: "es = (entries d)[i := \<lparr>e_key = key, e_at = accepted d, e_seq = seq, e_used = True\<rparr>]"
    by (simp add: es_def eq)
  have "a = b" if "a < DEDUP_SLOTS" "b < DEDUP_SLOTS"
      "e_used (es ! a)" "e_used (es ! b)" "e_key (es ! a) = e_key (es ! b)" for a b
  proof (rule ccontr)
    assume ne: "a \<noteq> b"
    have old: "c = i \<or> (es ! c = entries d ! c)" for c by (cases "c = i") (simp_all add: es)
    have new: "e_key (es ! i) = key" using i len by (simp add: es)
    from ne that old [of a] old [of b] new only [of a] only [of b]
    have "es ! a = entries d ! a" "es ! b = entries d ! b" by metis+
    with that ne assms show False unfolding dd_shape_def by metis
  qed
  moreover have "length es = DEDUP_SLOTS" using len by (simp add: es)
  moreover have "lru (rx_commit_multi d key seq) < DEDUP_SLOTS" using l by (simp add: eq)
  ultimately show ?thesis unfolding dd_shape_def es_def by blast
qed

lemma dd_shape_init: "dd_shape RxDedupMulti_init"
  by (simp add: dd_shape_def RxDedupMulti_init_def RxDedupEntry_init_def DEDUP_SLOTS_def)

lemma dd_inv_commit:
  assumes "dd_inv h d"
  shows "dd_inv ((k, s) # h) (rx_commit_multi d k s)"
proof -
  from assms have shape: "dd_shape d" and acc: "accepted d = of_nat (length h)"
    and ok: "\<And>e. e \<in> set (entries d) \<Longrightarrow> e_used e \<Longrightarrow> entry_ok h e" by (auto simp: dd_inv_def)
  from shape have len: "length (entries d) = DEDUP_SLOTS" by (simp add: dd_shape_def)
  from shape obtain i e l where i: "i < DEDUP_SLOTS" and eq: "rx_commit_multi d k s =
       d\<lparr>entries := (entries d)[i := \<lparr>e_key = k, e_at = accepted d, e_seq = s, e_used = True\<rparr>],
         lru := l, accepted := accepted d + 1\<rparr>"
    and only: "\<And>j. j < DEDUP_SLOTS \<Longrightarrow> has_key k (entries d ! j) \<Longrightarrow> j = i"
    by (rule commit_cases [of d k s]) blast
  have "entry_ok ((k, s) # h) (entries (rx_commit_multi d k s) ! j)"
    if j: "j < DEDUP_SLOTS" and u: "e_used (entries (rx_commit_multi d k s) ! j)" for j
  proof (cases "j = i")
    case True
    with j len show ?thesis by (auto simp: eq entry_ok_def acc intro!: exI [where x = 0])
  next
    case False
    with u j len have "e_used (entries d ! j)" by (simp add: eq)
    with only [OF j] False ok [of "entries d ! j"] j len show ?thesis
      by (auto simp: eq intro!: entry_ok_newer)
  qed
  then show ?thesis using commit_shape [OF shape, of k s] len
    by (auto simp: dd_inv_def eq acc all_set_conv_all_nth add.commute)
qed

lemma dd_inv_run: "dd_inv h (dd_run h)"
proof (induction h rule: dd_run.induct)
  case 1
  then show ?case
    using dd_shape_init by (auto simp: dd_inv_def RxDedupMulti_init_def RxDedupEntry_init_def)
qed (simp add: dd_inv_commit)

lemma map_of_take_iff:
  "map_of (take n h) k = Some s \<longleftrightarrow>
     (\<exists>i < length h. i < n \<and> h ! i = (k, s) \<and> (\<forall>j < i. fst (h ! j) \<noteq> k))"
proof (induction h arbitrary: n)
  case (Cons p h)
  show ?case
  proof (cases n)
    case (Suc m)
    show ?thesis
    proof (cases "fst p = k")
      case True
      have "i = 0" if "\<forall>j<i. fst ((p # h) ! j) \<noteq> k" for i using that True by (cases i) auto
      then have "(\<exists>i<length (p # h). i < n \<and> (p # h) ! i = (k, s) \<and> (\<forall>j<i. fst ((p # h) ! j) \<noteq> k))
          \<longleftrightarrow> p = (k, s)"
        using Suc by (metis length_greater_0_conv list.distinct(1) nth_Cons_0 less_nat_zero_code zero_less_Suc)
      then show ?thesis using True Suc by (cases p) auto
    next
      case False
      then have "(\<exists>i<length (p # h). i < n \<and> (p # h) ! i = (k, s) \<and> (\<forall>j<i. fst ((p # h) ! j) \<noteq> k))
          \<longleftrightarrow> (\<exists>i<length h. i < m \<and> h ! i = (k, s) \<and> (\<forall>j<i. fst (h ! j) \<noteq> k))"
        unfolding Suc Ex_less_Suc2 length_Cons All_less_Suc2 by (auto simp: All_less_Suc2)
      then show ?thesis using False Cons.IH [of m] Suc by (cases p) auto
    qed
  qed simp
qed simp

lemma find_has_key:
  assumes "dd_shape d" "j < DEDUP_SLOTS" "has_key k (entries d ! j)"
  shows "rx_dedup_lookup d k = Some (entries d ! j)"
proof (cases "find_idx (has_key k) (entries d)")
  case None
  with assms show ?thesis by (auto simp: find_idx_None dd_shape_def)
next
  case (Some i)
  from find_idx_SomeD [OF Some] assms have "i = j" unfolding dd_shape_def by metis
  with Some show ?thesis by (simp add: rx_dedup_lookup_def find_idx_find)
qed

lemma lookup_SomeD:
  "rx_dedup_lookup d k = Some e \<Longrightarrow> e \<in> set (entries d) \<and> has_key k e"
  by (auto simp: rx_dedup_lookup_def find_Some_iff)

text \<open>The answer of the filter, once the key's entry is found, in terms of the history.\<close>

lemma entry_age:
  assumes "entry_ok h e" "length h < 2 ^ 32"
  shows "of_nat (length h) - e_at e < DEDUP_WINDOW \<and> e_seq e = s \<longleftrightarrow>
    map_of (take 15 h) (e_key e) = Some s"
proof -
  from assms(1) obtain i where i: "i < length h" "h ! i = (e_key e, e_seq e)"
    "\<forall>j < i. fst (h ! j) \<noteq> e_key e" "e_at e = of_nat (length h - 1 - i)"
    by (auto simp: entry_ok_def)
  have "of_nat (length h) - e_at e = (of_nat (Suc i) :: u32)" using i by (simp add: of_nat_diff)
  moreover have "(of_nat (Suc i) :: u32) < DEDUP_WINDOW \<longleftrightarrow> i < 15"
    using i assms(2) by (simp add: DEDUP_WINDOW_def word_less_nat_alt unat_of_nat del: of_nat_Suc)
  moreover have "map_of (take 15 h) (e_key e) = Some s \<longleftrightarrow> i < 15 \<and> e_seq e = s"
  proof
    assume "map_of (take 15 h) (e_key e) = Some s"
    then obtain i' where i': "i' < length h" "i' < 15" "h ! i' = (e_key e, s)"
      "\<forall>j < i'. fst (h ! j) \<noteq> e_key e" by (auto simp: map_of_take_iff)
    have "i' = i" using i(2,3) i'(3,4) by (metis fst_conv linorder_neqE_nat)
    with i(2) i' show "i < 15 \<and> e_seq e = s" by simp
  next
    assume "i < 15 \<and> e_seq e = s"
    with i show "map_of (take 15 h) (e_key e) = Some s" by (auto simp: map_of_take_iff)
  qed
  ultimately show ?thesis by auto
qed

lemma is_duplicate_lookup:
  assumes "length h < 2 ^ 32" "rx_dedup_lookup (dd_run h) k = Some e"
  shows "rx_is_duplicate_multi (dd_run h) k s \<longleftrightarrow> map_of (take 15 h) k = Some s"
proof -
  from lookup_SomeD [OF assms(2)] dd_inv_run [of h]
  have "entry_ok h e" "e_key e = k" "accepted (dd_run h) = of_nat (length h)" by (auto simp: dd_inv_def)
  with entry_age [OF this(1) assms(1), of s] assms(2) show ?thesis
    by (auto simp: rx_is_duplicate_multi_def)
qed

section \<open>Soundness and exactness\<close>

text \<open>
  The multi-source filter never drops a new packet as a duplicate: whatever
  the history of accepted packets and however many sources there are, a packet is
  reported as a duplicate only if the newest packet accepted from its source has the same
  sequence number and lies among the last 15 accepted packets.\<close>

lemma dedup_sound:
  assumes "length h < 2 ^ 32" and "rx_is_duplicate_multi (dd_run h) k s"
  shows "map_of h k = Some s \<and> map_of (take 15 h) k = Some s"
proof -
  from assms(2) obtain e where "rx_dedup_lookup (dd_run h) k = Some e"
    by (auto simp: rx_is_duplicate_multi_def split: option.splits)
  from is_duplicate_lookup [OF assms(1) this, of s] assms(2)
  have *: "map_of (take 15 h) k = Some s" by simp
  have "map_of (take 15 h @ drop 15 h) k = Some s" unfolding map_of_append using * by simp
  with * show ?thesis by simp
qed

lemma RxDedupMulti_init_eq:
  "RxDedupMulti_init = \<lparr>entries = [RxDedupEntry_init, RxDedupEntry_init, RxDedupEntry_init, RxDedupEntry_init],
     lru = 0, accepted = 0\<rparr>"
  by (simp add: RxDedupMulti_init_def DEDUP_SLOTS_def eval_nat_numeral)

lemma commit_fresh_slot:
  "find_idx (has_key key) (entries d) = None \<Longrightarrow> find_idx (\<lambda>e. \<not> e_used e) (entries d) = Some i \<Longrightarrow>
   rx_commit_multi d key seq =
     d\<lparr>entries := (entries d)[i := \<lparr>e_key = key, e_at = accepted d, e_seq = seq, e_used = True\<rparr>],
       accepted := accepted d + 1\<rparr>"
  by (simp add: rx_commit_multi_alt rx_dedup_find_def)

lemmas dedup_eval = rx_is_duplicate_multi_def rx_dedup_lookup_def RxDedupMulti_init_eq RxDedupEntry_init_def
  DEDUP_WINDOW_def rx_commit_multi_alt rx_dedup_find_def

lemma dedup_dup_eval: "rx_is_duplicate_multi (dd_run [(9, 2), (7, 5)]) 7 5"
  by (simp add: dedup_eval)

lemma keys_tracked:
  assumes "card (fst ` set h) \<le> 4"
  shows "k \<in> fst ` set h \<Longrightarrow> \<exists>j < DEDUP_SLOTS. has_key k (entries (dd_run h) ! j)"
  using assms
proof (induction h arbitrary: k)
  case (Cons p h)
  obtain key s where p: "p = (key, s)" by (cases p)
  let ?d = "dd_run h"
  have fin: "finite (fst ` set h)" by simp
  have "card (fst ` set h) \<le> card (fst ` set (p # h))" by (rule card_mono) auto
  with Cons.prems have IH: "\<And>k. k \<in> fst ` set h \<Longrightarrow> \<exists>j < DEDUP_SLOTS. has_key k (entries ?d ! j)"
    using Cons.IH by simp
  from dd_inv_run [of h] have shape: "dd_shape ?d"
    and ok: "\<And>e. e \<in> set (entries ?d) \<Longrightarrow> e_used e \<Longrightarrow> entry_ok h e" by (auto simp: dd_inv_def)
  then have len: "length (entries ?d) = DEDUP_SLOTS" by (simp add: dd_shape_def)
  from shape obtain i e l where i: "i < DEDUP_SLOTS"
    and eq: "rx_commit_multi ?d key s =
       ?d\<lparr>entries := (entries ?d)[i := \<lparr>e_key = key, e_at = accepted ?d, e_seq = s, e_used = True\<rparr>],
         lru := l, accepted := accepted ?d + 1\<rparr>"
    and only: "\<And>j. j < DEDUP_SLOTS \<Longrightarrow> has_key key (entries ?d ! j) \<Longrightarrow> j = i"
    and evict: "\<And>j. j < DEDUP_SLOTS \<Longrightarrow> \<not> e_used (entries ?d ! j) \<Longrightarrow>
      has_key key (entries ?d ! i) \<or> \<not> e_used (entries ?d ! i)"
    by (rule commit_cases [of ?d key s]) blast
  show ?case
  proof (cases "k = key")
    case True
    with i len show ?thesis by (auto simp: p eq)
  next
    case False
    with Cons.prems have "k \<in> fst ` set h" by (auto simp: p)
    with IH obtain j where j: "j < DEDUP_SLOTS" "has_key k (entries ?d ! j)" by blast
    have "j \<noteq> i"
    proof
      assume ji: "j = i"
      with j False evict have used: "\<And>c. c < DEDUP_SLOTS \<Longrightarrow> e_used (entries ?d ! c)" by metis
      have inj: "inj_on (\<lambda>c. e_key (entries ?d ! c)) {..<DEDUP_SLOTS}"
        using shape used by (intro inj_onI) (auto simp: dd_shape_def)
      have sub: "(\<lambda>c. e_key (entries ?d ! c)) ` {..<DEDUP_SLOTS} \<subseteq> fst ` set h"
      proof (rule image_subsetI)
        fix c assume "c \<in> {..<DEDUP_SLOTS}"
        then have "entry_ok h (entries ?d ! c)" using ok used len by simp
        then obtain n where "n < length h" "h ! n = (e_key (entries ?d ! c), e_seq (entries ?d ! c))"
          by (auto simp: entry_ok_def)
        then show "e_key (entries ?d ! c) \<in> fst ` set h" by (metis fst_conv image_eqI nth_mem)
      qed
      have "4 \<le> card (fst ` set h)"
        using card_mono [OF fin sub] card_image [OF inj] by (simp add: DEDUP_SLOTS_def)
      moreover have "key \<notin> fst ` set h" using IH [of key] only j ji False by metis
      ultimately show False using Cons.prems(2) by (simp add: p)
    qed
    with j len show ?thesis by (auto simp: p eq intro!: exI [where x = j])
  qed
qed simp

text \<open>
  C6 (dedup_exact). With at most \<open>DEDUP_SLOTS\<close> sources the filter is exact: it reports a packet as
  a duplicate if and only if the newest packet accepted from its source has the same
  sequence number and lies among the last 15 accepted ones. So a retry of an accepted packet
  is always recognised while fewer than 15 other packets were accepted, and a packet whose
  sequence counter has wrapped (256 packets later) never is.\<close>

theorem dedup_exact:
  assumes "length h < 2 ^ 32" and "card (fst ` set h) \<le> 4"
  shows "rx_is_duplicate_multi (dd_run h) k s \<longleftrightarrow> map_of (take 15 h) k = Some s"
proof (cases "rx_dedup_lookup (dd_run h) k")
  case (Some e)
  then show ?thesis by (rule is_duplicate_lookup [OF assms(1)])
next
  case None
  have "k \<notin> fst ` set h"
  proof
    assume "k \<in> fst ` set h"
    with keys_tracked [OF assms(2)] obtain j where "j < DEDUP_SLOTS" "has_key k (entries (dd_run h) ! j)"
      by blast
    with find_has_key dd_inv_run [of h] None show False by (auto simp: dd_inv_def)
  qed
  then have "k \<notin> fst ` set (take 15 h)" using set_take_subset [of 15 h] by auto
  then have "map_of (take 15 h) k = None" by (simp add: map_of_eq_None_iff)
  with None show ?thesis by (simp add: rx_is_duplicate_multi_def)
qed

theorem dedup_exact_witness:
  "rx_is_duplicate_multi (dd_run [(9, 2), (7, 5)]) 7 5 \<and> \<not> rx_is_duplicate_multi (dd_run [(9, 2), (7, 5)]) 9 1"
  using dedup_exact [of "[(9, 2), (7, 5)]"] by simp

text \<open>
  When a fifth source appears the filter forgets sources in the order
  their slots were filled, not the least recently used one as its comment says: after
  packets from \<open>a, b, c, d\<close>, another one from \<open>a\<close> and one from \<open>e\<close>, a retry of the second newest
  packet (the one from \<open>a\<close>) is no longer recognised, while \<open>b\<close>, idle since the start, is
  still remembered.\<close>

lemma dedup_eviction_round_robin:
  assumes "distinct [a, b, c, d, e]"
  shows "\<not> rx_is_duplicate_multi (dd_run [(e, s6), (a, s5), (d, s4), (c, s3), (b, s2), (a, s1)]) a s \<and>
    rx_is_duplicate_multi (dd_run [(e, s6), (a, s5), (d, s4), (c, s3), (b, s2), (a, s1)]) b s2"
proof -
  from assms have ne: "a \<noteq> b" "a \<noteq> c" "a \<noteq> d" "a \<noteq> e" "b \<noteq> c" "b \<noteq> d" "b \<noteq> e"
    "c \<noteq> d" "c \<noteq> e" "d \<noteq> e" by auto
  show ?thesis by (simp add: dedup_eval ne ne [symmetric])
qed

section \<open>The filter as the receive path uses it\<close>

text \<open>
  What the receiver does with one copy of an acknowledged packet: a duplicate is acknowledged
  again and not delivered; a new packet is delivered and remembered if the queue takes it
  (\<open>queued\<close>), otherwise the sender is told to retry.  The result is the new filter, whether
  the packet was delivered, and the acknowledgement.
\<close>

definition rx_copy ::
    "('d \<Rightarrow> 'k \<Rightarrow> u8 \<Rightarrow> bool) \<Rightarrow> ('d \<Rightarrow> 'k \<Rightarrow> u8 \<Rightarrow> 'd) \<Rightarrow> 'd \<Rightarrow> 'k \<Rightarrow> u8 \<Rightarrow> bool \<Rightarrow> 'd \<times> bool \<times> u8" where
  "rx_copy dup commit d k s queued =
     (if dup d k s then (d, False, ACK_OK)
      else if queued then (commit d k s, True, ACK_OK)
      else (d, False, ACK_RETRY))"

fun rx_copies ::
    "('d \<Rightarrow> 'k \<Rightarrow> u8 \<Rightarrow> bool) \<Rightarrow> ('d \<Rightarrow> 'k \<Rightarrow> u8 \<Rightarrow> 'd) \<Rightarrow> 'd \<Rightarrow> 'k \<Rightarrow> u8 \<Rightarrow> bool list \<Rightarrow> (bool \<times> u8) list" where
  "rx_copies dup commit d k s [] = []"
| "rx_copies dup commit d k s (q # qs) =
     (case rx_copy dup commit d k s q of
        (d', r) \<Rightarrow> r # rx_copies dup commit d' k s qs)"

locale duplicate_filter =
  fixes dup :: "'d \<Rightarrow> 'k \<Rightarrow> u8 \<Rightarrow> bool"
    and commit :: "'d \<Rightarrow> 'k \<Rightarrow> u8 \<Rightarrow> 'd"
    and invar :: "'d \<Rightarrow> bool"
  assumes invar_commit: "invar d \<Longrightarrow> invar (commit d k s)"
    and dup_commit: "invar d \<Longrightarrow> dup (commit d k s) k s"
begin

lemma copies_of_duplicate:
  "dup d k s \<Longrightarrow> rx_copies dup commit d k s qs = map (\<lambda>q. (False, ACK_OK)) qs"
  by (induction qs) (simp_all add: rx_copy_def)

text \<open>The copies of a new packet: every copy before the first one the queue takes is refused,
  that one is delivered, all later ones are acknowledged only.\<close>

lemma copies_of_new:
  assumes "invar d" "\<not> dup d k s"
  shows "rx_copies dup commit d k s qs =
    map (\<lambda>q. (False, ACK_RETRY)) (takeWhile Not qs) @
    (case dropWhile Not qs of [] \<Rightarrow> [] | q # rest \<Rightarrow> (True, ACK_OK) # map (\<lambda>q. (False, ACK_OK)) rest)"
  using assms by (induction qs) (simp_all add: rx_copy_def copies_of_duplicate dup_commit)

lemma delivered_at_most_once:
  assumes "invar d"
  shows "length (filter fst (rx_copies dup commit d k s qs)) \<le> 1"
proof (cases "dup d k s")
  case True
  then show ?thesis by (simp add: copies_of_duplicate filter_map comp_def)
next
  case False
  then show ?thesis
    by (simp add: copies_of_new [OF assms] filter_map comp_def split: list.splits)
qed

end

lemma multi_dup_after_commit:
  assumes "dd_shape d"
  shows "rx_is_duplicate_multi (rx_commit_multi d k s) k s"
proof -
  have len: "length (entries d) = DEDUP_SLOTS" using assms by (simp add: dd_shape_def)
  from assms obtain i e l where i: "i < DEDUP_SLOTS" and eq: "rx_commit_multi d k s =
       d\<lparr>entries := (entries d)[i := \<lparr>e_key = k, e_at = accepted d, e_seq = s, e_used = True\<rparr>],
         lru := l, accepted := accepted d + 1\<rparr>"
    by (rule commit_cases [of d k s]) blast
  then have "has_key k (entries (rx_commit_multi d k s) ! i)" using len by simp
  from find_has_key [OF commit_shape [OF assms] i this] i len show ?thesis
    by (simp add: rx_is_duplicate_multi_def eq DEDUP_WINDOW_def)
qed

interpretation multi_filter: duplicate_filter rx_is_duplicate_multi rx_commit_multi dd_shape
  by unfold_locales (simp_all add: commit_shape multi_dup_after_commit)

interpretation single_filter:
  duplicate_filter "\<lambda>d (k :: unit). rx_is_duplicate d" "\<lambda>d k. rx_commit d" "\<lambda>d. True"
  by unfold_locales (simp_all add: rx_is_duplicate_def rx_commit_def)

end
