(* ===== verification/Net_Packet.thy ===== *)
theory Net_Packet
  imports Lora_Frame
begin

text \<open>
  The LoRa network packet (\<open>src/src/lora/lora_proto.h\<close>, lines 383-462): node ids and their
  IPv4 addresses 10.73.X.Y, the minimal IPv4 check, the T_NET payload
  \<open>[dst][src] + IPv4 packet\<close>, and the "send to node" control frame of the USB link.
  An array of fixed size is a list of that length; \<open>net_parse\<close> and \<open>net_parse_send_to\<close>, which
  fill their result and return a bool, return an option.
\<close>

definition NET_PREFIX_A :: u8 where "NET_PREFIX_A = 10"
definition NET_PREFIX_B :: u8 where "NET_PREFIX_B = 73"
definition NET_HDR :: nat where "NET_HDR = 4"
definition NET_MAX_IP :: nat where "NET_MAX_IP = MAX_PAYLOAD - NET_HDR"
definition NET_BROADCAST :: u16 where "NET_BROADCAST = 0xFFFF"

definition NET_CTL_KEEPALIVE :: u8 where "NET_CTL_KEEPALIVE = 0x01"
definition NET_CTL_LEAVE :: u8 where "NET_CTL_LEAVE = 0x02"
definition NET_CTL_SEND_TO :: u8 where "NET_CTL_SEND_TO = 0x03"
definition NET_CTL_ALIVE_ACK :: u8 where "NET_CTL_ALIVE_ACK = 0x81"
definition NET_CTL_BUSY :: u8 where "NET_CTL_BUSY = 0x82"
definition NET_BUSY_DEPTH :: nat where "NET_BUSY_DEPTH = 6"

definition net_fix_octet :: "u8 \<Rightarrow> u8" where
  "net_fix_octet b = (if b = 0 then 1 else if b = 255 then 254 else b)"

definition net_node_id :: "bytes \<Rightarrow> u16" where
  "net_node_id mac = join8 (net_fix_octet (mac ! 4)) (net_fix_octet (mac ! 5))"

definition net_ip_to_node :: "bytes \<Rightarrow> u16" where
  "net_ip_to_node ip =
     (if ip ! 0 = 255 \<and> ip ! 1 = 255 \<and> ip ! 2 = 255 \<and> ip ! 3 = 255 then NET_BROADCAST
      else if ip ! 0 \<noteq> NET_PREFIX_A \<or> ip ! 1 \<noteq> NET_PREFIX_B then 0
      else if ip ! 2 = 255 \<and> ip ! 3 = 255 then NET_BROADCAST
      else if ip ! 2 = 0 \<or> ip ! 2 = 255 \<or> ip ! 3 = 0 \<or> ip ! 3 = 255 then 0
      else join8 (ip ! 2) (ip ! 3))"

definition net_ipv4_ok :: "bytes option \<Rightarrow> nat \<Rightarrow> bool" where
  "net_ipv4_ok p len =
     (case p of
        None \<Rightarrow> False
      | Some ip \<Rightarrow>
          if len < 20 \<or> drop_bit 4 (ip ! 0) \<noteq> 4 then False
          else let ihl = unat (ip ! 0 AND 0x0F) * 4;
                   total = unat (join8 (ip ! 2) (ip ! 3))
               in ihl \<ge> 20 \<and> ihl \<le> total \<and> total = len)"

definition net_build :: "u16 \<Rightarrow> u16 \<Rightarrow> bytes option \<Rightarrow> nat \<Rightarrow> nat \<Rightarrow> bytes option" where
  "net_build dst src ip len cap =
     (if len = 0 \<or> len > NET_MAX_IP \<or> cap < NET_HDR + len \<or> ip = None then None
      else Some ([hi8 dst, lo8 dst, hi8 src, lo8 src] @ rd ip len))"

record NetFrame =
  nf_dst :: u16
  nf_src :: u16
  nf_ip :: bytes
  nf_len :: nat

definition net_parse :: "bytes option \<Rightarrow> nat \<Rightarrow> NetFrame option" where
  "net_parse p n =
     (case p of
        None \<Rightarrow> None
      | Some payload \<Rightarrow>
          if n \<le> NET_HDR then None
          else
            let f = \<lparr>nf_dst = join8 (payload ! 0) (payload ! 1), nf_src = join8 (payload ! 2) (payload ! 3),
                     nf_ip = drop NET_HDR payload, nf_len = n - NET_HDR\<rparr>
            in if nf_src f \<noteq> 0 \<and> nf_src f \<noteq> NET_BROADCAST \<and> nf_dst f \<noteq> 0 \<and>
                  net_ipv4_ok (Some (nf_ip f)) (nf_len f)
               then Some f else None)"

definition net_dedup_key :: "u16 \<Rightarrow> u32" where
  "net_dedup_key src = 0x4E450000 OR ucast src"

definition net_parse_send_to :: "bytes option \<Rightarrow> nat \<Rightarrow> (u16 \<times> bytes \<times> nat) option" where
  "net_parse_send_to p n =
     (case p of
        None \<Rightarrow> None
      | Some f \<Rightarrow>
          if n < 4 \<or> f ! 0 \<noteq> 0x00 \<or> f ! 1 \<noteq> NET_CTL_SEND_TO then None
          else
            let node = join8 (f ! 2) (f ! 3); ip = drop 4 f; len = n - 4
            in if node = 0 \<or> node = NET_BROADCAST then None
               else if net_ipv4_ok (Some ip) len then Some (node, ip, len) else None)"

lemmas net_const_defs [codec_simps] =
  NET_PREFIX_A_def NET_PREFIX_B_def NET_HDR_def NET_MAX_IP_def NET_BROADCAST_def MAX_PAYLOAD_def

section \<open>Node ids\<close>

lemma net_fix_octet_range: "net_fix_octet b \<noteq> 0 \<and> net_fix_octet b \<noteq> 255"
  by (simp add: net_fix_octet_def)

lemma join8_broadcast: "join8 h l = NET_BROADCAST \<longleftrightarrow> h = 255 \<and> l = 255"
proof -
  have "NET_BROADCAST = join8 255 255" by (simp add: NET_BROADCAST_def join8_def)
  then show ?thesis by (metis join8_inject)
qed

lemma join8_zero: "join8 h l = 0 \<longleftrightarrow> h = 0 \<and> l = 0"
proof -
  have "(0 :: u16) = join8 0 0" by (simp add: join8_def)
  then show ?thesis by (metis join8_inject)
qed

lemma net_node_id_valid: "net_node_id mac \<noteq> 0 \<and> net_node_id mac \<noteq> NET_BROADCAST"
  using net_fix_octet_range [of "mac ! 4"] by (simp add: net_node_id_def join8_zero join8_broadcast)

text \<open>
  A board's node id and its IPv4 address name each other: the address
  10.73.X.Y made of a board's node id is mapped back to that id by the routing lookup, the id
  is never 0 or the broadcast id, and the lookup returns a unicast id for no other address.\<close>

lemma node_address_inverse:
  "net_ip_to_node [10, 73, hi8 (net_node_id mac), lo8 (net_node_id mac)] = net_node_id mac \<and>
   net_node_id mac \<noteq> 0 \<and> net_node_id mac \<noteq> NET_BROADCAST \<and>
   (net_ip_to_node [a, b, c, d] = net_node_id mac \<longrightarrow>
      [a, b, c, d] = [10, 73, hi8 (net_node_id mac), lo8 (net_node_id mac)])"
proof -
  have o: "net_fix_octet (mac ! 4) \<noteq> 0" "net_fix_octet (mac ! 4) \<noteq> 255"
    "net_fix_octet (mac ! 5) \<noteq> 0" "net_fix_octet (mac ! 5) \<noteq> 255" using net_fix_octet_range by auto
  have v: "net_node_id mac \<noteq> 0" "net_node_id mac \<noteq> NET_BROADCAST" using net_node_id_valid by auto
  have "net_ip_to_node [10, 73, hi8 (net_node_id mac), lo8 (net_node_id mac)] = net_node_id mac"
    using o by (simp add: net_ip_to_node_def net_node_id_def NET_PREFIX_A_def NET_PREFIX_B_def)
  moreover have "[a, b, c, d] = [10, 73, hi8 (net_node_id mac), lo8 (net_node_id mac)]"
    if "net_ip_to_node [a, b, c, d] = net_node_id mac"
    using that v by (auto simp: net_ip_to_node_def NET_PREFIX_A_def NET_PREFIX_B_def join8_eq_iff split: if_splits)
  ultimately show ?thesis using v by blast
qed

text \<open>
  The deduplication key of a network node determines the node: packets from
  different nodes are never taken for copies of each other, and the key is never 0.\<close>

lemma net_dedup_key_inject:
  "(net_dedup_key a = net_dedup_key b \<longleftrightarrow> a = b) \<and> net_dedup_key a \<noteq> 0"
proof -
  have low: "ucast (net_dedup_key c) = c" for c
  proof (rule bit_word_eqI)
    fix n assume "n < LENGTH(16)"
    moreover have "(0x4E450000 :: u32) = push_bit 16 0x4E45" by simp
    ultimately show "bit (ucast (net_dedup_key c) :: u16) n = bit c n"
      unfolding net_dedup_key_def by (auto simp only: bit_simps possible_bit_word len_num1 len_bit0 len_num0)
  qed
  have "bit (net_dedup_key a) 16" by (simp add: net_dedup_key_def bit_simps)
  then have "net_dedup_key a \<noteq> 0" by auto
  with low show ?thesis by metis
qed

section \<open>Building and parsing\<close>

lemma net_ipv4_ok_cong:
  "length xs \<ge> 20 \<Longrightarrow> take 4 xs = take 4 ys \<Longrightarrow> length ys \<ge> 20 \<Longrightarrow>
   net_ipv4_ok (Some xs) n = net_ipv4_ok (Some ys) n"
proof -
  assume "take 4 xs = take 4 ys"
  then have "xs ! i = ys ! i" if "i < 4" for i using that by (metis nth_take)
  then show ?thesis by (simp add: net_ipv4_ok_def)
qed

lemma net_ipv4_okD: "net_ipv4_ok (Some ip) len \<Longrightarrow> 20 \<le> len"
  by (auto simp: net_ipv4_ok_def split: if_splits)

text \<open>
  Every network payload a board builds for a valid IPv4 packet of at most 247
  bytes is parsed by the receiving board into the same destination, source and packet.\<close>

lemma net_parse_build:
  assumes "net_ipv4_ok (Some ip) len" and "len \<le> length ip" and "len \<le> 247" and "4 + len \<le> cap"
    and "dst \<noteq> 0" and "src \<noteq> 0" and "src \<noteq> NET_BROADCAST"
  shows "\<exists>p. net_build dst src (Some ip) len cap = Some p \<and> length p = 4 + len \<and>
    net_parse (Some p) (4 + len) = Some \<lparr>nf_dst = dst, nf_src = src, nf_ip = take len ip, nf_len = len\<rparr>"
proof -
  have "20 \<le> len" using assms(1) by (rule net_ipv4_okD)
  moreover from this have "net_ipv4_ok (Some (take len ip)) len"
    using assms(1,2) net_ipv4_ok_cong [of "take len ip" ip len] by (simp add: min_def)
  ultimately show ?thesis using assms
    by (simp add: net_build_def net_parse_def codec_simps Let_def)
qed

definition sample_ip :: bytes where
  "sample_ip = [0x45, 0, 0, 20, 0, 1, 0, 0, 64, 1, 0, 0, 10, 73, 1, 2, 10, 73, 3, 4]"

lemma sample_ip_ok: "net_ipv4_ok (Some sample_ip) 20"
  by (simp add: net_ipv4_ok_def sample_ip_def join8_def)

text \<open>
  The receiving board accepts nothing else: every payload \<open>net_parse\<close> accepts is
  the one \<open>net_build\<close> builds from the destination, source and packet it reports; the source is
  a unicast id, the destination is not 0, and the packet is an IPv4 packet whose own length
  field is the payload's.\<close>

lemma net_parse_sound:
  assumes "net_parse (Some p) n = Some f" and "n \<le> length p" and "n \<le> 251"
  shows "net_build (nf_dst f) (nf_src f) (Some (nf_ip f)) (nf_len f) 251 = Some (take n p) \<and>
    nf_src f \<noteq> 0 \<and> nf_src f \<noteq> NET_BROADCAST \<and> nf_dst f \<noteq> 0 \<and>
    net_ipv4_ok (Some (nf_ip f)) (nf_len f) \<and> n = 4 + nf_len f"
proof -
  from assms(1) have n: "4 < n" by (auto simp: net_parse_def codec_simps split: if_splits)
  with assms(2) obtain a b c d ps where p: "p = a # b # c # d # ps"
    using length_4_conv [of p] by auto
  from assms(1) n show ?thesis
    using assms(3) by (cases n) (auto simp: net_parse_def net_build_def p codec_simps Let_def
        take_Cons' eval_nat_numeral split: if_splits)
qed

lemma send_to_sound:
  "net_parse_send_to (Some f) n = Some (node, ip, len) \<Longrightarrow>
     node \<noteq> 0 \<and> node \<noteq> NET_BROADCAST \<and> ip = drop 4 f \<and> n = 4 + len \<and> net_ipv4_ok (Some ip) len"
  by (auto simp: net_parse_send_to_def Let_def split: if_splits)

lemma send_to_build:
  assumes "net_ipv4_ok (Some ip) len" "node \<noteq> 0" "node \<noteq> NET_BROADCAST"
  shows "net_parse_send_to (Some ([0, NET_CTL_SEND_TO, hi8 node, lo8 node] @ ip)) (4 + len) =
    Some (node, ip, len)"
  using assms by (simp add: net_parse_send_to_def Let_def)

end
