(* ===== verification/Byte_Stream.thy ===== *)
theory Byte_Stream
  imports Voy_Prelude
begin

text \<open>
  Messages on a byte stream.  The program reads its USB link one byte at a time, through a
  decoder whose \<open>feed\<close> takes a byte and sometimes delivers a message: SLIP frames in network
  mode, Improv packets otherwise.  \<open>run_feed\<close> feeds a string of bytes; the locale
  \<open>stream_codec\<close> states what such a decoder and its encoder owe each other, and its lemmas
  are what a reader of the stream may rely on.
\<close>

fun run_feed :: "('s \<Rightarrow> u8 \<Rightarrow> 's \<times> 'm option) \<Rightarrow> 's \<Rightarrow> bytes \<Rightarrow> 's \<times> 'm list" where
  "run_feed feed s [] = (s, [])"
| "run_feed feed s (b # bs) =
     (case feed s b of
        (s', r) \<Rightarrow>
          (case run_feed feed s' bs of
             (s'', ms) \<Rightarrow> (s'', (case r of None \<Rightarrow> ms | Some m \<Rightarrow> m # ms))))"

lemma run_feed_append:
  "run_feed feed s (xs @ ys) =
     (case run_feed feed s xs of
        (s', ms) \<Rightarrow> (case run_feed feed s' ys of (s'', ns) \<Rightarrow> (s'', ms @ ns)))"
  by (induction xs arbitrary: s) (auto split: prod.splits option.splits)

lemma run_feed_silent:
  assumes "\<And>s. I s \<Longrightarrow> I (fst (feed s b)) \<and> snd (feed s b) = None" and "I s"
  shows "\<exists>s'. I s' \<and> run_feed feed s (replicate n b) = (s', [])"
  using assms(2)
proof (induction n arbitrary: s)
  case (Suc n)
  from assms(1) [OF Suc.prems] Suc.IH show ?case by (cases "feed s b") force
qed simp

text \<open>
  \<open>ready\<close> describes the decoder states between messages.  The law: a ready decoder fed the
  encoding of a valid message delivers exactly that message and is ready again.
\<close>

locale stream_codec =
  fixes feed :: "'s \<Rightarrow> u8 \<Rightarrow> 's \<times> 'm option"
    and enc :: "'m \<Rightarrow> bytes"
    and ready :: "'s \<Rightarrow> bool"
    and valid :: "'m \<Rightarrow> bool"
  assumes one_message: "ready s \<Longrightarrow> valid m \<Longrightarrow> \<exists>s'. ready s' \<and> run_feed feed s (enc m) = (s', [m])"
begin

lemma messages:
  assumes "ready s" "\<forall>m \<in> set ms. valid m"
  shows "\<exists>s'. ready s' \<and> run_feed feed s (concat (map enc ms)) = (s', ms)"
  using assms
proof (induction ms arbitrary: s)
  case (Cons m ms)
  from Cons.prems one_message [of s m] obtain s1
    where s1: "ready s1" "run_feed feed s (enc m) = (s1, [m])" by auto
  with Cons.IH [of s1] Cons.prems(2) obtain s2
    where "ready s2" "run_feed feed s1 (concat (map enc ms)) = (s2, ms)" by auto
  with s1 show ?case by (auto simp: run_feed_append)
qed simp

text \<open>A code whose decoder inverts it cannot send two valid messages the same way.\<close>

lemma enc_inject:
  assumes "ready s" "valid m" "valid n" "enc m = enc n"
  shows "m = n"
proof -
  from one_message [OF assms(1,2)] obtain s1 where "run_feed feed s (enc m) = (s1, [m])" by blast
  moreover from one_message [OF assms(1,3)] obtain s2 where "run_feed feed s (enc n) = (s2, [n])" by blast
  ultimately show ?thesis using assms(4) by (metis list.inject prod.inject)
qed

end

end
