(* ===== verification/Slip.thy ===== *)
theory Slip
  imports Byte_Stream
begin

text \<open>
  SLIP framing of the USB link in network mode (\<open>src/src/lora/lora_proto.h\<close>, lines 464-521).
  The decoder's template parameter \<open>CAP\<close> is an argument; its buffer is a list of length
  \<open>CAP\<close>, written with a list update at index \<open>len_\<close> exactly where the code writes.
\<close>

definition SLIP_END :: u8 where "SLIP_END = 0xC0"
definition SLIP_ESC :: u8 where "SLIP_ESC = 0xDB"
definition SLIP_ESC_END :: u8 where "SLIP_ESC_END = 0xDC"
definition SLIP_ESC_ESC :: u8 where "SLIP_ESC_ESC = 0xDD"

lemmas slip_const_defs [codec_simps] = SLIP_END_def SLIP_ESC_def SLIP_ESC_END_def SLIP_ESC_ESC_def

section \<open>Encoder\<close>

fun slip_encode_loop :: "bytes \<Rightarrow> bytes \<Rightarrow> nat \<Rightarrow> bytes option" where
  "slip_encode_loop [] out cap = Some (out @ [SLIP_END])"
| "slip_encode_loop (b # bs) out cap =
     (let esc = (b = SLIP_END \<or> b = SLIP_ESC)
      in if length out + (if esc then 2 else 1) > cap - 1 then None
         else slip_encode_loop bs
                (out @ (if esc then [SLIP_ESC, if b = SLIP_END then SLIP_ESC_END else SLIP_ESC_ESC] else [b])) cap)"

definition slip_encode :: "bytes \<Rightarrow> nat \<Rightarrow> nat \<Rightarrow> bytes option" where
  "slip_encode inp len cap = (if cap < 2 then None else slip_encode_loop (take len inp) [SLIP_END] cap)"

section \<open>Decoder\<close>

record SlipDecoder =
  sl_buf :: bytes
  sl_len :: nat
  sl_esc :: bool
  sl_bad :: bool

definition slip_feed :: "nat \<Rightarrow> SlipDecoder \<Rightarrow> u8 \<Rightarrow> SlipDecoder \<times> nat" where
  "slip_feed CAP d b =
     (if b = SLIP_END then
        (d\<lparr>sl_len := 0, sl_esc := False, sl_bad := False\<rparr>, if sl_bad d \<or> sl_esc d then 0 else sl_len d)
      else if sl_bad d then (d, 0)
      else if sl_esc d \<and> b \<noteq> SLIP_ESC_END \<and> b \<noteq> SLIP_ESC_ESC then (d\<lparr>sl_esc := False, sl_bad := True\<rparr>, 0)
      else if \<not> sl_esc d \<and> b = SLIP_ESC then (d\<lparr>sl_esc := True\<rparr>, 0)
      else
        let c = (if sl_esc d then (if b = SLIP_ESC_END then SLIP_END else SLIP_ESC) else b);
            d = d\<lparr>sl_esc := False\<rparr>
        in if sl_len d \<ge> CAP then (d\<lparr>sl_bad := True\<rparr>, 0)
           else (d\<lparr>sl_buf := (sl_buf d)[sl_len d := c], sl_len := sl_len d + 1\<rparr>, 0))"

definition slip_reset :: "SlipDecoder \<Rightarrow> SlipDecoder" where
  "slip_reset d = d\<lparr>sl_len := 0, sl_esc := False, sl_bad := False\<rparr>"

text \<open>The callers read the frame out of the buffer as soon as \<open>feed\<close> returns its length.\<close>

definition slip_step :: "nat \<Rightarrow> SlipDecoder \<Rightarrow> u8 \<Rightarrow> SlipDecoder \<times> bytes option" where
  "slip_step CAP d b =
     (case slip_feed CAP d b of (d', n) \<Rightarrow> (d', if n > 0 then Some (take n (sl_buf d')) else None))"

section \<open>The encoding as a function on bytes\<close>

definition slip_byte :: "u8 \<Rightarrow> bytes" where
  "slip_byte b = (if b = SLIP_END then [SLIP_ESC, SLIP_ESC_END]
                  else if b = SLIP_ESC then [SLIP_ESC, SLIP_ESC_ESC] else [b])"

definition slip_body :: "bytes \<Rightarrow> bytes" where
  "slip_body bs = concat (map slip_byte bs)"

definition slip_frame :: "bytes \<Rightarrow> bytes" where
  "slip_frame bs = SLIP_END # slip_body bs @ [SLIP_END]"

lemma slip_body_simps [simp]:
  "slip_body [] = []" "slip_body (b # bs) = slip_byte b @ slip_body bs"
  by (simp_all add: slip_body_def)

lemma slip_body_no_END: "SLIP_END \<notin> set (slip_body bs)"
  by (induction bs) (auto simp: slip_byte_def slip_const_defs)

lemma slip_body_length: "length bs \<le> length (slip_body bs) \<and> length (slip_body bs) \<le> 2 * length bs"
  by (induction bs) (auto simp: slip_byte_def)

lemma slip_encode_loop_eq:
  "Suc (length out) \<le> cap \<Longrightarrow>
   slip_encode_loop bs out cap =
     (if length out + length (slip_body bs) + 1 \<le> cap then Some (out @ slip_body bs @ [SLIP_END]) else None)"
proof (induction bs arbitrary: out)
  case (Cons b bs)
  let ?w = "slip_byte b"
  have w: "(if b = SLIP_END \<or> b = SLIP_ESC then [SLIP_ESC, if b = SLIP_END then SLIP_ESC_END else SLIP_ESC_ESC] else [b]) = ?w"
    "(if b = SLIP_END \<or> b = SLIP_ESC then 2 else 1) = length ?w"
    by (simp_all add: slip_byte_def)
  show ?case
  proof (cases "length out + length ?w > cap - 1")
    case True
    then show ?thesis using Cons.prems by (simp add: w Let_def)
  next
    case False
    then have "Suc (length (out @ ?w)) \<le> cap" using Cons.prems by simp
    from Cons.IH [OF this] False show ?thesis by (simp add: w Let_def add.assoc)
  qed
qed simp

text \<open>
  The encoder writes exactly the SLIP frame of the packet when it fits the
  buffer and writes nothing otherwise: it fails only when the escaped packet and its two END
  bytes do not fit, the output never exceeds the buffer, and a buffer of twice the packet
  plus two always suffices.\<close>

lemma slip_encode_spec:
  "slip_encode inp len cap =
     (if length (slip_frame (take len inp)) \<le> cap then Some (slip_frame (take len inp)) else None) \<and>
   length (slip_frame (take len inp)) \<le> 2 * min len (length inp) + 2"
proof
  have l: "length (slip_frame (take len inp)) = length (slip_body (take len inp)) + 2"
    by (simp add: slip_frame_def)
  show "slip_encode inp len cap =
     (if length (slip_frame (take len inp)) \<le> cap then Some (slip_frame (take len inp)) else None)"
    by (cases "cap < 2") (simp_all add: slip_encode_def l slip_encode_loop_eq, simp_all add: slip_frame_def)
  show "length (slip_frame (take len inp)) \<le> 2 * min len (length inp) + 2"
    using slip_body_length [of "take len inp"] by (simp add: l min.commute)
qed

section \<open>The decoder\<close>

definition slip_inv :: "nat \<Rightarrow> SlipDecoder \<Rightarrow> bool" where
  "slip_inv CAP d \<longleftrightarrow> length (sl_buf d) = CAP \<and> sl_len d \<le> CAP"

lemma slip_feed_inv: "slip_inv CAP d \<Longrightarrow> slip_inv CAP (fst (slip_feed CAP d b))"
  by (auto simp: slip_inv_def slip_feed_def Let_def)

text \<open>
  Whatever bytes arrive, the decoder's write index stays inside its buffer, the
  length it reports never exceeds the capacity, and a length is reported only at an END byte.\<close>

lemma slip_feed_safe:
  assumes "slip_inv CAP d"
  shows "slip_inv CAP (fst (run_feed (slip_step CAP) d bs)) \<and>
    (\<forall>f \<in> set (snd (run_feed (slip_step CAP) d bs)). 0 < length f \<and> length f \<le> CAP) \<and>
    length (snd (run_feed (slip_step CAP) d bs)) \<le> count_list bs SLIP_END"
  using assms
proof (induction bs arbitrary: d)
  case (Cons b bs)
  obtain d' n where f: "slip_feed CAP d b = (d', n)" by (cases "slip_feed CAP d b")
  have inv: "slip_inv CAP d'" using slip_feed_inv [OF Cons.prems, of b] by (simp add: f)
  have "n \<le> CAP" "b \<noteq> SLIP_END \<Longrightarrow> n = 0"
    using f Cons.prems by (auto simp: slip_feed_def slip_inv_def Let_def split: if_splits)
  moreover have "length (sl_buf d') = CAP" using inv by (simp add: slip_inv_def)
  ultimately show ?case using Cons.IH [OF inv]
    by (auto simp: slip_step_def f split: prod.splits)
qed simp

text \<open>One escaped byte of a frame: it is appended, or the frame is marked as too long.\<close>

lemma slip_feed_byte:
  assumes "slip_inv CAP d" "\<not> sl_esc d" "\<not> sl_bad d"
  shows "\<exists>d'. run_feed (slip_step CAP) d (slip_byte b) = (d', []) \<and> slip_inv CAP d' \<and> \<not> sl_esc d' \<and>
    (if sl_len d < CAP
     then \<not> sl_bad d' \<and> sl_len d' = Suc (sl_len d) \<and>
          take (sl_len d') (sl_buf d') = take (sl_len d) (sl_buf d) @ [b]
     else sl_bad d')"
proof -
  have "take (Suc (sl_len d)) ((sl_buf d)[sl_len d := c]) = take (sl_len d) (sl_buf d) @ [c]"
    if "sl_len d < CAP" for c
    using that assms(1) by (simp add: slip_inv_def take_Suc_conv_app_nth take_update_cancel)
  with assms show ?thesis
    by (auto simp: slip_byte_def slip_step_def slip_feed_def slip_const_defs slip_inv_def Let_def)
qed

lemma slip_feed_bad:
  assumes "slip_inv CAP d" "sl_bad d" "SLIP_END \<notin> set bs"
  shows "\<exists>d'. run_feed (slip_step CAP) d bs = (d', []) \<and> slip_inv CAP d' \<and> sl_bad d'"
  using assms by (induction bs arbitrary: d) (auto simp: slip_step_def slip_feed_def)

lemma slip_feed_body:
  assumes "slip_inv CAP d" "\<not> sl_esc d" "\<not> sl_bad d"
  shows "\<exists>d'. run_feed (slip_step CAP) d (slip_body bs) = (d', []) \<and> slip_inv CAP d' \<and>
    (if sl_len d + length bs \<le> CAP
     then \<not> sl_esc d' \<and> \<not> sl_bad d' \<and> sl_len d' = sl_len d + length bs \<and>
          take (sl_len d') (sl_buf d') = take (sl_len d) (sl_buf d) @ bs
     else sl_bad d')"
  using assms
proof (induction bs arbitrary: d)
  case Nil
  then show ?case by (simp add: slip_inv_def)
next
  case (Cons b bs)
  from slip_feed_byte [OF Cons.prems, of b] obtain d1
    where d1: "run_feed (slip_step CAP) d (slip_byte b) = (d1, [])" "slip_inv CAP d1" "\<not> sl_esc d1"
      and r: "if sl_len d < CAP
         then \<not> sl_bad d1 \<and> sl_len d1 = Suc (sl_len d) \<and>
              take (sl_len d1) (sl_buf d1) = take (sl_len d) (sl_buf d) @ [b]
         else sl_bad d1" by blast
  show ?case
  proof (cases "sl_len d < CAP")
    case True
    with r Cons.IH [OF d1(2,3)] d1(1) show ?thesis by (auto simp: run_feed_append split: if_splits)
  next
    case False
    with r slip_feed_bad [OF d1(2) _ slip_body_no_END, of bs] d1(1) show ?thesis
      by (auto simp: run_feed_append)
  qed
qed

lemma slip_feed_END:
  "slip_inv CAP d \<Longrightarrow> slip_step CAP d SLIP_END =
     (slip_reset d, if sl_bad d \<or> sl_esc d \<or> sl_len d = 0 then None else Some (take (sl_len d) (sl_buf d)))"
  by (simp add: slip_step_def slip_feed_def slip_reset_def)

lemma slip_reset_inv [simp]:
  "slip_inv CAP d \<Longrightarrow> slip_inv CAP (slip_reset d)" "sl_len (slip_reset d) = 0"
  "\<not> sl_esc (slip_reset d)" "\<not> sl_bad (slip_reset d)"
  by (simp_all add: slip_reset_def slip_inv_def)

lemma slip_feed_frame:
  assumes "slip_inv CAP d"
  shows "\<exists>d'. slip_inv CAP d' \<and> sl_len d' = 0 \<and> run_feed (slip_step CAP) d (slip_frame bs) =
    (d', (if sl_bad d \<or> sl_esc d \<or> sl_len d = 0 then [] else [take (sl_len d) (sl_buf d)]) @
         (if bs = [] \<or> length bs > CAP then [] else [bs]))"
proof -
  from slip_feed_body [of CAP "slip_reset d" bs] assms obtain d1
    where d1: "run_feed (slip_step CAP) (slip_reset d) (slip_body bs) = (d1, [])" "slip_inv CAP d1"
      and r: "if length bs \<le> CAP
         then \<not> sl_esc d1 \<and> \<not> sl_bad d1 \<and> sl_len d1 = length bs \<and> take (sl_len d1) (sl_buf d1) = bs
         else sl_bad d1" by (auto simp del: if_split cong: if_cong)
  then show ?thesis using assms
    by (intro exI [where x = "slip_reset d1"])
      (auto simp: slip_frame_def slip_feed_END run_feed_append split: if_splits)
qed

text \<open>The decoder states in which no part of a frame is waiting.\<close>

definition slip_ready :: "nat \<Rightarrow> SlipDecoder \<Rightarrow> bool" where
  "slip_ready CAP d \<longleftrightarrow> slip_inv CAP d \<and> (sl_bad d \<or> sl_esc d \<or> sl_len d = 0)"

interpretation slip: stream_codec "slip_step CAP" slip_frame "slip_ready CAP"
  "\<lambda>bs :: bytes. bs \<noteq> [] \<and> length bs \<le> CAP" for CAP
proof unfold_locales
  fix s and m :: bytes assume "slip_ready CAP s" "m \<noteq> [] \<and> length m \<le> CAP"
  with slip_feed_frame [of CAP s m] show "\<exists>s'. slip_ready CAP s' \<and>
      run_feed (slip_step CAP) s (slip_frame m) = (s', [m])"
    by (auto simp: slip_ready_def)
qed

text \<open>
  C8 (slip_roundtrip). Any sequence of packets that fit the decoder's buffer, encoded one after the
  other by \<open>slip_encode\<close>, is decoded into exactly that sequence, whatever the packets contain,
  from any decoder state without a pending partial frame (also one left by a broken frame).\<close>

theorem slip_roundtrip:
  assumes "slip_ready CAP d" and "\<forall>p \<in> set ps. p \<noteq> [] \<and> length p \<le> CAP"
  shows "\<exists>frames. those (map (\<lambda>p. slip_encode p (length p) (2 * length p + 2)) ps) = Some frames \<and>
    snd (run_feed (slip_step CAP) d (concat frames)) = ps"
proof -
  have "slip_encode p (length p) (2 * length p + 2) = Some (slip_frame p)" for p
    using slip_encode_loop_eq [of "[SLIP_END]" "2 * length p + 2" p] slip_body_length [of p]
    by (simp add: slip_encode_def slip_frame_def)
  then have "those (map (\<lambda>p. slip_encode p (length p) (2 * length p + 2)) ps) = Some (map slip_frame ps)"
    by (induction ps) simp_all
  with slip.messages [OF assms] show ?thesis by auto
qed

theorem slip_roundtrip_witness:
  "\<exists>frames. those (map (\<lambda>p. slip_encode p (length p) (2 * length p + 2)) [[0xC0, 1], [0xDB, 0xDC, 0xC0]])
      = Some frames \<and>
    snd (run_feed (slip_step 4) \<lparr>sl_buf = [0, 0, 0, 0], sl_len = 0, sl_esc = False, sl_bad = False\<rparr>
      (concat frames)) = [[0xC0, 1], [0xDB, 0xDC, 0xC0]]"
  by (rule slip_roundtrip) (simp_all add: slip_ready_def slip_inv_def)

text \<open>
  A frame longer than the decoder's capacity, or an empty one, is dropped as a
  whole and the frames after it are decoded as if it had not been sent.\<close>

lemma slip_oversize_dropped:
  assumes "slip_ready CAP d" and "length big > CAP \<or> big = []" and "p \<noteq> []" and "length p \<le> CAP"
  shows "snd (run_feed (slip_step CAP) d (slip_frame big @ slip_frame p)) = [p]"
proof -
  from assms(1) have "slip_inv CAP d" by (simp add: slip_ready_def)
  from slip_feed_frame [OF this, of big] assms(1,2) obtain d1
    where d1: "slip_inv CAP d1" "sl_len d1 = 0" "run_feed (slip_step CAP) d (slip_frame big) = (d1, [])"
    by (auto simp: slip_ready_def)
  from slip_feed_frame [OF d1(1), of p] d1 assms(3,4) show ?thesis by (auto simp: run_feed_append)
qed

end
