(* ===== verification/Net_Mode.thy ===== *)
theory Net_Mode
  imports Net_Packet Slip
begin

text \<open>
  LoRa network mode on the USB serial port (\<open>src/src/core/net_serial.cpp\<close>), with the two
  functions of \<open>src/src/lora/lora_support.cpp\<close> it sends through.

  The file's static variables are the record \<open>NetState\<close>.  What the code does outside its own
  state (bytes written to the port, packets put on the radio queue, log lines) is returned
  as a list of events in the order of the calls.  \<open>millis()\<close>, the success of an allocation
  and the state of a FreeRTOS queue owned by other tasks are arguments.
\<close>

section \<open>Sending on the radio queue (lora_support.cpp)\<close>

definition LORA_MSG :: u8 where "LORA_MSG = 0"
definition RAW_DATA :: u8 where "RAW_DATA = 1"
definition REC_AKNG :: u8 where "REC_AKNG = 2"
definition LORA_SERIAL :: u8 where "LORA_SERIAL = 3"
definition LORA_NET :: u8 where "LORA_NET = 4"
definition LORA_MAX_PAYLOAD :: nat where "LORA_MAX_PAYLOAD = 251"

record QueueParam =
  q_type :: u8
  q_message :: bytes
  q_id :: u32

text \<open>The queue item \<open>lora_net_send\<close> puts on \<open>send_packets\<close>, or \<open>None\<close> when it returns false.
  \<open>queue_ok\<close>: the queue exists and takes the item; \<open>alloc_ok\<close>: the allocations succeed.\<close>

definition lora_net_send :: "u16 \<Rightarrow> bool \<Rightarrow> bool \<Rightarrow> u16 \<Rightarrow> bytes \<Rightarrow> nat \<Rightarrow> QueueParam option" where
  "lora_net_send s_node_id alloc_ok queue_ok dst ip len =
     (case net_build dst s_node_id (Some ip) len LORA_MAX_PAYLOAD of
        None \<Rightarrow> None
      | Some buf \<Rightarrow>
          if \<not> alloc_ok \<or> \<not> queue_ok then None
          else Some \<lparr>q_type = LORA_NET, q_message = buf, q_id = 0\<rparr>)"

section \<open>State\<close>

definition SLIP_CAP :: nat where "SLIP_CAP = 600"
definition NET_PEERS :: nat where "NET_PEERS = 8"
definition RX_Q_LEN :: nat where "RX_Q_LEN = 8"
definition NET_IDLE_TIMEOUT_MS :: u32 where "NET_IDLE_TIMEOUT_MS = 30000"

record Peer =
  node :: u16
  rssi :: "16 word"
  seen :: u32

record NetState =
  s_dec :: SlipDecoder
  s_active :: bool
  s_last_rx :: u32
  s_tx :: u32
  s_rx :: u32
  s_drop :: u32
  s_rx_q :: "bytes list option"
  s_peers :: "Peer list"
  busy_last :: u32

definition NetState_init :: NetState where
  "NetState_init = \<lparr>s_dec = \<lparr>sl_buf = replicate SLIP_CAP 0, sl_len = 0, sl_esc = False, sl_bad = False\<rparr>,
     s_active = False, s_last_rx = 0, s_tx = 0, s_rx = 0, s_drop = 0, s_rx_q = None,
     s_peers = replicate NET_PEERS \<lparr>node = 0, rssi = 0, seen = 0\<rparr>, busy_last = 0\<rparr>"

datatype net_event =
    SerialWrite bytes
  | RadioQueue QueueParam
  | NetOn u16
  | NetOff string

section \<open>Operations\<close>

text \<open>\<open>queue_created\<close>: the queue could be created.  When only the writer task cannot be created the
  code logs the error and keeps the queue.\<close>

definition net_init :: "NetState \<Rightarrow> bool \<Rightarrow> NetState" where
  "net_init s queue_created =
     (if s_rx_q s \<noteq> None then s
      else s\<lparr>s_rx_q := (if queue_created then Some [] else None)\<rparr>)"

definition net_enter :: "NetState \<Rightarrow> bool \<Rightarrow> u32 \<Rightarrow> u16 \<Rightarrow> NetState \<times> net_event list \<times> bool" where
  "net_enter s lora_serial millis node_id =
     (if lora_serial \<or> s_rx_q s = None then (s, [], False)
      else (s\<lparr>s_dec := slip_reset (s_dec s), s_last_rx := millis, s_active := True\<rparr>, [NetOn node_id], True))"

definition net_leave :: "NetState \<Rightarrow> string \<Rightarrow> NetState \<times> net_event list" where
  "net_leave s why = (if \<not> s_active s then (s, []) else (s\<lparr>s_active := False\<rparr>, [NetOff why]))"

definition maybe_report_busy :: "NetState \<Rightarrow> bool \<Rightarrow> nat \<Rightarrow> u32 \<Rightarrow> NetState \<times> net_event list" where
  "maybe_report_busy s dropped depth now =
     (if \<not> dropped \<and> depth < NET_BUSY_DEPTH then (s, [])
      else if now - busy_last s < 300 then (s, [])
      else (s\<lparr>busy_last := now\<rparr>,
            [SerialWrite [SLIP_END, 0x00, NET_CTL_BUSY, word_of_nat (if depth > 255 then 255 else depth), SLIP_END]]))"

text \<open>What surrounds the handling of one frame: the clock at its start and at the busy report,
  this node's id, the allocator, the radio queue and its depth.\<close>

record net_env =
  now1 :: u32
  now2 :: u32
  my_node :: u16
  alloc_ok :: bool
  queue_ok :: bool
  depth :: nat

text \<open>The common end of both ways to send: count the packet and report the queue.\<close>

definition net_send_counted :: "NetState \<Rightarrow> net_env \<Rightarrow> u16 \<Rightarrow> bytes \<Rightarrow> nat \<Rightarrow> NetState \<times> net_event list" where
  "net_send_counted s e dst ip len =
     (case lora_net_send (my_node e) (alloc_ok e) (queue_ok e) dst ip len of
        Some q \<Rightarrow>
          (case maybe_report_busy (s\<lparr>s_tx := s_tx s + 1\<rparr>) False (depth e) (now2 e) of
             (s', evs) \<Rightarrow> (s', RadioQueue q # evs))
      | None \<Rightarrow> maybe_report_busy (s\<lparr>s_drop := s_drop s + 1\<rparr>) True (depth e) (now2 e))"

definition handle_frame :: "NetState \<Rightarrow> net_env \<Rightarrow> bytes \<Rightarrow> nat \<Rightarrow> NetState \<times> net_event list" where
  "handle_frame s e f n =
     (let s = s\<lparr>s_last_rx := now1 e\<rparr> in
      if f ! 0 = 0x00 then
        if n \<ge> 2 \<and> f ! 1 = NET_CTL_LEAVE then net_leave s ''helper left''
        else if n \<ge> 2 \<and> f ! 1 = NET_CTL_KEEPALIVE then
          (s, [SerialWrite [SLIP_END, 0x00, NET_CTL_ALIVE_ACK, SLIP_END]])
        else
          (case net_parse_send_to (Some f) n of
             None \<Rightarrow> (s, [])
           | Some (nd, ip, len) \<Rightarrow>
               if len > NET_MAX_IP \<or> nd = my_node e then (s\<lparr>s_drop := s_drop s + 1\<rparr>, [])
               else net_send_counted s e nd ip len)
      else if n > NET_MAX_IP \<or> \<not> net_ipv4_ok (Some f) n then (s\<lparr>s_drop := s_drop s + 1\<rparr>, [])
      else
        let dst = net_ip_to_node (drop 16 f) in
        if dst = 0 \<or> dst = my_node e then (s\<lparr>s_drop := s_drop s + 1\<rparr>, [])
        else net_send_counted s e dst f n)"

definition net_feed :: "NetState \<Rightarrow> net_env \<Rightarrow> u8 \<Rightarrow> NetState \<times> net_event list" where
  "net_feed s e b =
     (case slip_feed SLIP_CAP (s_dec s) b of
        (d, n) \<Rightarrow>
          let s = s\<lparr>s_dec := d\<rparr>
          in if n \<noteq> 0 then handle_frame s e (take n (sl_buf d)) n else (s, []))"

definition net_poll :: "NetState \<Rightarrow> u32 \<Rightarrow> NetState \<times> net_event list" where
  "net_poll s now =
     (if s_active s \<and> now - s_last_rx s > NET_IDLE_TIMEOUT_MS
      then net_leave s ''no keepalive from the PC'' else (s, []))"

definition net_deliver :: "NetState \<Rightarrow> bool \<Rightarrow> bytes \<Rightarrow> nat \<Rightarrow> NetState \<times> bool" where
  "net_deliver s alloc ip len =
     (case s_rx_q s of
        None \<Rightarrow> (s, False)
      | Some q \<Rightarrow>
          if \<not> s_active s \<or> len > NET_MAX_IP \<or> \<not> alloc then (s, False)
          else if length q \<ge> RX_Q_LEN then (s\<lparr>s_drop := s_drop s + 1\<rparr>, False)
          else (s\<lparr>s_rx_q := Some (q @ [take len ip]), s_rx := s_rx s + 1\<rparr>, True))"

text \<open>One turn of the writer task, when an item is waiting.\<close>

definition net_writer_step :: "NetState \<Rightarrow> NetState \<times> net_event list" where
  "net_writer_step s =
     (case s_rx_q s of
        Some (it # q) \<Rightarrow>
          (s\<lparr>s_rx_q := Some q\<rparr>,
           if s_active s then
             (case slip_encode it (length it) (2 * NET_MAX_IP + 2) of
                Some enc \<Rightarrow> [SerialWrite enc] | None \<Rightarrow> [])
           else [])
      | _ \<Rightarrow> (s, []))"

text \<open>The search of \<open>net_heard\<close>: the slot of the node, or else the one seen longest ago.\<close>

fun heard_slot :: "Peer list \<Rightarrow> u16 \<Rightarrow> Peer list \<Rightarrow> nat \<Rightarrow> nat \<Rightarrow> nat" where
  "heard_slot peers nd [] i oldest = oldest"
| "heard_slot peers nd (p # ps) i oldest =
     (if node p = nd then i
      else heard_slot peers nd ps (i + 1) (if seen p < seen (peers ! oldest) then i else oldest))"

definition net_heard :: "NetState \<Rightarrow> u16 \<Rightarrow> int \<Rightarrow> u32 \<Rightarrow> NetState" where
  "net_heard s nd r now =
     (let slot = heard_slot (s_peers s) nd (s_peers s) 0 0
      in s\<lparr>s_peers := (s_peers s)[slot := \<lparr>node = nd, rssi = word_of_int r, seen = (if now \<noteq> 0 then now else 1)\<rparr>]\<rparr>)"

section \<open>Lemmas\<close>

lemmas net_step_simps [step_simps] =
  net_send_counted_def handle_frame_def net_leave_def maybe_report_busy_def net_poll_def Let_def

lemma LORA_MAX_PAYLOAD_eq: "LORA_MAX_PAYLOAD = 251" "NET_MAX_IP = 247" "NET_HDR = 4"
  by (simp_all add: LORA_MAX_PAYLOAD_def codec_simps)

lemma maybe_report_busy_keeps:
  "maybe_report_busy s d k now = (s', evs) \<Longrightarrow>
   s_tx s' = s_tx s \<and> s_rx s' = s_rx s \<and> s_drop s' = s_drop s \<and> s_active s' = s_active s \<and>
   s_rx_q s' = s_rx_q s \<and> s_dec s' = s_dec s \<and> s_peers s' = s_peers s \<and> s_last_rx s' = s_last_rx s \<and>
   (\<forall>ev \<in> set evs. \<exists>bs. ev = SerialWrite bs)"
  by (auto simp: maybe_report_busy_def split: if_splits)

subsection \<open>Frames from the PC\<close>

text \<open>Feeding bytes one after the other, each with what surrounds it.\<close>

fun net_feeds :: "NetState \<Rightarrow> (net_env \<times> u8) list \<Rightarrow> NetState \<times> net_event list" where
  "net_feeds s [] = (s, [])"
| "net_feeds s ((e, b) # bs) =
     (case net_feed s e b of
        (s', evs) \<Rightarrow> (case net_feeds s' bs of (s'', evs') \<Rightarrow> (s'', evs @ evs')))"

lemma net_feeds_append:
  "net_feeds s (xs @ ys) =
     (case net_feeds s xs of (s', evs) \<Rightarrow> (case net_feeds s' ys of (s'', evs') \<Rightarrow> (s'', evs @ evs')))"
  by (induction s xs rule: net_feeds.induct) (auto split: prod.splits)

lemma net_feed_step:
  "net_feed s e b =
     (case slip_step SLIP_CAP (s_dec s) b of
        (d, None) \<Rightarrow> (s\<lparr>s_dec := d\<rparr>, [])
      | (d, Some f) \<Rightarrow> handle_frame (s\<lparr>s_dec := d\<rparr>) e f (snd (slip_feed SLIP_CAP (s_dec s) b)))"
  by (simp add: net_feed_def slip_step_def Let_def split: prod.splits)

lemma net_feeds_silent:
  "run_feed (slip_step SLIP_CAP) (s_dec s) (map snd ebs) = (d, []) \<Longrightarrow>
   net_feeds s ebs = (s\<lparr>s_dec := d\<rparr>, [])"
proof (induction s ebs arbitrary: d rule: net_feeds.induct)
  case (2 s e b bs)
  obtain d1 r where st: "slip_step SLIP_CAP (s_dec s) b = (d1, r)" by (cases "slip_step SLIP_CAP (s_dec s) b")
  with "2.prems" have r: "r = None" and rest: "run_feed (slip_step SLIP_CAP) d1 (map snd bs) = (d, [])"
    by (auto split: prod.splits option.splits)
  have nf: "net_feed s e b = (s\<lparr>s_dec := d1\<rparr>, [])" by (simp add: net_feed_step st r)
  from "2.IH" [of "s\<lparr>s_dec := d1\<rparr>" "[]" d] rest show ?case by (simp add: nf)
qed simp

lemma net_feeds_frame:
  assumes "slip_ready SLIP_CAP (s_dec s)" and "f \<noteq> []" "length f \<le> SLIP_CAP"
    and "map snd ebs = slip_frame f"
  shows "\<exists>d. slip_ready SLIP_CAP d \<and> net_feeds s ebs = handle_frame (s\<lparr>s_dec := d\<rparr>) (fst (last ebs)) f (length f)"
proof -
  have inv: "slip_inv SLIP_CAP (s_dec s)" using assms(1) by (simp add: slip_ready_def)
  obtain ebs' e b where ebs: "ebs = ebs' @ [(e, b)]" using assms(4)
    by (cases ebs rule: rev_cases) (auto simp: slip_frame_def)
  then have b: "b = SLIP_END" and pre: "map snd ebs' = SLIP_END # slip_body f"
    using assms(4) by (auto simp: slip_frame_def)
  from slip_feed_body [of SLIP_CAP "slip_reset (s_dec s)" f] inv assms(3) obtain d1
    where d1: "run_feed (slip_step SLIP_CAP) (slip_reset (s_dec s)) (slip_body f) = (d1, [])" "slip_inv SLIP_CAP d1"
      "\<not> sl_esc d1" "\<not> sl_bad d1" "sl_len d1 = length f" "take (sl_len d1) (sl_buf d1) = f"
    by (auto cong: if_cong)
  have "run_feed (slip_step SLIP_CAP) (s_dec s) (map snd ebs') = (d1, [])"
    using assms(1) d1(1) by (simp add: pre slip_feed_END [OF inv] slip_ready_def)
  from net_feeds_silent [OF this] have 1: "net_feeds s ebs' = (s\<lparr>s_dec := d1\<rparr>, [])" .
  have "snd (slip_feed SLIP_CAP d1 SLIP_END) = length f" using d1 by (simp add: slip_feed_def)
  then have "net_feed (s\<lparr>s_dec := d1\<rparr>) e b = handle_frame (s\<lparr>s_dec := slip_reset d1\<rparr>) e f (length f)"
    using d1 assms(2) by (simp add: net_feed_step b slip_feed_END [OF d1(2)])
  then have "net_feeds s ebs = handle_frame (s\<lparr>s_dec := slip_reset d1\<rparr>) e f (length f)"
    by (simp add: ebs net_feeds_append 1 split: prod.splits)
  moreover have "slip_ready SLIP_CAP (slip_reset d1)" using d1(2) by (simp add: slip_ready_def)
  ultimately show ?thesis by (auto simp: ebs)
qed

lemma ipv4_first_byte: "net_ipv4_ok (Some f) n \<Longrightarrow> f ! 0 \<noteq> 0"
  by (auto simp: net_ipv4_ok_def split: if_splits)

lemma lora_net_send_ok:
  assumes "net_ipv4_ok (Some ip) len" "len \<le> length ip" "len \<le> 247" "dst \<noteq> 0" "me \<noteq> 0" "me \<noteq> NET_BROADCAST"
  shows "\<exists>q. lora_net_send me True True dst ip len = Some q \<and> q_type q = LORA_NET \<and> q_id q = 0 \<and>
    length (q_message q) = 4 + len \<and>
    net_parse (Some (q_message q)) (4 + len) =
      Some \<lparr>nf_dst = dst, nf_src = me, nf_ip = take len ip, nf_len = len\<rparr>"
proof -
  have "\<exists>p. net_build dst me (Some ip) len 251 = Some p \<and> length p = 4 + len \<and>
    net_parse (Some p) (4 + len) = Some \<lparr>nf_dst = dst, nf_src = me, nf_ip = take len ip, nf_len = len\<rparr>"
    using assms net_ipv4_okD [OF assms(1)] net_ipv4_ok_cong [of "take len ip" ip len]
    by (simp add: net_build_def net_parse_def codec_simps Let_def min_def)
  then show ?thesis by (auto simp: lora_net_send_def LORA_MAX_PAYLOAD_eq)
qed

text \<open>
  An IPv4 packet the PC sends in one SLIP frame to another node's address (or
  to the broadcast address) is put on the radio queue exactly once, in a network payload that
  the receiving board parses back into this destination, this board as source, and the same
  packet, and is counted as sent; no other radio packet is queued.\<close>

lemma net_packet_forwarded:
  assumes "slip_ready SLIP_CAP (s_dec s)" and "map snd ebs = slip_frame ip" and "e = fst (last ebs)"
    and "net_ipv4_ok (Some ip) (length ip)" and "length ip \<le> 247"
    and "dst = net_ip_to_node (drop 16 ip)" and "dst \<noteq> 0" and "dst \<noteq> my_node e"
    and "my_node e \<noteq> 0" and "my_node e \<noteq> NET_BROADCAST" and "alloc_ok e" and "queue_ok e"
  shows "\<exists>s' q evs. net_feeds s ebs = (s', RadioQueue q # evs) \<and> (\<forall>ev \<in> set evs. \<exists>bs. ev = SerialWrite bs) \<and>
    s_tx s' = s_tx s + 1 \<and> s_drop s' = s_drop s \<and> slip_ready SLIP_CAP (s_dec s') \<and>
    q_type q = LORA_NET \<and>
    net_parse (Some (q_message q)) (length (q_message q)) =
      Some \<lparr>nf_dst = dst, nf_src = my_node e, nf_ip = ip, nf_len = length ip\<rparr>"
proof -
  have "20 \<le> length ip" using assms(4) by (rule net_ipv4_okD)
  then have "ip \<noteq> []" "length ip \<le> SLIP_CAP" using assms(5) by (auto simp: SLIP_CAP_def)
  from net_feeds_frame [OF assms(1) this assms(2)] obtain d
    where d: "slip_ready SLIP_CAP d" "net_feeds s ebs = handle_frame (s\<lparr>s_dec := d\<rparr>) e ip (length ip)"
    using assms(3) by blast
  from lora_net_send_ok [OF assms(4) _ assms(5,7,9,10)] obtain q
    where q: "lora_net_send (my_node e) True True dst ip (length ip) = Some q" "q_type q = LORA_NET"
      "length (q_message q) = 4 + length ip"
      "net_parse (Some (q_message q)) (4 + length ip) =
        Some \<lparr>nf_dst = dst, nf_src = my_node e, nf_ip = ip, nf_len = length ip\<rparr>" by auto
  have h: "handle_frame (s\<lparr>s_dec := d\<rparr>) e ip (length ip) =
      net_send_counted (s\<lparr>s_dec := d, s_last_rx := now1 e\<rparr>) e dst ip (length ip)"
    using assms(4-8) ipv4_first_byte [OF assms(4)] by (simp add: handle_frame_def LORA_MAX_PAYLOAD_eq)
  obtain s' evs where mb: "maybe_report_busy (s\<lparr>s_dec := d, s_last_rx := now1 e, s_tx := s_tx s + 1\<rparr>)
      False (depth e) (now2 e) = (s', evs)" by fastforce
  have "net_feeds s ebs = (s', RadioQueue q # evs)"
    using assms(11,12) q(1) mb by (simp add: d(2) h net_send_counted_def)
  with maybe_report_busy_keeps [OF mb] q d(1) show ?thesis by auto
qed

lemma ready_init: "slip_ready SLIP_CAP (s_dec NetState_init)"
  by (simp add: slip_ready_def slip_inv_def NetState_init_def)

definition sample_env :: net_env where
  "sample_env = \<lparr>now1 = 5, now2 = 6, my_node = 0x0102, alloc_ok = True, queue_ok = True, depth = 0\<rparr>"

text \<open>
  Every data frame from the PC is counted exactly once, as sent or as dropped:
  as sent if and only if one packet was put on the radio queue, and then it is addressed to
  another node; control frames count nothing unless they carry a packet.\<close>

lemma net_frame_accounted:
  assumes "handle_frame s e f n = (s', evs)" and "f ! 0 \<noteq> 0"
  shows "(\<exists>q evs'. evs = RadioQueue q # evs' \<and> (\<forall>ev \<in> set evs'. \<exists>bs. ev = SerialWrite bs) \<and>
      s_tx s' = s_tx s + 1 \<and> s_drop s' = s_drop s \<and> net_ip_to_node (drop 16 f) \<noteq> my_node e) \<or>
    ((\<forall>ev \<in> set evs. \<exists>bs. ev = SerialWrite bs) \<and> s_tx s' = s_tx s \<and> s_drop s' = s_drop s + 1)"
  using assms
  by (auto simp: handle_frame_def net_send_counted_def Let_def split: if_splits option.splits prod.splits
      dest!: maybe_report_busy_keeps)

text \<open>The RX task delivers, the writer task writes, in any order.\<close>

datatype net_op = Deliver bool bytes | Write

text \<open>A run: the state, the packets \<open>net_deliver\<close> accepted, and the bytes on the port.\<close>

fun net_ops :: "NetState \<Rightarrow> net_op list \<Rightarrow> NetState \<times> bytes list \<times> bytes" where
  "net_ops s [] = (s, [], [])"
| "net_ops s (Deliver alloc ip # ops) =
     (case net_deliver s alloc ip (length ip) of
        (s', ok) \<Rightarrow> (case net_ops s' ops of (s'', acc, wire) \<Rightarrow> (s'', (if ok then ip # acc else acc), wire)))"
| "net_ops s (Write # ops) =
     (case net_writer_step s of
        (s', evs) \<Rightarrow>
          (case net_ops s' ops of
             (s'', acc, wire) \<Rightarrow> (s'', acc, concat (map (\<lambda>ev. case ev of SerialWrite bs \<Rightarrow> bs | _ \<Rightarrow> []) evs) @ wire)))"

definition rx_q_ok :: "NetState \<Rightarrow> bool" where
  "rx_q_ok s \<longleftrightarrow> s_active s \<and>
     (\<exists>q. s_rx_q s = Some q \<and> length q \<le> RX_Q_LEN \<and> (\<forall>ip \<in> set q. ip \<noteq> [] \<and> length ip \<le> NET_MAX_IP))"

lemma net_deliver_ok:
  assumes "rx_q_ok s" "ip \<noteq> []" "net_deliver s alloc ip (length ip) = (s', ok)"
  shows "rx_q_ok s' \<and> the (s_rx_q s') = the (s_rx_q s) @ (if ok then [ip] else [])"
  using assms by (auto simp: rx_q_ok_def net_deliver_def split: if_splits option.splits)

lemma net_writer_ok:
  assumes "rx_q_ok s" "net_writer_step s = (s', evs)"
  shows "rx_q_ok s' \<and>
    (case the (s_rx_q s) of
       [] \<Rightarrow> the (s_rx_q s') = [] \<and> evs = []
     | ip # q \<Rightarrow> the (s_rx_q s') = q \<and> evs = [SerialWrite (slip_frame ip)] \<and> ip \<noteq> [] \<and> length ip \<le> NET_MAX_IP)"
proof -
  have "slip_encode ip (length ip) (2 * NET_MAX_IP + 2) = Some (slip_frame ip)" if "length ip \<le> NET_MAX_IP" for ip
    using slip_body_length [of ip] that slip_encode_loop_eq [of "[SLIP_END]" "2 * NET_MAX_IP + 2" ip]
    by (simp add: slip_encode_def slip_frame_def)
  with assms show ?thesis
    by (auto simp: rx_q_ok_def net_writer_step_def split: option.splits list.splits)
qed

text \<open>
  C10 (net_delivery_fifo). However the RX task and the USB writer task interleave while network mode stays
  on, the PC decodes from the port exactly the packets the board accepted, whole, in order
  and once each, except those still waiting in the queue, which never holds more than eight.\<close>

theorem net_delivery_fifo:
  assumes "rx_q_ok s" and "the (s_rx_q s) = []"
    and "\<forall>op \<in> set ops. case op of Deliver a ip \<Rightarrow> ip \<noteq> [] | Write \<Rightarrow> True"
    and "net_ops s ops = (s', accepted, wire)"
    and "slip_ready CAP d" and "CAP \<ge> 247"
  shows "accepted = snd (run_feed (slip_step CAP) d wire) @ the (s_rx_q s') \<and> length (the (s_rx_q s')) \<le> 8"
proof -
  have gen: "rx_q_ok s' \<and> (\<exists>ps. the (s_rx_q s) @ accepted = ps @ the (s_rx_q s') \<and>
      (\<forall>p \<in> set ps. p \<noteq> [] \<and> length p \<le> CAP) \<and> wire = concat (map slip_frame ps))"
    using assms(1,3,4)
  proof (induction s ops arbitrary: accepted wire rule: net_ops.induct)
    case (2 s alloc ip ops)
    obtain s1 ok where d: "net_deliver s alloc ip (length ip) = (s1, ok)" by fastforce
    obtain acc where r: "net_ops s1 ops = (s', acc, wire)" and acc: "accepted = (if ok then ip # acc else acc)"
      using "2.prems"(3) by (auto simp: d split: prod.splits)
    have "ip \<noteq> []" using "2.prems"(2) by auto
    from net_deliver_ok [OF "2.prems"(1) this d] have 1: "rx_q_ok s1"
      "the (s_rx_q s1) = the (s_rx_q s) @ (if ok then [ip] else [])" by auto
    from "2.IH" [OF d [symmetric] 1(1) _ r] "2.prems"(2) 1(2) acc show ?case by (auto split: if_splits)
  next
    case (3 s ops)
    obtain s1 evs where w: "net_writer_step s = (s1, evs)" by fastforce
    obtain wire' where r: "net_ops s1 ops = (s', accepted, wire')"
      and wire: "wire = concat (map (\<lambda>ev. case ev of SerialWrite bs \<Rightarrow> bs | _ \<Rightarrow> []) evs) @ wire'"
      using "3.prems"(3) by (auto simp: w split: prod.splits)
    from net_writer_ok [OF "3.prems"(1) w] have 1: "rx_q_ok s1"
      and q: "case the (s_rx_q s) of
         [] \<Rightarrow> the (s_rx_q s1) = [] \<and> evs = []
       | ip # q \<Rightarrow> the (s_rx_q s1) = q \<and> evs = [SerialWrite (slip_frame ip)] \<and> ip \<noteq> [] \<and> length ip \<le> NET_MAX_IP"
      by auto
    from "3.IH" [OF w [symmetric] 1 _ r] "3.prems"(2) obtain ps
      where ps: "rx_q_ok s'" "the (s_rx_q s1) @ accepted = ps @ the (s_rx_q s')"
        "\<forall>p \<in> set ps. p \<noteq> [] \<and> length p \<le> CAP" "wire' = concat (map slip_frame ps)" by auto
    show ?case
    proof (cases "the (s_rx_q s)")
      case Nil
      with q ps wire show ?thesis by auto
    next
      case (Cons ip q')
      with q ps wire assms(6) show ?thesis
        by (intro conjI exI [where x = "ip # ps"]) (auto simp: LORA_MAX_PAYLOAD_eq)
    qed
  qed auto
  then obtain ps where ps: "rx_q_ok s'" "accepted = ps @ the (s_rx_q s')"
      "\<forall>p \<in> set ps. p \<noteq> [] \<and> length p \<le> CAP" "wire = concat (map slip_frame ps)"
    using assms(2) by auto
  from slip.messages [OF assms(5) ps(3)] ps show ?thesis by (auto simp: rx_q_ok_def RX_Q_LEN_def)
qed

definition sample_active :: NetState where
  "sample_active = NetState_init\<lparr>s_active := True, s_rx_q := Some []\<rparr>"

theorem net_delivery_fifo_witness:
  "snd (run_feed (slip_step 600) (s_dec NetState_init) [0xC0, 7, 0xDB, 0xDC, 0xC0]) = [[7, 0xC0]]"
proof -
  have "net_ops sample_active [Deliver True [7, 0xC0], Deliver True [9], Write] =
      (sample_active\<lparr>s_rx_q := Some [[9]], s_rx := 2\<rparr>, [[7, 0xC0], [9]], [0xC0, 7, 0xDB, 0xDC, 0xC0])"
    by (simp add: sample_active_def net_deliver_def net_writer_step_def RX_Q_LEN_def LORA_MAX_PAYLOAD_eq
        slip_encode_def slip_const_defs NetState_init_def)
  from net_delivery_fifo [OF _ _ _ this ready_init [unfolded SLIP_CAP_def]] show ?thesis
    by (simp add: sample_active_def rx_q_ok_def)
qed

subsection \<open>The table of heard nodes\<close>

definition peers_ok :: "Peer list \<Rightarrow> bool" where
  "peers_ok ps \<longleftrightarrow> length ps = NET_PEERS \<and>
     (\<forall>i < NET_PEERS. \<forall>j < NET_PEERS. node (ps ! i) \<noteq> 0 \<longrightarrow> node (ps ! i) = node (ps ! j) \<longrightarrow> i = j)"

lemma heard_slot_spec:
  assumes "i \<le> length peers" "oldest < length peers" "\<forall>j < i. node (peers ! j) \<noteq> nd"
    "\<forall>j < i. seen (peers ! oldest) \<le> seen (peers ! j)"
  shows "heard_slot peers nd (drop i peers) i oldest < length peers \<and>
    (if nd \<in> node ` set peers then node (peers ! heard_slot peers nd (drop i peers) i oldest) = nd
     else \<forall>p \<in> set peers. seen (peers ! heard_slot peers nd (drop i peers) i oldest) \<le> seen p)"
  using assms
proof (induction "length peers - i" arbitrary: i oldest)
  case 0
  then have "i = length peers" by simp
  with 0 show ?case by (auto simp: in_set_conv_nth)
next
  case (Suc n)
  then have i: "i < length peers" by simp
  then have d: "drop i peers = peers ! i # drop (Suc i) peers" by (simp add: Cons_nth_drop_Suc)
  show ?case
  proof (cases "node (peers ! i) = nd")
    case True
    then have "nd \<in> node ` set peers" using i by (metis image_eqI nth_mem)
    with True i show ?thesis by (simp add: d)
  next
    case False
    let ?o = "if seen (peers ! i) < seen (peers ! oldest) then i else oldest"
    have "\<forall>j < Suc i. node (peers ! j) \<noteq> nd" using False Suc.prems(3) by (auto simp: less_Suc_eq)
    moreover have "\<forall>j < Suc i. seen (peers ! ?o) \<le> seen (peers ! j)"
      using Suc.prems(4) by (auto simp: less_Suc_eq intro: order.trans less_imp_le)
    moreover have "n = length peers - Suc i" using Suc.hyps(2) by simp
    ultimately show ?thesis using Suc.hyps(1) [of "Suc i" ?o] i Suc.prems(2) False by (simp add: d)
  qed
qed

text \<open>
  Hearing a node keeps the table of eight peers free of duplicates and puts the node
  in it with its signal strength and a time stamp that is never the "unused" 0; every other
  node stays, unless the heard one is new, and then only an entry with the smallest time stamp
  makes room.\<close>

lemma net_heard_table:
  assumes "peers_ok (s_peers s)" and "nd \<noteq> 0"
  shows "peers_ok (s_peers (net_heard s nd r now)) \<and>
    (\<exists>t. t \<noteq> 0 \<and> \<lparr>node = nd, rssi = word_of_int r, seen = t\<rparr> \<in> set (s_peers (net_heard s nd r now))) \<and>
    (\<exists>i < 8. (\<forall>j < 8. j \<noteq> i \<longrightarrow> s_peers (net_heard s nd r now) ! j = s_peers s ! j) \<and>
       (node (s_peers s ! i) = nd \<or>
        nd \<notin> node ` set (s_peers s) \<and> (\<forall>p \<in> set (s_peers s). seen (s_peers s ! i) \<le> seen p)))"
proof -
  define i where "i = heard_slot (s_peers s) nd (s_peers s) 0 0"
  have len: "length (s_peers s) = 8" using assms(1) by (simp add: peers_ok_def NET_PEERS_def)
  from heard_slot_spec [of 0 "s_peers s" 0 nd] len have i: "i < 8"
    "if nd \<in> node ` set (s_peers s) then node (s_peers s ! i) = nd
     else \<forall>p \<in> set (s_peers s). seen (s_peers s ! i) \<le> seen p" by (simp_all add: i_def cong: if_cong)
  define p where "p = \<lparr>node = nd, rssi = word_of_int r, seen = (if now \<noteq> 0 then now else 1)\<rparr>"
  have eq: "s_peers (net_heard s nd r now) = (s_peers s)[i := p]"
    by (simp add: net_heard_def i_def p_def Let_def)
  have uniq: "j = i" if "j < 8" "node (s_peers s ! j) = nd" for j
  proof -
    have "nd \<in> node ` set (s_peers s)" using that len by (metis image_eqI nth_mem)
    with i(2) have "node (s_peers s ! i) = nd" by simp
    with that i(1) assms show ?thesis by (auto simp: peers_ok_def NET_PEERS_def)
  qed
  have "peers_ok ((s_peers s)[i := p])"
    unfolding peers_ok_def NET_PEERS_def
  proof (intro conjI allI impI)
    fix a b assume a: "a < (8 :: nat)" "b < 8" and n: "node ((s_peers s)[i := p] ! a) \<noteq> 0"
      "node ((s_peers s)[i := p] ! a) = node ((s_peers s)[i := p] ! b)"
    have np: "node p = nd" by (simp add: p_def)
    show "a = b"
    proof (cases "a = i"; cases "b = i")
      assume "a = i" "b \<noteq> i"
      with n(2) a len np have "node (s_peers s ! b) = nd" by simp
      with uniq a(2) \<open>b \<noteq> i\<close> show ?thesis by blast
    next
      assume "a \<noteq> i" "b = i"
      with n(2) a len np have "node (s_peers s ! a) = nd" by simp
      with uniq a(1) \<open>a \<noteq> i\<close> show ?thesis by blast
    next
      assume "a \<noteq> i" "b \<noteq> i"
      with n a assms(1) show ?thesis by (auto simp: peers_ok_def NET_PEERS_def)
    qed simp
  qed (simp add: len)
  moreover have "p \<in> set ((s_peers s)[i := p])" using i(1) len by (simp add: set_update_memI)
  then have "\<exists>t. t \<noteq> 0 \<and> \<lparr>node = nd, rssi = word_of_int r, seen = t\<rparr> \<in> set ((s_peers s)[i := p])"
    by (intro exI [where x = "if now \<noteq> 0 then now else 1"]) (simp add: p_def)
  ultimately show ?thesis using i len unfolding eq
    by (intro conjI exI [where x = i]) (auto split: if_splits)
qed

lemma busy_report_interval:
  assumes "maybe_report_busy s d1 k1 t1 = (s1, [ev1])" "maybe_report_busy s1 d2 k2 t2 = (s2, [ev2])"
  shows "t2 - t1 \<ge> 300"
  using assms by (auto simp: maybe_report_busy_def not_less split: if_splits)

lemma net_poll_off:
  "s_active s \<Longrightarrow> \<not> s_active (fst (net_poll s now)) \<longleftrightarrow> now - s_last_rx s > NET_IDLE_TIMEOUT_MS"
  by (simp add: net_poll_def net_leave_def)

end
