(* ===== verification/Improv.thy ===== *)
theory Improv
  imports Byte_Stream
begin

text \<open>
  Improv Serial framing (\<open>src/src/core/improv.h\<close>): the byte-at-a-time packet parser, the
  packet builders and the RPC payload readers.  A \<open>char\<close> array holding a C string is its
  bytes up to the terminating NUL; \<open>feed\<close>'s result 0, -1, 1 is \<open>More\<close>, \<open>Bad\<close>, \<open>Got\<close>.
\<close>

definition VERSION :: u8 where "VERSION = 1"
definition TYPE_CURRENT_STATE :: u8 where "TYPE_CURRENT_STATE = 0x01"
definition TYPE_ERROR_STATE :: u8 where "TYPE_ERROR_STATE = 0x02"
definition TYPE_RPC :: u8 where "TYPE_RPC = 0x03"
definition TYPE_RPC_RESULT :: u8 where "TYPE_RPC_RESULT = 0x04"
definition STATE_READY :: u8 where "STATE_READY = 0x02"
definition STATE_PROVISIONING :: u8 where "STATE_PROVISIONING = 0x03"
definition STATE_PROVISIONED :: u8 where "STATE_PROVISIONED = 0x04"
definition ERROR_NONE :: u8 where "ERROR_NONE = 0x00"
definition ERROR_INVALID_RPC :: u8 where "ERROR_INVALID_RPC = 0x01"
definition ERROR_UNKNOWN_RPC :: u8 where "ERROR_UNKNOWN_RPC = 0x02"
definition ERROR_UNABLE_TO_CONNECT :: u8 where "ERROR_UNABLE_TO_CONNECT = 0x03"
definition ERROR_UNKNOWN :: u8 where "ERROR_UNKNOWN = 0xFF"
definition CMD_WIFI_SETTINGS :: u8 where "CMD_WIFI_SETTINGS = 0x01"
definition CMD_GET_CURRENT_STATE :: u8 where "CMD_GET_CURRENT_STATE = 0x02"
definition CMD_GET_DEVICE_INFO :: u8 where "CMD_GET_DEVICE_INFO = 0x03"
definition CMD_GET_WIFI_NETWORKS :: u8 where "CMD_GET_WIFI_NETWORKS = 0x04"
definition CMD_VOYAGER_NET_START :: u8 where "CMD_VOYAGER_NET_START = 0xF0"
definition VOYAGER_NET_PROTO :: bytes where "VOYAGER_NET_PROTO = [0x32]"
definition MAX_DATA :: nat where "MAX_DATA = 255"
definition MAX_PACKET :: nat where "MAX_PACKET = 6 + 3 + MAX_DATA + 1 + 1"

text \<open>The bytes of "IMPROV".\<close>

definition HDR :: bytes where "HDR = [0x49, 0x4D, 0x50, 0x52, 0x4F, 0x56]"

record Packet =
  pk_type :: u8
  pk_len :: u8
  pk_data :: bytes

definition Packet_init :: Packet where
  "Packet_init = \<lparr>pk_type = 0, pk_len = 0, pk_data = replicate MAX_DATA 0\<rparr>"

record Parser =
  pos :: nat
  got :: nat
  version :: u8
  sum :: u32
  pkt :: Packet

definition Parser_init :: Parser where
  "Parser_init = \<lparr>pos = 0, got = 0, version = 0, sum = 0, pkt = Packet_init\<rparr>"

datatype feed_result = More | Bad | Got Packet

section \<open>The parser\<close>

definition byte_sum :: "bytes \<Rightarrow> u32" where
  "byte_sum bs = foldl (\<lambda>s b. s + ucast b) 0 bs"

definition feed :: "Parser \<Rightarrow> u8 \<Rightarrow> Parser \<times> feed_result" where
  "feed q b =
     (if pos q < 6 then
        let pos' = (if b = HDR ! pos q then pos q + 1 else if b = 0x49 then 1 else 0)
        in (q\<lparr>pos := pos', sum := (if pos' > 0 then byte_sum (take pos' HDR) else 0)\<rparr>, More)
      else if pos q = 6 then (q\<lparr>version := b, sum := sum q + ucast b, pos := pos q + 1\<rparr>, More)
      else if pos q = 7 then (q\<lparr>pkt := (pkt q)\<lparr>pk_type := b\<rparr>, sum := sum q + ucast b, pos := pos q + 1\<rparr>, More)
      else if pos q = 8 then
        (q\<lparr>pkt := (pkt q)\<lparr>pk_len := b\<rparr>, sum := sum q + ucast b, pos := pos q + 1, got := 0\<rparr>, More)
      else if got q < unat (pk_len (pkt q)) then
        (q\<lparr>pkt := (pkt q)\<lparr>pk_data := (pk_data (pkt q))[got q := b]\<rparr>, got := got q + 1,
           sum := sum q + ucast b\<rparr>, More)
      else (q\<lparr>pos := 0\<rparr>,
            if b \<noteq> ucast (sum q AND 0xFF) \<or> version q \<noteq> VERSION then Bad else Got (pkt q)))"

definition parser_reset :: "Parser \<Rightarrow> Parser" where
  "parser_reset q = q\<lparr>pos := 0\<rparr>"

section \<open>Builders\<close>

definition build :: "u8 \<Rightarrow> bytes \<Rightarrow> nat \<Rightarrow> nat \<Rightarrow> bytes option" where
  "build type data len cap =
     (if len > MAX_DATA \<or> cap < 6 + 3 + len + 2 then None
      else let out = HDR @ [VERSION, type, word_of_nat len] @ take len data
           in Some (out @ [ucast (byte_sum out AND 0xFF), 0x0A]))"

definition build_state :: "u8 \<Rightarrow> nat \<Rightarrow> bytes option" where
  "build_state state cap = build TYPE_CURRENT_STATE [state] 1 cap"

definition build_error :: "u8 \<Rightarrow> nat \<Rightarrow> bytes option" where
  "build_error err cap = build TYPE_ERROR_STATE [err] 1 cap"

text \<open>The strings of an RPC result; a null pointer is \<open>None\<close>.  \<open>acc\<close> is what the loop has
  written behind the two bytes it fills in at the end.\<close>

fun rpc_result_loop :: "bytes option list \<Rightarrow> bytes \<Rightarrow> bytes option" where
  "rpc_result_loop [] acc = Some acc"
| "rpc_result_loop (s # strs) acc =
     (let str = (case s of None \<Rightarrow> [] | Some bs \<Rightarrow> bs);
          sl = (if length str > 255 then 255 else length str)
      in if 2 + length acc + 1 + sl > MAX_DATA then None
         else rpc_result_loop strs (acc @ word_of_nat sl # take sl str))"

definition build_rpc_result :: "u8 \<Rightarrow> bytes option list \<Rightarrow> nat \<Rightarrow> bytes option" where
  "build_rpc_result cmd strs cap =
     (case rpc_result_loop strs [] of
        None \<Rightarrow> None
      | Some body \<Rightarrow> build TYPE_RPC_RESULT (cmd # word_of_nat (length body) # body) (2 + length body) cap)"

section \<open>RPC payloads\<close>

definition rpc_command :: "Packet \<Rightarrow> (u8 \<times> bytes \<times> nat) option" where
  "rpc_command p =
     (if pk_type p \<noteq> TYPE_RPC \<or> pk_len p < 2 then None
      else if unat (pk_data p ! 1) + 2 > unat (pk_len p) then None
      else Some (pk_data p ! 0, drop 2 (pk_data p), unat (pk_data p ! 1)))"

definition parse_wifi_settings :: "bytes \<Rightarrow> nat \<Rightarrow> (bytes \<times> bytes) option" where
  "parse_wifi_settings payload plen =
     (if plen < 2 then None
      else let sl = unat (payload ! 0) in
        if sl < 1 \<or> sl > 32 \<or> 1 + sl + 1 > plen then None
        else let pl = unat (payload ! (1 + sl)) in
          if pl > 64 \<or> 1 + sl + 1 + pl > plen then None
          else Some (take sl (drop 1 payload), take pl (drop (2 + sl) payload)))"

lemmas improv_const_defs [codec_simps] = VERSION_def MAX_DATA_def HDR_def

section \<open>Memory safety of the parser\<close>

definition parser_inv :: "Parser \<Rightarrow> bool" where
  "parser_inv q \<longleftrightarrow> length (pk_data (pkt q)) = MAX_DATA \<and> pos q \<le> 9 \<and>
     (pos q = 9 \<longrightarrow> got q \<le> unat (pk_len (pkt q)))"

lemma parser_inv_init: "parser_inv Parser_init"
  by (simp add: parser_inv_def Parser_init_def Packet_init_def)

lemma feed_inv: "parser_inv q \<Longrightarrow> parser_inv (fst (feed q b))"
  by (auto simp: parser_inv_def feed_def Let_def)

text \<open>
  For every byte string the parser's write index stays inside the 255-byte data
  array, its position inside the packet, and a packet it delivers has a full data array.\<close>

lemma improv_feed_safe:
  "parser_inv (foldl (\<lambda>q b. fst (feed q b)) Parser_init bs) \<and>
   (let q = foldl (\<lambda>q b. fst (feed q b)) Parser_init bs in
      (pos q = 9 \<and> got q < unat (pk_len (pkt q)) \<longrightarrow> got q < length (pk_data (pkt q))) \<and>
      (case snd (feed q b) of Got p \<Rightarrow> length (pk_data p) = 255 | _ \<Rightarrow> True))"
proof -
  define q where "q = foldl (\<lambda>q b. fst (feed q b)) Parser_init bs"
  have inv: "parser_inv q" unfolding q_def
    by (rule foldl_invariant) (simp_all add: parser_inv_init feed_inv)
  then have "case snd (feed q b) of Got p \<Rightarrow> length (pk_data p) = 255 | _ \<Rightarrow> True"
    by (auto simp: feed_def parser_inv_def MAX_DATA_def Let_def)
  moreover have "got q < unat (pk_len (pkt q)) \<longrightarrow> got q < length (pk_data (pkt q))"
    using inv unat_u8_lt [of "pk_len (pkt q)"] unfolding parser_inv_def MAX_DATA_def by linarith
  ultimately show ?thesis using inv by (simp add: Let_def flip: q_def)
qed

section \<open>Packets on the wire\<close>

text \<open>What the parser delivers to its user: a packet as its type and its data bytes, or the
  report of a damaged packet.\<close>

datatype improv_msg = Damaged | Message u8 bytes

definition improv_step :: "Parser \<Rightarrow> u8 \<Rightarrow> Parser \<times> improv_msg option" where
  "improv_step q b =
     (case feed q b of
        (q', More) \<Rightarrow> (q', None)
      | (q', Bad) \<Rightarrow> (q', Some Damaged)
      | (q', Got p) \<Rightarrow> (q', Some (Message (pk_type p) (take (unat (pk_len p)) (pk_data p)))))"

definition improv_ready :: "Parser \<Rightarrow> bool" where
  "improv_ready q \<longleftrightarrow> length (pk_data (pkt q)) = MAX_DATA \<and> pos q < 6"

text \<open>The header puts every parser that is looking for one into the state behind it, even if
  it has already seen a part of another.\<close>

lemma byte_sum_foldl: "foldl (\<lambda>s b. s + ucast b) a bs = a + byte_sum bs"
  unfolding byte_sum_def
proof (induction bs arbitrary: a)
  case (Cons b bs)
  show ?case
    by (simp only: foldl.simps Cons.IH [of "a + ucast b"] Cons.IH [of "0 + ucast b"]) simp
qed simp

lemma byte_sum_append: "byte_sum (xs @ ys) = byte_sum xs + byte_sum ys"
proof -
  have "byte_sum (xs @ ys) = foldl (\<lambda>s b. s + ucast b) (byte_sum xs) ys" by (simp add: byte_sum_def)
  also have "\<dots> = byte_sum xs + byte_sum ys" by (rule byte_sum_foldl)
  finally show ?thesis .
qed

lemma byte_sum_Nil [simp]: "byte_sum [] = 0"
  by (simp add: byte_sum_def)

lemma byte_sum_Cons: "byte_sum (b # bs) = ucast b + byte_sum bs"
proof -
  have "byte_sum (b # bs) = foldl (\<lambda>s b. s + ucast b) (ucast b) bs" by (simp add: byte_sum_def)
  also have "\<dots> = ucast b + byte_sum bs" by (rule byte_sum_foldl)
  finally show ?thesis .
qed

lemma header_sync:
  assumes "pos q < 6"
  shows "run_feed improv_step q HDR = (q\<lparr>pos := 6, sum := byte_sum HDR\<rparr>, [])"
proof -
  have first: "improv_step q 0x49 = (q\<lparr>pos := 1, sum := byte_sum (take 1 HDR)\<rparr>, None)"
  proof -
    have "0x49 = HDR ! pos q \<longleftrightarrow> pos q = 0"
    proof -
      from assms have "pos q \<in> {0, 1, 2, 3, 4, 5}" by auto
      then show ?thesis by (auto simp: HDR_def)
    qed
    then show ?thesis using assms by (simp add: improv_step_def feed_def)
  qed
  have steps: "pos r = 1 \<Longrightarrow> improv_step r 77 = (r\<lparr>pos := 2, sum := byte_sum [73, 77]\<rparr>, None)"
    "pos r = 2 \<Longrightarrow> improv_step r 80 = (r\<lparr>pos := 3, sum := byte_sum [73, 77, 80]\<rparr>, None)"
    "pos r = 3 \<Longrightarrow> improv_step r 82 = (r\<lparr>pos := 4, sum := byte_sum [73, 77, 80, 82]\<rparr>, None)"
    "pos r = 4 \<Longrightarrow> improv_step r 79 = (r\<lparr>pos := 5, sum := byte_sum [73, 77, 80, 82, 79]\<rparr>, None)"
    "pos r = 5 \<Longrightarrow> improv_step r 86 = (r\<lparr>pos := 6, sum := byte_sum [73, 77, 80, 82, 79, 86]\<rparr>, None)"
    for r by (simp_all add: improv_step_def feed_def HDR_def)
  show ?thesis by (simp add: HDR_def first steps)
qed

text \<open>The three bytes behind the header.\<close>

lemma step_version:
  "pos q = 6 \<Longrightarrow> improv_step q b = (q\<lparr>version := b, sum := sum q + ucast b, pos := 7\<rparr>, None)"
  by (simp add: improv_step_def feed_def)

lemma step_type:
  "pos q = 7 \<Longrightarrow>
   improv_step q b = (q\<lparr>pkt := (pkt q)\<lparr>pk_type := b\<rparr>, sum := sum q + ucast b, pos := 8\<rparr>, None)"
  by (simp add: improv_step_def feed_def)

lemma step_len:
  "pos q = 8 \<Longrightarrow>
   improv_step q b =
     (q\<lparr>pkt := (pkt q)\<lparr>pk_len := b\<rparr>, sum := sum q + ucast b, pos := 9, got := 0\<rparr>, None)"
  by (simp add: improv_step_def feed_def)

lemma data_bytes:
  assumes "pos q = 9" "length (pk_data (pkt q)) = MAX_DATA" "got q + length bs \<le> unat (pk_len (pkt q))"
  shows "\<exists>q'. run_feed improv_step q bs = (q', []) \<and> pos q' = 9 \<and> got q' = got q + length bs \<and>
    version q' = version q \<and> sum q' = sum q + byte_sum bs \<and>
    pk_type (pkt q') = pk_type (pkt q) \<and> pk_len (pkt q') = pk_len (pkt q) \<and>
    length (pk_data (pkt q')) = MAX_DATA \<and>
    take (got q') (pk_data (pkt q')) = take (got q) (pk_data (pkt q)) @ bs"
  using assms
proof (induction bs arbitrary: q)
  case (Cons b bs)
  define q1 where "q1 = q\<lparr>pkt := (pkt q)\<lparr>pk_data := (pk_data (pkt q))[got q := b]\<rparr>, got := got q + 1,
     sum := sum q + ucast b\<rparr>"
  have step: "improv_step q b = (q1, None)"
    using Cons.prems by (simp add: improv_step_def feed_def q1_def)
  have lt: "got q < length (pk_data (pkt q))"
    using Cons.prems unat_u8_lt [of "pk_len (pkt q)"] unfolding MAX_DATA_def length_Cons by linarith
  have "take (Suc (got q)) ((pk_data (pkt q))[got q := b]) = take (got q) (pk_data (pkt q)) @ [b]"
    using lt by (simp add: take_Suc_conv_app_nth take_update_cancel)
  moreover have "\<exists>q'. run_feed improv_step q1 bs = (q', []) \<and> pos q' = 9 \<and> got q' = got q1 + length bs \<and>
    version q' = version q1 \<and> sum q' = sum q1 + byte_sum bs \<and>
    pk_type (pkt q') = pk_type (pkt q1) \<and> pk_len (pkt q') = pk_len (pkt q1) \<and>
    length (pk_data (pkt q')) = MAX_DATA \<and>
    take (got q') (pk_data (pkt q')) = take (got q1) (pk_data (pkt q1)) @ bs"
    using Cons.prems by (intro Cons.IH) (simp_all add: q1_def)
  ultimately show ?case by (auto simp: step q1_def byte_sum_Cons add.assoc)
qed simp

text \<open>
  A packet on the wire is judged by its version and checksum alone: from any
  state in which the parser looks for a header (also in the middle of a broken one), a packet
  with any type, any data of at most 255 bytes and any checksum byte is delivered with
  exactly its type and data if the version is 1 and the checksum is the byte sum modulo 256,
  and reported as damaged otherwise; the parser then looks for the next header.\<close>

lemma improv_packet_verdict:
  assumes "improv_ready q" and "length data \<le> 255"
  shows "\<exists>q'. improv_ready q' \<and> pos q' = 0 \<and>
    run_feed improv_step q (HDR @ [v, t, word_of_nat (length data)] @ data @ [c]) =
      (q', [if v = VERSION \<and>
               c = ucast (byte_sum (HDR @ [v, t, word_of_nat (length data)] @ data) AND 0xFF)
            then Message t data else Damaged])"
proof -
  define q1 where "q1 = q\<lparr>pos := 6, sum := byte_sum HDR\<rparr>"
  have h: "run_feed improv_step q HDR = (q1, [])"
    using header_sync assms(1) by (simp add: improv_ready_def q1_def)
  let ?l = "word_of_nat (length data) :: u8"
  define q2 where "q2 = q1\<lparr>version := v, pkt := \<lparr>pk_type = t, pk_len = ?l, pk_data = pk_data (pkt q)\<rparr>,
     sum := byte_sum HDR + (ucast v + (ucast t + ucast ?l)), pos := 9, got := 0\<rparr>"
  have s: "run_feed improv_step q1 [v, t, ?l] = (q2, [])"
    by (cases q; cases "pkt q")
      (simp add: step_version step_type step_len q1_def q2_def add.assoc)
  have len: "unat ?l = length data" using assms(2) by simp
  have q2: "pos q2 = 9" "length (pk_data (pkt q2)) = MAX_DATA" "got q2 = 0" "version q2 = v"
    "pk_type (pkt q2) = t" "pk_len (pkt q2) = ?l"
    using assms(1) by (simp_all add: q2_def q1_def improv_ready_def)
  then have "got q2 + length data \<le> unat (pk_len (pkt q2))" by (simp only: len)
  from data_bytes [OF q2(1,2) this] obtain q3
    where q3: "run_feed improv_step q2 data = (q3, [])" "pos q3 = 9" "got q3 = got q2 + length data"
      "version q3 = version q2" "sum q3 = sum q2 + byte_sum data" "pk_type (pkt q3) = pk_type (pkt q2)"
      "pk_len (pkt q3) = pk_len (pkt q2)" "length (pk_data (pkt q3)) = MAX_DATA"
      "take (got q3) (pk_data (pkt q3)) = take (got q2) (pk_data (pkt q2)) @ data"
    by blast
  note q3' = q3(2-4,6-9) [unfolded q2 q3(3)]
  have sum3: "sum q3 = byte_sum (HDR @ [v, t, ?l] @ data)"
    by (simp add: q3(5) q2_def byte_sum_append byte_sum_Cons add.assoc)
  have last: "run_feed improv_step q3 [c] = (q3\<lparr>pos := 0\<rparr>,
      [if v = VERSION \<and> c = ucast (sum q3 AND 0xFF) then Message t data else Damaged])"
    using q3' q3(3) q2 len by (simp add: improv_step_def feed_def)
  have "run_feed improv_step q (HDR @ [v, t, ?l] @ data @ [c]) = (q3\<lparr>pos := 0\<rparr>,
      [if v = VERSION \<and> c = ucast (sum q3 AND 0xFF) then Message t data else Damaged])"
    by (simp only: run_feed_append h s q3(1) last split_conv append_Nil)
  then show ?thesis using q3(8) by (auto simp: sum3 improv_ready_def)
qed

text \<open>The packet \<open>build\<close> writes, and the codec of parser and builder.\<close>

definition improv_packet :: "u8 \<Rightarrow> bytes \<Rightarrow> bytes" where
  "improv_packet type data =
     HDR @ [VERSION, type, word_of_nat (length data)] @ data @
     [ucast (byte_sum (HDR @ [VERSION, type, word_of_nat (length data)] @ data) AND 0xFF), 0x0A]"

lemma build_eq:
  "length data = len \<Longrightarrow> build type data len cap =
     (if len \<le> MAX_DATA \<and> 11 + len \<le> cap then Some (improv_packet type data) else None)"
  by (auto simp: build_def improv_packet_def Let_def)

lemma improv_packet_length: "length (improv_packet type data) = 11 + length data"
  by (simp add: improv_packet_def HDR_def)

fun improv_enc :: "improv_msg \<Rightarrow> bytes" where
  "improv_enc (Message type data) = improv_packet type data"
| "improv_enc Damaged = []"

fun improv_valid :: "improv_msg \<Rightarrow> bool" where
  "improv_valid (Message type data) \<longleftrightarrow> length data \<le> 255"
| "improv_valid Damaged \<longleftrightarrow> False"

lemma feed_newline:
  "improv_ready q \<Longrightarrow> pos q = 0 \<Longrightarrow>
   \<exists>q'. improv_ready q' \<and> run_feed improv_step q [0x0A] = (q', [])"
  by (simp add: improv_ready_def improv_step_def feed_def HDR_def)

interpretation improv: stream_codec improv_step improv_enc improv_ready improv_valid
proof unfold_locales
  fix q m assume q: "improv_ready q" and "improv_valid m"
  then obtain t data where m: "m = Message t data" "length data \<le> 255" by (cases m) auto
  define c :: u8 where "c = ucast (byte_sum (HDR @ [VERSION, t, word_of_nat (length data)] @ data) AND 0xFF)"
  from improv_packet_verdict [OF q m(2), of VERSION t c] obtain q1
    where q1: "improv_ready q1" "pos q1 = 0"
      "run_feed improv_step q (HDR @ [VERSION, t, word_of_nat (length data)] @ data @ [c]) = (q1, [Message t data])"
    by (auto simp: c_def)
  from feed_newline [OF q1(1,2)] obtain q2 where q2: "improv_ready q2" "run_feed improv_step q1 [0x0A] = (q2, [])"
    by blast
  have "improv_enc m = (HDR @ [VERSION, t, word_of_nat (length data)] @ data @ [c]) @ [0x0A]"
    by (simp add: m improv_packet_def c_def)
  then have "run_feed improv_step q (improv_enc m) = (q2, [m])"
    using q1(3) q2(2) m(1) by (simp only: run_feed_append) simp
  with q2(1) show "\<exists>s'. improv_ready s' \<and> run_feed improv_step q (improv_enc m) = (s', [m])" by blast
qed

text \<open>
  C9 (improv_roundtrip). Packets built by \<open>build\<close> one after the other, with whatever types and data of
  at most 255 bytes, are delivered by the parser exactly as they were built, starting in any
  state in which it looks for a header.\<close>

theorem improv_roundtrip:
  assumes "improv_ready q" and "\<forall>(t, d) \<in> set ms. length d \<le> 255"
  shows "\<exists>wire. those (map (\<lambda>(t, d). build t d (length d) MAX_PACKET) ms) = Some wire \<and>
    snd (run_feed improv_step q (concat wire)) = map (\<lambda>(t, d). Message t d) ms"
proof -
  have "those (map (\<lambda>(t, d). build t d (length d) MAX_PACKET) ms) =
      Some (map improv_enc (map (\<lambda>(t, d). Message t d) ms))"
    using assms(2) by (induction ms) (auto simp: build_eq MAX_DATA_def MAX_PACKET_def)
  moreover have "\<forall>m \<in> set (map (\<lambda>(t, d). Message t d) ms). improv_valid m" using assms(2) by auto
  ultimately show ?thesis using improv.messages [OF assms(1)] by (metis snd_conv)
qed

theorem improv_roundtrip_witness:
  "\<exists>wire. those (map (\<lambda>(t, d). build t d (length d) MAX_PACKET) [(3, [2, 0]), (1, [4])]) = Some wire \<and>
    snd (run_feed improv_step Parser_init (concat wire)) = [Message 3 [2, 0], Message 1 [4]]"
  using improv_roundtrip [of Parser_init "[(3, [2, 0]), (1, [4])]"]
  by (simp add: improv_ready_def Parser_init_def Packet_init_def)

section \<open>RPC results and commands\<close>

definition rpc_str :: "bytes option \<Rightarrow> bytes" where
  "rpc_str s = (let str = (case s of None \<Rightarrow> [] | Some bs \<Rightarrow> take 255 bs)
                in word_of_nat (length str) # str)"

lemma rpc_result_loop_eq:
  "2 + length acc \<le> MAX_DATA \<Longrightarrow> rpc_result_loop strs acc =
     (if 2 + length acc + length (concat (map rpc_str strs)) \<le> MAX_DATA
      then Some (acc @ concat (map rpc_str strs)) else None)"
proof (induction strs arbitrary: acc)
  case (Cons s strs)
  define str where "str = (case s of None \<Rightarrow> [] | Some bs \<Rightarrow> bs)"
  have r: "rpc_str s = word_of_nat (min 255 (length str)) # take 255 str"
    by (simp add: rpc_str_def str_def min.commute split: option.splits)
  have sl: "(if length str > 255 then 255 else length str) = min 255 (length str)" by simp
  have tk: "take (min 255 (length str)) str = take 255 str" by (simp add: min_def)
  have step: "rpc_result_loop (s # strs) acc =
      (if 2 + length acc + length (rpc_str s) > MAX_DATA then None
       else rpc_result_loop strs (acc @ rpc_str s))"
    unfolding rpc_result_loop.simps Let_def str_def [symmetric] sl tk by (simp add: r min.commute)
  show ?case
  proof (cases "2 + length acc + length (rpc_str s) > MAX_DATA")
    case False
    then have "2 + length (acc @ rpc_str s) \<le> MAX_DATA" by simp
    from Cons.IH [OF this] False show ?thesis by (simp add: step add.assoc del: rpc_result_loop.simps)
  qed (simp add: step del: rpc_result_loop.simps)
qed simp

text \<open>
  An RPC result of any strings either does not fit the 255-byte data area,
  and then nothing is sent, or it is one packet that a parser delivers as an RPC_RESULT whose
  data is the command, the exact length of the rest, and every string (cut at 255 bytes) behind
  its length byte.\<close>

lemma improv_rpc_result_parsed:
  assumes "improv_ready q"
  shows "case build_rpc_result cmd strs MAX_PACKET of
      None \<Rightarrow> 2 + length (concat (map rpc_str strs)) > 255
    | Some wire \<Rightarrow> length (concat (map rpc_str strs)) \<le> 253 \<and>
        snd (run_feed improv_step q wire) =
          [Message TYPE_RPC_RESULT
             (cmd # word_of_nat (length (concat (map rpc_str strs))) # concat (map rpc_str strs))]"
proof (cases "2 + length (concat (map rpc_str strs)) \<le> MAX_DATA")
  case True
  let ?d = "cmd # word_of_nat (length (concat (map rpc_str strs))) # concat (map rpc_str strs)"
  have "build_rpc_result cmd strs MAX_PACKET = Some (improv_enc (Message TYPE_RPC_RESULT ?d))"
    using True by (simp add: build_rpc_result_def rpc_result_loop_eq build_eq MAX_PACKET_def)
  moreover have "improv_valid (Message TYPE_RPC_RESULT ?d)" using True by (simp add: MAX_DATA_def)
  ultimately show ?thesis using improv.one_message [OF assms] True by (fastforce simp: MAX_DATA_def)
next
  case False
  then show ?thesis by (simp add: build_rpc_result_def rpc_result_loop_eq MAX_DATA_def)
qed

lemma rpc_commandD:
  "rpc_command p = Some (cmd, payload, plen) \<Longrightarrow>
     pk_type p = TYPE_RPC \<and> cmd = pk_data p ! 0 \<and> payload = drop 2 (pk_data p) \<and>
     plen = unat (pk_data p ! 1) \<and> plen + 2 \<le> unat (pk_len p)"
  by (auto simp: rpc_command_def split: if_splits)

lemma parse_wifi_settings_Some:
  "parse_wifi_settings payload plen = Some (ssid, pass) \<longleftrightarrow>
    (let sl = unat (payload ! 0); pl = unat (payload ! (1 + sl))
     in 2 \<le> plen \<and> (1 \<le> sl \<and> sl \<le> 32 \<and> 1 + sl + 1 \<le> plen) \<and> (pl \<le> 64 \<and> 1 + sl + 1 + pl \<le> plen) \<and>
        ssid = take sl (drop 1 payload) \<and> pass = take pl (drop (2 + sl) payload))"
  unfolding parse_wifi_settings_def Let_def
  by (simp only: if_distrib [where f = "\<lambda>x. x = Some (ssid, pass)"] option.simps prod.inject if_False not_less
      de_Morgan_disj eq_commute [of _ ssid] eq_commute [of _ pass] if_bool_eq_conj) (simp only: not_less [symmetric], blast)

text \<open>
  The WIFI_SETTINGS reader never reads past the payload the packet carries and
  only accepts a payload that is one length byte, an SSID of 1 to 32 bytes, one length byte
  and a password of at most 64 bytes, so both copies and their NUL fit the 33 and 65 byte
  buffers; every such payload is accepted with exactly these two strings.\<close>

lemma wifi_settings_sound:
  assumes "plen \<le> length payload"
  shows "parse_wifi_settings payload plen = Some (ssid, pass) \<longleftrightarrow>
    1 \<le> length ssid \<and> length ssid \<le> 32 \<and> length pass \<le> 64 \<and>
    (\<exists>rest. take plen payload = word_of_nat (length ssid) # ssid @ word_of_nat (length pass) # pass @ rest)"
proof
  assume *: "parse_wifi_settings payload plen = Some (ssid, pass)"
  define sl where "sl = unat (payload ! 0)"
  define pl where "pl = unat (payload ! (1 + sl))"
  have b: "2 \<le> plen" "1 \<le> sl" "sl \<le> 32" "1 + sl + 1 \<le> plen" "pl \<le> 64" "1 + sl + 1 + pl \<le> plen"
    "ssid = take sl (drop 1 payload)" "pass = take pl (drop (2 + sl) payload)"
    using * [unfolded parse_wifi_settings_Some Let_def, folded sl_def, folded pl_def] by blast+
  from b(4) assms have "sl \<le> length payload - 1" by linarith
  then have l1: "length ssid = sl" unfolding b(7) by (simp only: length_take length_drop min_absorb2)
  from b(6) assms have "pl \<le> length payload - (2 + sl)" by linarith
  then have l2: "length pass = pl" unfolding b(8) by (simp only: length_take length_drop min_absorb2)
  note l = l1 l2
  define tp where "tp = take plen payload"
  have tp1: "length tp = plen" using assms by (simp add: tp_def)
  have "0 < plen" "1 + sl < plen" using b(1,4) by linarith+
  then have tp2: "tp ! 0 = payload ! 0" "tp ! (1 + sl) = payload ! (1 + sl)"
    unfolding tp_def by (simp_all only: nth_take)
  have "min sl (plen - 1) = sl" "min pl (plen - (2 + sl)) = pl" using b(4,6) by linarith+
  then have tp3: "take sl (drop 1 tp) = ssid" "take pl (drop (2 + sl) tp) = pass"
    unfolding tp_def b(7,8) drop_take take_take by (simp_all only:)
  note tp = tp1 tp2 tp3
  have "tp = tp ! 0 # drop 1 tp" using tp(1) b(1) by (cases tp) auto
  moreover have "drop 1 tp = take sl (drop 1 tp) @ drop (1 + sl) tp" by (metis append_take_drop_id drop_drop add.commute)
  moreover have "drop (1 + sl) tp = tp ! (1 + sl) # drop (2 + sl) tp"
    using Cons_nth_drop_Suc [of "1 + sl" tp] tp(1) b(4) by simp
  moreover have "drop (2 + sl) tp = take pl (drop (2 + sl) tp) @ drop (2 + sl + pl) tp"
    by (metis append_take_drop_id drop_drop add.commute)
  ultimately have "tp = payload ! 0 # ssid @ payload ! (1 + sl) # pass @ drop (2 + sl + pl) tp"
    using tp by metis
  then show "1 \<le> length ssid \<and> length ssid \<le> 32 \<and> length pass \<le> 64 \<and>
    (\<exists>rest. take plen payload = word_of_nat (length ssid) # ssid @ word_of_nat (length pass) # pass @ rest)"
    using b l by (auto simp: tp_def sl_def pl_def)
next
  assume *: "1 \<le> length ssid \<and> length ssid \<le> 32 \<and> length pass \<le> 64 \<and>
    (\<exists>rest. take plen payload = word_of_nat (length ssid) # ssid @ word_of_nat (length pass) # pass @ rest)"
  then obtain rest where tp: "take plen payload =
      (word_of_nat (length ssid) :: u8) # ssid @ word_of_nat (length pass) # pass @ rest" by blast
  have "length (take plen payload) = plen" using assms by simp
  then have plen: "plen = 2 + length ssid + length pass + length rest" unfolding tp by simp
  obtain r2 where r2: "drop plen payload = r2" by simp
  have "payload = take plen payload @ r2" by (simp add: r2 [symmetric])
  then have pay: "payload = (word_of_nat (length ssid) :: u8) # ssid @ word_of_nat (length pass) # pass @ rest @ r2"
    by (simp only: tp append_Cons append_assoc)
  have u: "unat (word_of_nat (length ssid) :: u8) = length ssid" "unat (word_of_nat (length pass) :: u8) = length pass"
    using * by simp_all
  show "parse_wifi_settings payload plen = Some (ssid, pass)"
    unfolding parse_wifi_settings_Some Let_def pay plen using * u by (simp add: nth_append)
qed

end
