(* ===== verification/Json_Api.thy ===== *)
theory Json_Api
  imports Complex_Main Voy_Prelude
begin

text \<open>
  The JSON library (ArduinoJson, not part of the repository) as a parameter: a value of type
  \<open>'v json_api\<close> is one implementation of what the code calls, over its type \<open>'v\<close> of variants.
  No property of it is built in; the few documented facts a theorem needs are the named
  predicates below, which the theorem assumes.

  Strings are C strings: \<open>jstr\<close> is \<open>is<const char*>()\<close> with \<open>as<const char*>()\<close> read up to
  its NUL, \<open>jlong\<close> is \<open>is<long>()\<close> with \<open>as<long>()\<close> (32 bits on this target), \<open>jbool\<close>
  likewise, \<open>jasdouble\<close> is \<open>as<double>()\<close> as an exact rational, or \<open>None\<close> for an infinity or
  NaN.  \<open>jmember\<close> is \<open>v["key"]\<close>, \<open>jparse\<close> is \<open>deserializeJson\<close> (\<open>None\<close> on error).  Documents the
  code builds are values of \<open>jdoc\<close>, and \<open>jser\<close> is \<open>serializeJson\<close>.
\<close>

datatype jdoc =
    JNum int
  | JText string
  | JBoolean bool
  | JObject "(string \<times> jdoc) list"
  | JArray "jdoc list"

record 'v json_api =
  jparse :: "string \<Rightarrow> 'v option"
  jmember :: "'v \<Rightarrow> string \<Rightarrow> 'v"
  jnull :: "'v \<Rightarrow> bool"
  jobject :: "'v \<Rightarrow> bool"
  jstr :: "'v \<Rightarrow> string option"
  jbool :: "'v \<Rightarrow> bool option"
  jlong :: "'v \<Rightarrow> int option"
  jisdouble :: "'v \<Rightarrow> bool"
  jasdouble :: "'v \<Rightarrow> rat option"
  jser :: "jdoc \<Rightarrow> string"

text \<open>\<open>v["key"] | dflt\<close> for strings.\<close>

definition jstr_or :: "'v json_api \<Rightarrow> 'v \<Rightarrow> string \<Rightarrow> string \<Rightarrow> string" where
  "jstr_or J v key dflt = (case jstr J (jmember J v key) of None \<Rightarrow> dflt | Some s \<Rightarrow> s)"

section \<open>Documented behaviour\<close>

text \<open>An integer is not null and converts exactly to double (every \<open>long\<close> is below \<open>2 ^ 53\<close>).\<close>

definition json_integers :: "'v json_api \<Rightarrow> bool" where
  "json_integers J \<longleftrightarrow> (\<forall>v n. jlong J v = Some n \<longrightarrow> \<not> jnull J v \<and> jasdouble J v = Some (of_int n))"

text \<open>Parsing the text of one document of integer members gives an object with these members.\<close>

definition json_reads_ints :: "'v json_api \<Rightarrow> (string \<times> int) list \<Rightarrow> bool" where
  "json_reads_ints J kvs \<longleftrightarrow>
     (\<exists>v. jparse J (jser J (JObject (map (\<lambda>(k, n). (k, JNum n)) kvs))) = Some v \<and> jobject J v \<and>
        (\<forall>(k, n) \<in> set kvs. jlong J (jmember J v k) = Some n))"

text \<open>The same for a document of string members.\<close>

definition json_reads_texts :: "'v json_api \<Rightarrow> (string \<times> string) list \<Rightarrow> bool" where
  "json_reads_texts J kvs \<longleftrightarrow>
     (let s = jser J (JObject (map (\<lambda>(k, t). (k, JText t)) kvs)) in
      s \<noteq> [] \<and> (\<exists>v. jparse J s = Some v \<and> jobject J v \<and> (\<forall>(k, t) \<in> set kvs. jstr J (jmember J v k) = Some t)))"

section \<open>A small instance\<close>

text \<open>
  An implementation for evaluating examples: its texts are tables from keys to scalars, listed
  in \<open>known\<close>, the serializer names the text of each table, and nothing else parses.
\<close>

datatype jscalar = SNull | SInt int | SStr string | SBool bool | SFloat "rat option" | STable "(string \<times> jscalar) list"

definition toy_json :: "(string \<times> jscalar) list \<Rightarrow> (jdoc \<Rightarrow> string) \<Rightarrow> jscalar json_api" where
  "toy_json known ser =
     \<lparr>jparse = map_of known,
      jmember = (\<lambda>v k. case v of STable kvs \<Rightarrow> (case map_of kvs k of None \<Rightarrow> SNull | Some x \<Rightarrow> x) | _ \<Rightarrow> SNull),
      jnull = (\<lambda>v. v = SNull),
      jobject = (\<lambda>v. case v of STable kvs \<Rightarrow> True | _ \<Rightarrow> False),
      jstr = (\<lambda>v. case v of SStr s \<Rightarrow> Some s | _ \<Rightarrow> None),
      jbool = (\<lambda>v. case v of SBool b \<Rightarrow> Some b | _ \<Rightarrow> None),
      jlong = (\<lambda>v. case v of SInt n \<Rightarrow> Some n | _ \<Rightarrow> None),
      jisdouble = (\<lambda>v. case v of SInt n \<Rightarrow> True | SFloat q \<Rightarrow> True | _ \<Rightarrow> False),
      jasdouble = (\<lambda>v. case v of SInt n \<Rightarrow> Some (of_int n) | SFloat q \<Rightarrow> q | _ \<Rightarrow> Some 0),
      jser = ser\<rparr>"

lemma toy_integers: "json_integers (toy_json known ser)"
  by (auto simp: json_integers_def toy_json_def split: jscalar.splits)

end
