(* ===== verification/Lora_Config.thy ===== *)
theory Lora_Config
  imports Json_Api Lora_Airtime Lora_Dedup
begin

text \<open>
  The radio configuration and the LORA_MSG payload: \<open>src/src/lora/lora_proto.h\<close> lines 186-193
  and 282-380, the range checks of \<open>src/src/core/core_dispatch.h\<close> lines 99-129, and loading,
  saving and applying the configuration, \<open>src/src/lora/lora_support.cpp\<close> lines 78-177.

  \<open>long\<close> and \<open>int\<close> have 32 bits and hold the integers of the range checks.  Converting a
  \<open>double\<close> outside the range of \<open>long\<close> is undefined in C++: the result is the arbitrary
  function \<open>ub\<close>, and the theorems hold for every one.
\<close>

section \<open>The configuration (lora_proto.h)\<close>

record LoraConfig =
  freq :: int
  TxPower :: int
  SpreadingFactor :: int
  SignalBandwidth :: int
  CodingRate4 :: int
  SyncWord :: int

definition default_config :: LoraConfig where
  "default_config = \<lparr>freq = 510000000, TxPower = 10, SpreadingFactor = 8, SignalBandwidth = 500000,
     CodingRate4 = 7, SyncWord = 52\<rparr>"

definition valid_bandwidth :: "int \<Rightarrow> bool" where
  "valid_bandwidth bw \<longleftrightarrow>
     bw \<in> set [7800, 10400, 15600, 20800, 31250, 41700, 62500, 125000, 250000, 500000]"

text \<open>\<open>(long)d\<close>\<close>

definition c_long :: "(rat \<Rightarrow> int) \<Rightarrow> rat \<Rightarrow> int" where
  "c_long ub d =
     (let t = (if 0 \<le> d then \<lfloor>d\<rfloor> else \<lceil>d\<rceil>)
      in if - (2 ^ 31) \<le> t \<and> t < 2 ^ 31 then t else ub d)"

text \<open>The lambda \<open>num\<close> of \<open>config_from_json\<close>.  Against an infinity or NaN the comparison of
  line 309 fails whatever the conversion gives.\<close>

definition config_num :: "'v json_api \<Rightarrow> (rat \<Rightarrow> int) \<Rightarrow> 'v \<Rightarrow> string \<Rightarrow> int \<Rightarrow> int \<Rightarrow> int option" where
  "config_num J ub v k lo hi =
     (let f = jmember J v k in
      if jnull J f \<or> \<not> (jlong J f \<noteq> None \<or> jisdouble J f) then None
      else
        case jasdouble J f of
          None \<Rightarrow> None
        | Some d \<Rightarrow>
            if d \<noteq> of_int (c_long ub d) then None
            else let x = c_long ub d in if x < lo \<or> x > hi then None else Some x)"

definition config_from_json :: "'v json_api \<Rightarrow> (rat \<Rightarrow> int) \<Rightarrow> 'v \<Rightarrow> string + LoraConfig" where
  "config_from_json J ub v =
     (if \<not> jobject J v then Inl ''object''
      else case config_num J ub v ''freq'' 410000000 525000000 of
        None \<Rightarrow> Inl ''freq''
      | Some fr \<Rightarrow>
      (case config_num J ub v ''TxPower'' 2 20 of
        None \<Rightarrow> Inl ''TxPower''
      | Some txp \<Rightarrow>
      (case config_num J ub v ''SpreadingFactor'' 6 12 of
        None \<Rightarrow> Inl ''SpreadingFactor''
      | Some sf \<Rightarrow>
      (case config_num J ub v ''SignalBandwidth'' 7800 500000 of
        None \<Rightarrow> Inl ''SignalBandwidth''
      | Some bw \<Rightarrow>
      (if \<not> valid_bandwidth bw then Inl ''SignalBandwidth''
      else case config_num J ub v ''CodingRate4'' 5 8 of
        None \<Rightarrow> Inl ''CodingRate4''
      | Some cr \<Rightarrow>
      (case config_num J ub v ''SyncWord'' 0 255 of
        None \<Rightarrow> Inl ''SyncWord''
      | Some sw \<Rightarrow>
         Inr \<lparr>freq = fr, TxPower = txp, SpreadingFactor = sf, SignalBandwidth = bw, CodingRate4 = cr,
              SyncWord = sw\<rparr>))))))"

definition config_from_text :: "'v json_api \<Rightarrow> (rat \<Rightarrow> int) \<Rightarrow> string option \<Rightarrow> string + LoraConfig" where
  "config_from_text J ub text =
     (case text of
        None \<Rightarrow> Inl ''json''
      | Some s \<Rightarrow> (case jparse J s of None \<Rightarrow> Inl ''json'' | Some v \<Rightarrow> config_from_json J ub v))"

definition config_members :: "LoraConfig \<Rightarrow> (string \<times> int) list" where
  "config_members c =
     [(''freq'', freq c), (''TxPower'', TxPower c), (''SpreadingFactor'', SpreadingFactor c),
      (''SignalBandwidth'', SignalBandwidth c), (''CodingRate4'', CodingRate4 c), (''SyncWord'', SyncWord c)]"

text \<open>The text written to the buffer; 0 is \<open>None\<close>.\<close>

definition config_to_json :: "'v json_api \<Rightarrow> LoraConfig \<Rightarrow> nat \<Rightarrow> string option" where
  "config_to_json J c cap =
     (let txt = jser J (JObject (map (\<lambda>(k, n). (k, JNum n)) (config_members c)))
      in if cap = 0 \<or> length txt + 1 > cap then None else Some txt)"

section \<open>The dispatcher's range checks (core_dispatch.h)\<close>

definition core_lora_config_valid :: "'v json_api \<Rightarrow> 'v \<Rightarrow> bool" where
  "core_lora_config_valid J o' =
     (if jnull J o' then False
      else if \<exists>k \<in> set [''freq'', ''TxPower'', ''SpreadingFactor'', ''SignalBandwidth'', ''CodingRate4'', ''SyncWord''].
                jlong J (jmember J o' k) = None then False
      else
        let fr = the (jlong J (jmember J o' ''freq''));
            tx = the (jlong J (jmember J o' ''TxPower''));
            sf = the (jlong J (jmember J o' ''SpreadingFactor''));
            bw = the (jlong J (jmember J o' ''SignalBandwidth''));
            cr = the (jlong J (jmember J o' ''CodingRate4''));
            sw = the (jlong J (jmember J o' ''SyncWord''))
        in if fr < 410000000 \<or> fr > 525000000 then False
           else if tx < 2 \<or> tx > 20 then False
           else if sf < 6 \<or> sf > 12 then False
           else if cr < 5 \<or> cr > 8 then False
           else if sw < 0 \<or> sw > 255 then False
           else bw \<in> set [7800, 10400, 15600, 20800, 31250, 41700, 62500, 125000, 250000, 500000])"

definition core_lora_config_string_valid :: "'v json_api \<Rightarrow> string \<Rightarrow> bool" where
  "core_lora_config_string_valid J json =
     (case jparse J json of
        None \<Rightarrow> False
      | Some cfg \<Rightarrow> if \<not> jobject J cfg then False else core_lora_config_valid J cfg)"

section \<open>The LORA_MSG payload (lora_proto.h)\<close>

definition extract_mac_key :: "'v json_api \<Rightarrow> string option \<Rightarrow> u32" where
  "extract_mac_key J payload =
     (case payload of
        None \<Rightarrow> 1
      | Some p \<Rightarrow>
          (case jparse J p of
             None \<Rightarrow> 1
           | Some doc \<Rightarrow> hash_mac (jstr J (jmember J doc ''mac''))))"

datatype MsgKind = InvalidMsg | TextMsg | Sos | OtherAction

record LoraMsgInfo =
  m_kind :: MsgKind
  m_from :: string
  m_text :: string

definition LoraMsgInfo_init :: LoraMsgInfo where
  "LoraMsgInfo_init = \<lparr>m_kind = InvalidMsg, m_from = [], m_text = []\<rparr>"

definition parse_lora_msg :: "'v json_api \<Rightarrow> string option \<Rightarrow> LoraMsgInfo" where
  "parse_lora_msg J payload =
     (case payload of
        None \<Rightarrow> LoraMsgInfo_init
      | Some p \<Rightarrow>
      (case jparse J p of
        None \<Rightarrow> LoraMsgInfo_init
      | Some outer \<Rightarrow>
          let name = jstr_or J outer ''name'' [];
              mac = jstr_or J outer ''mac'' [];
              info = LoraMsgInfo_init\<lparr>m_from := (if name \<noteq> [] then name else mac)\<rparr>
          in case jstr J (jmember J outer ''data'') of
               None \<Rightarrow> info
             | Some inner_txt \<Rightarrow>
             (case jparse J inner_txt of
               None \<Rightarrow> info
             | Some inner \<Rightarrow>
                 let pt = jstr_or J inner ''pack_type'' [] in
                 if pt = ''msg'' then
                   (case jstr J (jmember J inner ''data'') of
                      None \<Rightarrow> info
                    | Some t \<Rightarrow> info\<lparr>m_text := t, m_kind := TextMsg\<rparr>)
                 else if pt = ''action'' then
                   (if jstr_or J inner ''data'' [] = ''sos'' then info\<lparr>m_kind := Sos\<rparr>
                    else info\<lparr>m_kind := OtherAction\<rparr>)
                 else info)))"

section \<open>Loading, saving and applying (lora_support.cpp)\<close>

text \<open>What the radio is told, in order.\<close>

datatype radio_call =
    Idle | SetFrequency int | SetTxPower int | SetSpreadingFactor int | SetSignalBandwidth int
  | SetCodingRate4 int | SetSyncWord int | EnableCrc | DisableInvertIQ | Receive

definition LoRa_rxMode :: "radio_call list" where
  "LoRa_rxMode = [DisableInvertIQ, Receive]"

definition LoRa_txMode :: "radio_call list" where
  "LoRa_txMode = [Idle, DisableInvertIQ]"

record RadioState =
  s_cfg :: LoraConfig
  s_ack_airtime_ms :: u32
  radio_log :: "radio_call list"

definition apply_config_locked :: "RadioState \<Rightarrow> LoraConfig \<Rightarrow> RadioState" where
  "apply_config_locked r c =
     r\<lparr>s_cfg := c,
       s_ack_airtime_ms := airtime_ms (SpreadingFactor c) (SignalBandwidth c) (CodingRate4 c) ACK_FRAME_LEN,
       radio_log := radio_log r @
         [Idle, SetFrequency (freq c), SetTxPower (TxPower c), SetSpreadingFactor (SpreadingFactor c),
          SetSignalBandwidth (SignalBandwidth c), SetCodingRate4 (CodingRate4 c), SetSyncWord (SyncWord c),
          EnableCrc] @ LoRa_rxMode\<rparr>"

text \<open>\<open>mutex_ok\<close>: \<open>lora_write_mutex\<close> was taken in time.\<close>

definition apply_config :: "RadioState \<Rightarrow> bool \<Rightarrow> LoraConfig \<Rightarrow> RadioState \<times> bool" where
  "apply_config r mutex_ok c = (if \<not> mutex_ok then (r, False) else (apply_config_locked r c, True))"

text \<open>The files, as \<open>read_file\<close> returns them.\<close>

definition LORA_CONFIG_PATH :: string where "LORA_CONFIG_PATH = ''/config/lora_config.json''"
definition LORA_DEFAULT_PATH :: string where "LORA_DEFAULT_PATH = ''/config/lora_default.json''"

definition read_config_file :: "'v json_api \<Rightarrow> (rat \<Rightarrow> int) \<Rightarrow> (string \<Rightarrow> string option) \<Rightarrow> string \<Rightarrow> LoraConfig option" where
  "read_config_file J ub read_file path =
     (case read_file path of
        None \<Rightarrow> None
      | Some text \<Rightarrow>
          if length text > 1024 then None
          else (case config_from_text J ub (Some text) of Inl err \<Rightarrow> None | Inr c \<Rightarrow> Some c))"

text \<open>The result \<open>False\<close> stands for \<open>lora_fatal\<close>, which never returns.\<close>

definition set_lora_parameters ::
    "'v json_api \<Rightarrow> (rat \<Rightarrow> int) \<Rightarrow> (string \<Rightarrow> string option) \<Rightarrow> bool \<Rightarrow> RadioState \<Rightarrow> RadioState \<times> bool" where
  "set_lora_parameters J ub read_file mutex_ok r =
     (let c = (case read_config_file J ub read_file LORA_CONFIG_PATH of
                 Some c \<Rightarrow> c
               | None \<Rightarrow>
                   (case read_config_file J ub read_file LORA_DEFAULT_PATH of
                      Some c \<Rightarrow> c
                    | None \<Rightarrow> default_config))
      in apply_config r mutex_ok c)"

datatype save_result = SaveInvalid string | SaveFailed | SavedRadioBusy | Saved

text \<open>\<open>write_ok\<close>: \<open>write_file_atomic\<close> succeeds.  The text it writes is part of the result.\<close>

definition save_lora_config ::
    "'v json_api \<Rightarrow> (rat \<Rightarrow> int) \<Rightarrow> bool \<Rightarrow> bool \<Rightarrow> RadioState \<Rightarrow> string \<Rightarrow> RadioState \<times> string option \<times> save_result" where
  "save_lora_config J ub write_ok mutex_ok r value =
     (case config_from_text J ub (Some value) of
        Inl err \<Rightarrow> (r, None, SaveInvalid err)
      | Inr c \<Rightarrow>
          (case config_to_json J c 192 of
             None \<Rightarrow> (r, None, SaveFailed)
           | Some js \<Rightarrow>
               if \<not> write_ok then (r, None, SaveFailed)
               else
                 (case apply_config r mutex_ok c of
                    (r', ok) \<Rightarrow> (r', Some js, if ok then Saved else SavedRadioBusy))))"

section \<open>What is accepted\<close>

text \<open>The ranges of Contract 5.\<close>

definition config_ok :: "LoraConfig \<Rightarrow> bool" where
  "config_ok c \<longleftrightarrow> 410000000 \<le> freq c \<and> freq c \<le> 525000000 \<and> 2 \<le> TxPower c \<and> TxPower c \<le> 20 \<and>
     6 \<le> SpreadingFactor c \<and> SpreadingFactor c \<le> 12 \<and> valid_bandwidth (SignalBandwidth c) \<and>
     5 \<le> CodingRate4 c \<and> CodingRate4 c \<le> 8 \<and> 0 \<le> SyncWord c \<and> SyncWord c \<le> 255"

lemma valid_bandwidth_range: "valid_bandwidth bw \<Longrightarrow> 7800 \<le> bw \<and> bw \<le> 500000"
  by (auto simp: valid_bandwidth_def)

lemma config_ok_radio_range: "config_ok c \<Longrightarrow> radio_range (SpreadingFactor c) (SignalBandwidth c) (CodingRate4 c)"
  using valid_bandwidth_range [of "SignalBandwidth c"] by (auto simp: config_ok_def radio_range_def)

lemma default_config_ok: "config_ok default_config"
  by (simp add: config_ok_def default_config_def valid_bandwidth_def)

text \<open>A member of a variant that is the number \<open>n\<close>, written as an integer or as a float.\<close>

definition is_number :: "'v json_api \<Rightarrow> 'v \<Rightarrow> int \<Rightarrow> bool" where
  "is_number J f n \<longleftrightarrow> \<not> jnull J f \<and> (jlong J f \<noteq> None \<or> jisdouble J f) \<and> jasdouble J f = Some (of_int n)"

lemma config_num_iff:
  assumes "- (2 ^ 31) \<le> lo" "hi < 2 ^ 31"
  shows "config_num J ub v k lo hi = Some n \<longleftrightarrow> is_number J (jmember J v k) n \<and> lo \<le> n \<and> n \<le> hi"
proof -
  have conv: "c_long ub (of_int n) = n" if "lo \<le> n" "n \<le> hi" for n
    using assms that by (simp add: c_long_def Let_def)
  show ?thesis
    by (auto simp: config_num_def is_number_def Let_def conv split: option.splits)
qed

lemma config_from_json_eq:
  "config_from_json J ub v = Inr c \<longleftrightarrow>
     jobject J v \<and> config_ok c \<and> (\<forall>(k, n) \<in> set (config_members c). is_number J (jmember J v k) n)"
proof -
  have "config_from_json J ub v = Inr c \<longleftrightarrow> jobject J v \<and>
      config_num J ub v ''freq'' 410000000 525000000 = Some (freq c) \<and>
      config_num J ub v ''TxPower'' 2 20 = Some (TxPower c) \<and>
      config_num J ub v ''SpreadingFactor'' 6 12 = Some (SpreadingFactor c) \<and>
      config_num J ub v ''SignalBandwidth'' 7800 500000 = Some (SignalBandwidth c) \<and>
      valid_bandwidth (SignalBandwidth c) \<and>
      config_num J ub v ''CodingRate4'' 5 8 = Some (CodingRate4 c) \<and>
      config_num J ub v ''SyncWord'' 0 255 = Some (SyncWord c)"
    unfolding config_from_json_def by (cases c) (auto split: option.splits)
  then show ?thesis using valid_bandwidth_range [of "SignalBandwidth c"]
    by (auto simp: config_num_iff config_ok_def config_members_def)
qed

lemma core_check_accepts:
  assumes "json_integers J" and "core_lora_config_string_valid J s"
  shows "\<exists>v c. jparse J s = Some v \<and> config_from_text J ub (Some s) = Inr c \<and>
    (\<forall>(k, n) \<in> set (config_members c). jlong J (jmember J v k) = Some n)"
proof -
  from assms(2) obtain v where v: "jparse J s = Some v" "jobject J v" "core_lora_config_valid J v"
    by (auto simp: core_lora_config_string_valid_def split: option.splits if_splits)
  define get where "get k = the (jlong J (jmember J v k))" for k
  define c where "c = \<lparr>freq = get ''freq'', TxPower = get ''TxPower'', SpreadingFactor = get ''SpreadingFactor'',
    SignalBandwidth = get ''SignalBandwidth'', CodingRate4 = get ''CodingRate4'', SyncWord = get ''SyncWord''\<rparr>"
  from v(3) have l: "\<forall>(k, n) \<in> set (config_members c). jlong J (jmember J v k) = Some n"
    and ok: "config_ok c"
    by (auto simp: core_lora_config_valid_def c_def get_def config_members_def config_ok_def valid_bandwidth_def
        Let_def split: if_splits)
  from l assms(1) have "\<forall>(k, n) \<in> set (config_members c). is_number J (jmember J v k) n"
    by (fastforce simp: json_integers_def is_number_def)
  with ok v(2) have "config_from_json J ub v = Inr c" by (simp add: config_from_json_eq)
  with v(1) l show ?thesis by (auto simp: config_from_text_def)
qed

text \<open>
  Whatever configuration the WebSocket dispatcher lets through is also accepted
  by the radio layer, with the same six values: the two range checks, written separately in
  two files, never disagree in the direction that would lose a validated request.\<close>

lemma core_check_implies_accepted:
  assumes "json_integers J" and "core_lora_config_string_valid J s"
  shows "\<exists>v c. jparse J s = Some v \<and> config_from_text J ub (Some s) = Inr c \<and>
    (\<forall>(k, n) \<in> set (config_members c). jlong J (jmember J v k) = Some n)"
  by (rule core_check_accepts [OF assms])

definition sample_json :: "jscalar json_api" where
  "sample_json = toy_json [(''cfg'', STable [(''freq'', SInt 433000000), (''TxPower'', SInt 14),
     (''SpreadingFactor'', SInt 9), (''SignalBandwidth'', SInt 125000), (''CodingRate4'', SInt 5),
     (''SyncWord'', SInt 18)])] (\<lambda>d. ''cfg'')"

definition sample_config :: LoraConfig where
  "sample_config = \<lparr>freq = 433000000, TxPower = 14, SpreadingFactor = 9, SignalBandwidth = 125000,
     CodingRate4 = 5, SyncWord = 18\<rparr>"

lemma sample_json_accepts: "config_from_text sample_json ub (Some ''cfg'') = Inr sample_config"
proof -
  have "config_from_json sample_json ub (the (jparse sample_json ''cfg'')) = Inr sample_config"
    unfolding config_from_json_eq
    by (simp add: sample_json_def sample_config_def toy_json_def config_ok_def config_members_def is_number_def
        valid_bandwidth_def)
  then show ?thesis by (simp add: config_from_text_def sample_json_def toy_json_def)
qed

text \<open>
  A JSON value is accepted as a radio configuration exactly when it is an object
  whose six members are numbers equal to integers in the permitted ranges, with one of the
  ten bandwidths, and the accepted configuration holds exactly these integers; what a
  conversion of an out-of-range number (undefined in C++) returns never matters.\<close>

lemma config_from_json_iff:
  "config_from_json J ub v = Inr c \<longleftrightarrow>
     jobject J v \<and> config_ok c \<and> (\<forall>(k, n) \<in> set (config_members c). is_number J (jmember J v k) n)"
  by (rule config_from_json_eq)

section \<open>Saved and applied configurations\<close>

definition radio_inv :: "RadioState \<Rightarrow> bool" where
  "radio_inv r \<longleftrightarrow> config_ok (s_cfg r) \<and>
     s_ack_airtime_ms r = airtime_ms (SpreadingFactor (s_cfg r)) (SignalBandwidth (s_cfg r)) (CodingRate4 (s_cfg r)) 5"

lemma apply_config_inv: "config_ok c \<Longrightarrow> radio_inv (fst (apply_config r True c))"
  by (simp add: apply_config_def apply_config_locked_def radio_inv_def ACK_FRAME_LEN_eq)

lemma accepted_text_ok: "config_from_text J ub t = Inr c \<Longrightarrow> config_ok c"
  by (auto simp: config_from_text_def config_from_json_eq split: option.splits)

lemma read_config_file_ok: "read_config_file J ub rf p = Some c \<Longrightarrow> config_ok c"
  by (auto simp: read_config_file_def split: option.splits if_splits sum.splits dest: accepted_text_ok)

text \<open>The registers of the radio chip after a list of calls.\<close>

datatype chip_mode = Standby | Listening

record Chip =
  ch_freq :: int
  ch_power :: int
  ch_sf :: int
  ch_bw :: int
  ch_cr :: int
  ch_sync :: int
  ch_crc :: bool
  ch_inverted :: "bool option"
  ch_mode :: chip_mode

fun chip_step :: "radio_call \<Rightarrow> Chip \<Rightarrow> Chip" where
  "chip_step Idle h = h\<lparr>ch_mode := Standby\<rparr>"
| "chip_step (SetFrequency x) h = h\<lparr>ch_freq := x\<rparr>"
| "chip_step (SetTxPower x) h = h\<lparr>ch_power := x\<rparr>"
| "chip_step (SetSpreadingFactor x) h = h\<lparr>ch_sf := x\<rparr>"
| "chip_step (SetSignalBandwidth x) h = h\<lparr>ch_bw := x\<rparr>"
| "chip_step (SetCodingRate4 x) h = h\<lparr>ch_cr := x\<rparr>"
| "chip_step (SetSyncWord x) h = h\<lparr>ch_sync := x\<rparr>"
| "chip_step EnableCrc h = h\<lparr>ch_crc := True\<rparr>"
| "chip_step DisableInvertIQ h = h\<lparr>ch_inverted := Some False\<rparr>"
| "chip_step Receive h = h\<lparr>ch_mode := Listening\<rparr>"

definition told :: "radio_call list \<Rightarrow> Chip \<Rightarrow> Chip" where
  "told calls h = fold chip_step calls h"

text \<open>A chip with the six values of a configuration, payload CRC on, normal IQ, listening.\<close>

definition chip_with :: "LoraConfig \<Rightarrow> Chip" where
  "chip_with c = \<lparr>ch_freq = freq c, ch_power = TxPower c, ch_sf = SpreadingFactor c, ch_bw = SignalBandwidth c,
     ch_cr = CodingRate4 c, ch_sync = SyncWord c, ch_crc = True, ch_inverted = Some False, ch_mode = Listening\<rparr>"

lemma told_applied: "told (radio_log (apply_config_locked r c)) h = chip_with c"
  by (simp add: told_def apply_config_locked_def LoRa_rxMode_def chip_with_def)

text \<open>A file that holds a usable configuration: at most 1024 characters, a JSON object whose six
  members are whole numbers in the permitted ranges.\<close>

definition stored_config :: "'v json_api \<Rightarrow> (string \<Rightarrow> string option) \<Rightarrow> string \<Rightarrow> LoraConfig \<Rightarrow> bool" where
  "stored_config J rf path c \<longleftrightarrow>
     (\<exists>txt v. rf path = Some txt \<and> length txt \<le> 1024 \<and> jparse J txt = Some v \<and> jobject J v \<and>
        is_number J (jmember J v ''freq'') (freq c) \<and> 410000000 \<le> freq c \<and> freq c \<le> 525000000 \<and>
        is_number J (jmember J v ''TxPower'') (TxPower c) \<and> 2 \<le> TxPower c \<and> TxPower c \<le> 20 \<and>
        is_number J (jmember J v ''SpreadingFactor'') (SpreadingFactor c) \<and>
          6 \<le> SpreadingFactor c \<and> SpreadingFactor c \<le> 12 \<and>
        is_number J (jmember J v ''SignalBandwidth'') (SignalBandwidth c) \<and>
          SignalBandwidth c \<in> {7800, 10400, 15600, 20800, 31250, 41700, 62500, 125000, 250000, 500000} \<and>
        is_number J (jmember J v ''CodingRate4'') (CodingRate4 c) \<and> 5 \<le> CodingRate4 c \<and> CodingRate4 c \<le> 8 \<and>
        is_number J (jmember J v ''SyncWord'') (SyncWord c) \<and> 0 \<le> SyncWord c \<and> SyncWord c \<le> 255)"

lemma read_config_file_iff: "read_config_file J ub rf path = Some c \<longleftrightarrow> stored_config J rf path c"
proof -
  have read: "read_config_file J ub rf path = Some c \<longleftrightarrow>
      (\<exists>txt. rf path = Some txt \<and> length txt \<le> 1024 \<and> config_from_text J ub (Some txt) = Inr c)"
    by (auto simp: read_config_file_def split: option.splits sum.splits)
  have parsed: "config_from_text J ub (Some s) = Inr c \<longleftrightarrow>
      (\<exists>v. jparse J s = Some v \<and> config_from_json J ub v = Inr c)" for s
    by (simp add: config_from_text_def split: option.splits)
  have object: "config_from_json J ub v = Inr c \<longleftrightarrow> jobject J v \<and>
        is_number J (jmember J v ''freq'') (freq c) \<and> 410000000 \<le> freq c \<and> freq c \<le> 525000000 \<and>
        is_number J (jmember J v ''TxPower'') (TxPower c) \<and> 2 \<le> TxPower c \<and> TxPower c \<le> 20 \<and>
        is_number J (jmember J v ''SpreadingFactor'') (SpreadingFactor c) \<and>
          6 \<le> SpreadingFactor c \<and> SpreadingFactor c \<le> 12 \<and>
        is_number J (jmember J v ''SignalBandwidth'') (SignalBandwidth c) \<and>
          SignalBandwidth c \<in> {7800, 10400, 15600, 20800, 31250, 41700, 62500, 125000, 250000, 500000} \<and>
        is_number J (jmember J v ''CodingRate4'') (CodingRate4 c) \<and> 5 \<le> CodingRate4 c \<and> CodingRate4 c \<le> 8 \<and>
        is_number J (jmember J v ''SyncWord'') (SyncWord c) \<and> 0 \<le> SyncWord c \<and> SyncWord c \<le> 255" for v
    unfolding config_from_json_eq config_ok_def config_members_def valid_bandwidth_def by simp meson
  show ?thesis unfolding read parsed object stored_config_def by simp
qed

text \<open>The configuration for this boot: the stored one, else the default file, else the values
  compiled in.\<close>

definition chosen_config :: "'v json_api \<Rightarrow> (string \<Rightarrow> string option) \<Rightarrow> LoraConfig \<Rightarrow> bool" where
  "chosen_config J rf c \<longleftrightarrow>
     stored_config J rf ''/config/lora_config.json'' c \<or>
     \<not> Ex (stored_config J rf ''/config/lora_config.json'') \<and>
       (stored_config J rf ''/config/lora_default.json'' c \<or>
        \<not> Ex (stored_config J rf ''/config/lora_default.json'') \<and>
          c = \<lparr>freq = 510000000, TxPower = 10, SpreadingFactor = 8, SignalBandwidth = 500000, CodingRate4 = 7,
               SyncWord = 52\<rparr>)"

lemma chosen_config_iff:
  "chosen_config J rf c \<longleftrightarrow>
     c = (case read_config_file J ub rf LORA_CONFIG_PATH of
            Some c \<Rightarrow> c
          | None \<Rightarrow> (case read_config_file J ub rf LORA_DEFAULT_PATH of Some c \<Rightarrow> c | None \<Rightarrow> default_config))"
  by (auto simp: chosen_config_def read_config_file_iff [of J ub, symmetric] LORA_CONFIG_PATH_def
      LORA_DEFAULT_PATH_def default_config_def split: option.splits)

lemma chosen_config_unique: "chosen_config J rf c \<Longrightarrow> chosen_config J rf c' \<Longrightarrow> c' = c"
  by (simp add: chosen_config_iff [where ub = "\<lambda>d. 0"])

lemma chosen_config_ok: "chosen_config J rf c \<Longrightarrow> config_ok c"
  using default_config_ok
  by (auto simp: chosen_config_iff [where ub = "\<lambda>d. 0"] split: option.splits dest: read_config_file_ok)

text \<open>
  C14 (set_lora_parameters_valid). At start-up the radio always gets a configuration inside the permitted
  ranges, whatever the two files contain: the stored configuration when the file holds an object
  of at most 1024 characters with six whole numbers in range, else the one of the default file
  under the same conditions, else the values compiled in. Whatever the chip held before, it is
  then told exactly the six values, payload CRC on and normal IQ, and it is listening; the copy
  the timing estimates use and the cached ACK airtime (of a five-byte frame) belong to the same
  values. When the radio mutex is not free the call fails and nothing is changed.\<close>

theorem set_lora_parameters_valid:
  "(\<exists>c r'. chosen_config J rf c \<and>
     410000000 \<le> freq c \<and> freq c \<le> 525000000 \<and> 2 \<le> TxPower c \<and> TxPower c \<le> 20 \<and>
     6 \<le> SpreadingFactor c \<and> SpreadingFactor c \<le> 12 \<and>
     SignalBandwidth c \<in> {7800, 10400, 15600, 20800, 31250, 41700, 62500, 125000, 250000, 500000} \<and>
     5 \<le> CodingRate4 c \<and> CodingRate4 c \<le> 8 \<and> 0 \<le> SyncWord c \<and> SyncWord c \<le> 255 \<and>
     set_lora_parameters J ub rf True r = (r', True) \<and> s_cfg r' = c \<and>
     s_ack_airtime_ms r' = airtime_ms (SpreadingFactor c) (SignalBandwidth c) (CodingRate4 c) 5 \<and>
     told (radio_log r') h =
       \<lparr>ch_freq = freq c, ch_power = TxPower c, ch_sf = SpreadingFactor c, ch_bw = SignalBandwidth c,
        ch_cr = CodingRate4 c, ch_sync = SyncWord c, ch_crc = True, ch_inverted = Some False,
        ch_mode = Listening\<rparr>) \<and>
   set_lora_parameters J ub rf False r = (r, False)"
proof -
  obtain c where c: "chosen_config J rf c" by (simp add: chosen_config_iff [where ub = ub])
  then have "set_lora_parameters J ub rf m r = apply_config r m c" for m
    by (simp add: set_lora_parameters_def chosen_config_iff [where ub = ub])
  with c chosen_config_ok [OF c] told_applied [of r c h] show ?thesis
    by (intro conjI exI [where x = c] exI [where x = "apply_config_locked r c"])
      (simp_all add: apply_config_def config_ok_def valid_bandwidth_def apply_config_locked_def ACK_FRAME_LEN_eq
        chip_with_def)
qed

definition sample_radio :: RadioState where
  "sample_radio = \<lparr>s_cfg = default_config, s_ack_airtime_ms = 0, radio_log = []\<rparr>"

definition sample_chip :: Chip where
  "sample_chip = \<lparr>ch_freq = 433000000, ch_power = 17, ch_sf = 7, ch_bw = 125000, ch_cr = 5, ch_sync = 18,
     ch_crc = False, ch_inverted = None, ch_mode = Standby\<rparr>"

lemma set_lora_parameters_applies:
  "chosen_config J rf c \<Longrightarrow> set_lora_parameters J ub rf m r = apply_config r m c"
  by (simp add: set_lora_parameters_def chosen_config_iff [where ub = ub])

text \<open>
  C15 (saved_config_survives_restart). A configuration that was saved is the one the radio works with: when
  the radio is free the chip is told exactly its six values at once and listens again; when the
  radio is busy nothing is touched and the save is reported as pending. The text written to
  the file is loaded at the next start as the same configuration: the chip, whatever it held,
  is then told the same six values, and the cached ACK airtime matches them.
  The hypotheses say that the JSON library reads back the integers it wrote and that the text
  of the six numbers fits the 192-byte buffer.\<close>

theorem saved_config_survives_restart:
  assumes "json_integers J" and "config_from_text J ub (Some value) = Inr c"
    and "json_reads_ints J (config_members c)"
    and "save_lora_config J ub True mutex_ok r value = (r', Some js, res)"
    and "rf LORA_CONFIG_PATH = Some js"
  shows "(if mutex_ok
     then res = Saved \<and> s_cfg r' = c \<and> radio_inv r' \<and> told (radio_log r') h = chip_with c
     else res = SavedRadioBusy \<and> r' = r) \<and>
    (\<exists>r''. set_lora_parameters J ub rf True r0 = (r'', True) \<and> s_cfg r'' = c \<and> radio_inv r'' \<and>
       told (radio_log r'') h = chip_with c)"
proof -
  have ok: "config_ok c" using assms(2) by (rule accepted_text_ok)
  have js: "config_to_json J c 192 = Some js"
    and res: "res = (if mutex_ok then Saved else SavedRadioBusy)" "r' = fst (apply_config r mutex_ok c)"
    using assms(2,4) by (auto simp: save_lora_config_def apply_config_def split: option.splits if_splits)
  then have len: "length js \<le> 1024" and js_txt: "js = jser J (JObject (map (\<lambda>(k, n). (k, JNum n)) (config_members c)))"
    by (auto simp: config_to_json_def Let_def split: if_splits)
  from assms(3) obtain v where v: "jparse J js = Some v" "jobject J v"
    "\<forall>(k, n) \<in> set (config_members c). jlong J (jmember J v k) = Some n"
    by (auto simp: json_reads_ints_def js_txt)
  then have "\<forall>(k, n) \<in> set (config_members c). is_number J (jmember J v k) n"
    using assms(1) by (fastforce simp: json_integers_def is_number_def)
  with v ok have "config_from_text J ub (Some js) = Inr c" by (simp add: config_from_text_def config_from_json_eq)
  then have "read_config_file J ub rf LORA_CONFIG_PATH = Some c" using assms(5) len by (simp add: read_config_file_def)
  then have "set_lora_parameters J ub rf True r0 = (fst (apply_config r0 True c), True)"
    by (simp add: set_lora_parameters_def apply_config_def)
  moreover have "s_cfg (fst (apply_config x True c)) = c" for x by (simp add: apply_config_def apply_config_locked_def)
  moreover have "told (radio_log (fst (apply_config x True c))) h = chip_with c" for x
    by (simp add: apply_config_def told_applied)
  moreover have "fst (apply_config r False c) = r" by (simp add: apply_config_def)
  ultimately show ?thesis using res apply_config_inv [OF ok] by simp
qed

theorem saved_config_survives_restart_witness:
  "\<exists>r''. set_lora_parameters sample_json (\<lambda>d. 0) (\<lambda>p. Some ''cfg'') True
      \<lparr>s_cfg = default_config, s_ack_airtime_ms = 0, radio_log = []\<rparr> = (r'', True) \<and> s_cfg r'' = sample_config \<and>
      ch_freq (told (radio_log r'') sample_chip) = 433000000"
proof -
  let ?r = "\<lparr>s_cfg = default_config, s_ack_airtime_ms = 0, radio_log = []\<rparr>"
  have reads: "json_reads_ints sample_json (config_members sample_config)"
    by (simp add: json_reads_ints_def sample_json_def sample_config_def toy_json_def config_members_def)
  have ints: "json_integers sample_json" unfolding sample_json_def by (rule toy_integers)
  have save: "save_lora_config sample_json (\<lambda>d. 0) True True ?r ''cfg'' =
      (apply_config_locked ?r sample_config, Some ''cfg'', Saved)"
  proof -
    have "config_to_json sample_json sample_config 192 = Some ''cfg''"
      by (simp add: config_to_json_def sample_json_def toy_json_def)
    then show ?thesis by (simp add: save_lora_config_def sample_json_accepts apply_config_def)
  qed
  show ?thesis
    using saved_config_survives_restart [OF ints sample_json_accepts reads save, of "\<lambda>p. Some ''cfg''" sample_chip ?r]
    by (auto simp: chip_with_def sample_config_def)
qed

end
