(* ===== verification/Lora_Tx.thy ===== *)
theory Lora_Tx
  imports Lora_Config Net_Mode
begin

text \<open>
  Transmission (\<open>src/src/lora/lora_support.cpp\<close>, lines 20-29, 200-408): the sequence counter,
  listen-before-talk, one frame on the air, the acknowledged transmission of a queued packet,
  and one turn of the TX task.

  What happens around the code is an argument: for every attempt to take the mutex whether
  it succeeds and what the two radio registers hold, the random numbers, whether
  \<open>beginPacket\<close> succeeds, and the acknowledgements the RX task hands over, each with the time
  since the transmission at which the waiting loop looks at it.  Times are milliseconds (the
  tick of this target is 1 ms).  The result lists what was done.
\<close>

section \<open>Sequence numbers\<close>

definition take_seq :: "u8 \<Rightarrow> u8 \<times> u8" where
  "take_seq next_seq = (next_seq + 1, next_seq)"

section \<open>Listen before talk\<close>

definition LORA_ACK_TIMEOUT_MS :: u32 where "LORA_ACK_TIMEOUT_MS = 5000"
definition NET_ACK_SLACK_MS :: u32 where "NET_ACK_SLACK_MS = 400"
definition IRQ_RX_DONE :: u8 where "IRQ_RX_DONE = 0x40"
definition MODEM_BUSY :: u8 where "MODEM_BUSY = 0x0B"
definition LBT_TRIES :: nat where "LBT_TRIES = 12"

record lbt_env =
  mutex_taken :: bool
  modem_stat :: u8
  irq_flags :: u8
  lbt_rnd :: u32

definition channel_busy :: "lbt_env \<Rightarrow> bool" where
  "channel_busy e \<longleftrightarrow> modem_stat e AND MODEM_BUSY \<noteq> 0 \<or> irq_flags e AND IRQ_RX_DONE \<noteq> 0"

text \<open>The loop from its \<open>i\<close>-th pass: whether it returns with the mutex held, and the delays made
  with the mutex released.\<close>

function take_radio_clear_channel :: "bool \<Rightarrow> (nat \<Rightarrow> lbt_env) \<Rightarrow> nat \<Rightarrow> bool \<times> u32 list" where
  "take_radio_clear_channel lbt env i =
     (if \<not> mutex_taken (env i) then (False, [])
      else if \<not> lbt \<or> i \<ge> LBT_TRIES then (True, [])
      else if \<not> channel_busy (env i) then (True, [])
      else case take_radio_clear_channel lbt env (i + 1) of
             (r, ds) \<Rightarrow> (r, (20 + lbt_rnd (env i) mod 100) # ds))"
  by pat_completeness auto
termination by (relation "measure (\<lambda>(lbt, env, i). LBT_TRIES - i)") auto

declare take_radio_clear_channel.simps [simp del]

section \<open>One frame\<close>

text \<open>The radio as the interrupt handler and the other tasks see it.\<close>

record Radio =
  mutex_held :: bool
  tx_in_progress :: bool
  receiving :: bool
  on_air :: "bytes list"

definition radio_idle :: "Radio \<Rightarrow> bool" where
  "radio_idle r \<longleftrightarrow> \<not> mutex_held r \<and> \<not> tx_in_progress r \<and> receiving r"

definition lora_tx_frame :: "Radio \<Rightarrow> (nat \<Rightarrow> lbt_env) \<Rightarrow> bool \<Rightarrow> bytes \<Rightarrow> bool \<Rightarrow> Radio \<times> bool \<times> u32 list" where
  "lora_tx_frame r env begin_ok frame lbt =
     (case take_radio_clear_channel lbt env 0 of
        (False, ds) \<Rightarrow> (r, False, ds)
      | (True, ds) \<Rightarrow>
          let r = r\<lparr>mutex_held := True\<rparr>;
              r = r\<lparr>tx_in_progress := True\<rparr>;
              r = r\<lparr>receiving := False\<rparr>;
              r = (if begin_ok then r\<lparr>on_air := on_air r @ [frame]\<rparr> else r);
              r = r\<lparr>receiving := True\<rparr>;
              r = r\<lparr>tx_in_progress := False\<rparr>;
              r = r\<lparr>mutex_held := False\<rparr>
          in (r, begin_ok, ds))"

text \<open>\<open>onReceive\<close>: whether the interrupt wakes the RX task.\<close>

definition onReceive :: "Radio \<Rightarrow> bool \<Rightarrow> bool" where
  "onReceive r rx_task_exists \<longleftrightarrow> \<not> (tx_in_progress r \<or> \<not> rx_task_exists)"

definition LoRa_send :: "Radio \<Rightarrow> (nat \<Rightarrow> lbt_env) \<Rightarrow> bool \<Rightarrow> bytes \<Rightarrow> u8 \<Rightarrow> u8 \<Rightarrow> Radio \<times> bool" where
  "LoRa_send r env begin_ok data type seq =
     (if length data > LORA_MAX_PAYLOAD then (r, False)
      else
        case frame_packet type seq (Some data) (length data) (Some MAX_FRAME) of
          None \<Rightarrow> (r, False)
        | Some frame \<Rightarrow> (case lora_tx_frame r env begin_ok frame True of (r', ok, ds) \<Rightarrow> (r', ok)))"

definition LoRa_sendAkn :: "Radio \<Rightarrow> (nat \<Rightarrow> lbt_env) \<Rightarrow> bool \<Rightarrow> u8 \<Rightarrow> u8 \<Rightarrow> Radio" where
  "LoRa_sendAkn r env begin_ok seq result =
     (case frame_ack seq result (Some (HEADER_LEN + 1)) of
        None \<Rightarrow> r
      | Some frame \<Rightarrow> fst (lora_tx_frame r env begin_ok frame False))"

section \<open>Acknowledged transmission\<close>

text \<open>The acknowledgement queue as the waiting loop meets it during one attempt: pairs of the
  elapsed time when the loop looks and the item it then receives.  When no more item comes
  before the timeout, the queue read fails.\<close>

fun wait_ack :: "TxRetry \<Rightarrow> u32 \<Rightarrow> (u32 \<times> u16) list \<Rightarrow> TxRetry \<times> TxAction" where
  "wait_ack t ack_timeout [] = tx_on_timeout t"
| "wait_ack t ack_timeout ((elapsed, v) # rest) =
     (if elapsed \<ge> ack_timeout then tx_on_timeout t
      else
        case tx_on_ack t (hi8 v) (lo8 v) of
          (t', Wait) \<Rightarrow> wait_ack t' ack_timeout rest
        | (t', a) \<Rightarrow> (t', a))"

record attempt_env =
  a_lbt :: "nat \<Rightarrow> lbt_env"
  a_begin_ok :: bool
  a_acks :: "(u32 \<times> u16) list"
  a_rnd :: u32

datatype tx_log = Attempt u8 bool | Backoff u32

text \<open>The retry loop from its \<open>i\<close>-th pass.  It has no bound of its own: \<open>None\<close> is not returning.\<close>

partial_function (option) send_loop ::
    "(nat \<Rightarrow> attempt_env) \<Rightarrow> bytes \<Rightarrow> u8 \<Rightarrow> u32 \<Rightarrow> u32 \<Rightarrow> nat \<Rightarrow> TxRetry \<Rightarrow> Radio \<Rightarrow>
       (Radio \<times> bool \<times> tx_log list) option" where
  "send_loop env message type ack_timeout backoff_max i t r =
     (let e = env i in
      case LoRa_send r (a_lbt e) (a_begin_ok e) message type (t_seq t) of
        (r', sent) \<Rightarrow>
          (case (if \<not> sent then tx_on_timeout t else wait_ack t ack_timeout (a_acks e)) of
             (t', a) \<Rightarrow>
               if a = Success then Some (r', True, [Attempt (t_seq t) sent])
               else if a = Fail then Some (r', False, [Attempt (t_seq t) sent])
               else
                 Option.bind (send_loop env message type ack_timeout backoff_max (i + 1) t' r')
                   (\<lambda>(r'', ok, l).
                      Some (r'', ok,
                        Attempt (t_seq t) sent # Backoff (retry_backoff_ms (a_rnd e) backoff_max) # l))))"

text \<open>\<open>send_with_retry\<close>: the new sequence counter, the radio, the result and the log.\<close>

definition send_with_retry ::
    "RadioState \<Rightarrow> (nat \<Rightarrow> attempt_env) \<Rightarrow> u8 \<Rightarrow> Radio \<Rightarrow> QueueParam \<Rightarrow> (u8 \<times> Radio \<times> bool \<times> tx_log list) option" where
  "send_with_retry cfg env next_seq r p =
     (if q_type p \<noteq> LORA_MSG \<and> q_type p \<noteq> LORA_NET then Some (next_seq, r, False, [])
      else
        let net = (q_type p = LORA_NET) in
        if net \<and> length (q_message p) \<ge> 2 \<and> join8 (q_message p ! 0) (q_message p ! 1) = NET_BROADCAST then
          (case take_seq next_seq of
             (next_seq', seq) \<Rightarrow>
               (case LoRa_send r (a_lbt (env 0)) (a_begin_ok (env 0)) (q_message p) (q_type p) seq of
                  (r', ok) \<Rightarrow> Some (next_seq', r', ok, [Attempt seq ok])))
        else if length (q_message p) > LORA_MAX_PAYLOAD then Some (next_seq, r, False, [])
        else
          let c = s_cfg cfg;
              data_air = airtime_ms (SpreadingFactor c) (SignalBandwidth c) (CodingRate4 c)
                           (HEADER_LEN + length (q_message p));
              backoff_max = retry_backoff_max_ms data_air (s_ack_airtime_ms cfg);
              ack_timeout = (if net then NET_ACK_SLACK_MS + 2 * s_ack_airtime_ms cfg
                             else LORA_ACK_TIMEOUT_MS + s_ack_airtime_ms cfg)
          in case take_seq next_seq of
               (next_seq', seq) \<Rightarrow>
                 map_option (\<lambda>(r', ok, l). (next_seq', r', ok, l))
                   (send_loop env (q_message p) (q_type p) ack_timeout backoff_max 0
                      (tx_begin \<lparr>t_seq = 0, attempts = 0, t_done = False\<rparr> seq) r))"

section \<open>One turn of the TX task\<close>

datatype tx_event =
    TxStarted u32 u32 u8
  | OledLora bool
  | OledPacket bool
  | TxAlert
  | TxResult u32 bool

definition send_tx_started :: "RadioState \<Rightarrow> u32 \<Rightarrow> nat \<Rightarrow> tx_event" where
  "send_tx_started cfg i payload_len =
     (let c = s_cfg cfg
      in TxStarted i (tx_expected_ms (SpreadingFactor c) (SignalBandwidth c) (CodingRate4 c)
                        (HEADER_LEN + payload_len) LORA_ACK_TIMEOUT_MS) TX_ATTEMPTS)"

definition LoRa_sendRaw_step ::
    "RadioState \<Rightarrow> (nat \<Rightarrow> attempt_env) \<Rightarrow> u8 \<Rightarrow> Radio \<Rightarrow> QueueParam \<Rightarrow> (u8 \<times> Radio \<times> tx_event list) option" where
  "LoRa_sendRaw_step cfg env next_seq r p =
     map_option
       (\<lambda>(next_seq', r', ok, l).
          (next_seq', r',
             (if q_id p \<noteq> 0 then [send_tx_started cfg (q_id p) (length (q_message p))] else []) @
             [OledLora True, OledLora False, OledPacket ok] @
             (if \<not> ok \<and> q_type p \<noteq> LORA_NET then [TxAlert] else []) @
             (if q_id p \<noteq> 0 then [TxResult (q_id p) ok] else [])))
       (send_with_retry cfg env next_seq r p)"

section \<open>Listening and sending one frame\<close>

lemma lbt_delays:
  "take_radio_clear_channel lbt env i = (ok, ds) \<Longrightarrow>
   length ds \<le> LBT_TRIES - i \<and> (\<forall>d \<in> set ds. 20 \<le> unat d \<and> unat d < 120) \<and> (\<not> lbt \<longrightarrow> ds = [])"
proof (induction lbt env i arbitrary: ok ds rule: take_radio_clear_channel.induct)
  case (1 lbt env i)
  have d: "20 \<le> unat (20 + x mod 100 :: u32) \<and> unat (20 + x mod 100 :: u32) < 120" for x
  proof -
    have "unat (x mod 100) < 100" by (simp add: unat_mod)
    then show ?thesis by (simp add: unat_word_ariths)
  qed
  show ?case
  proof (cases "mutex_taken (env i) \<and> \<not> (\<not> lbt \<or> i \<ge> LBT_TRIES) \<and> channel_busy (env i)")
    case True
    obtain r rest where rec: "take_radio_clear_channel lbt env (i + 1) = (r, rest)" by fastforce
    from True "1.prems" rec have ds: "ok = r" "ds = (20 + lbt_rnd (env i) mod 100) # rest"
      by (subst (asm) take_radio_clear_channel.simps, simp)+
    from "1.IH" [OF _ _ _ rec] True d [of "lbt_rnd (env i)"] show ?thesis by (auto simp: ds)
  next
    case False
    with "1.prems" have "ds = []"
      by (subst (asm) take_radio_clear_channel.simps) (auto split: if_splits)
    then show ?thesis by simp
  qed
qed

lemma lora_tx_frame_result:
  assumes "lora_tx_frame r env b frame lbt = (r', ok, ds)" "radio_idle r"
  shows "radio_idle r' \<and> on_air r' = on_air r @ (if ok then [frame] else []) \<and>
    ok = (fst (take_radio_clear_channel lbt env 0) \<and> b)"
  using assms by (cases r) (auto simp: lora_tx_frame_def radio_idle_def Let_def split: prod.splits bool.splits)

text \<open>
  Sending one frame makes at most twelve delays of 20 to 119 ms before it
  transmits (none for an acknowledgement), puts the frame on the air at most once and exactly
  when it reports success, and always leaves the radio receiving, with the mutex released and
  the interrupt handler enabled.\<close>

lemma frame_transmission:
  assumes "lora_tx_frame r env b frame lbt = (r', ok, ds)" and "radio_idle r"
  shows "length ds \<le> 12 \<and> (\<forall>d \<in> set ds. 20 \<le> unat d \<and> unat d < 120) \<and> (\<not> lbt \<longrightarrow> ds = []) \<and>
    radio_idle r' \<and> on_air r' = on_air r @ (if ok then [frame] else []) \<and> onReceive r' True"
proof -
  obtain c where "take_radio_clear_channel lbt env 0 = (c, ds)"
    using assms(1) by (auto simp: lora_tx_frame_def Let_def split: prod.splits bool.splits)
  from lbt_delays [OF this] lora_tx_frame_result [OF assms] show ?thesis
    by (auto simp: LBT_TRIES_def radio_idle_def onReceive_def)
qed

definition quiet_env :: "nat \<Rightarrow> lbt_env" where
  "quiet_env i = \<lparr>mutex_taken = True, modem_stat = 0x10, irq_flags = 0, lbt_rnd = 7\<rparr>"

definition idle_radio :: Radio where
  "idle_radio = \<lparr>mutex_held = False, tx_in_progress = False, receiving = True, on_air = []\<rparr>"

lemma quiet_channel: "take_radio_clear_channel lbt quiet_env 0 = (True, [])"
  by (subst take_radio_clear_channel.simps)
    (simp add: quiet_env_def channel_busy_def MODEM_BUSY_def IRQ_RX_DONE_def)

section \<open>The retry loop\<close>

definition sendable :: "attempt_env \<Rightarrow> bool" where
  "sendable e \<longleftrightarrow> fst (take_radio_clear_channel True (a_lbt e) 0) \<and> a_begin_ok e"

text \<open>The first acknowledgement for \<open>seq\<close> that is looked at in time is positive.\<close>

definition acked :: "u8 \<Rightarrow> u32 \<Rightarrow> (u32 \<times> u16) list \<Rightarrow> bool" where
  "acked seq T acks =
     (case dropWhile (\<lambda>(el, v). el < T \<and> hi8 v \<noteq> seq) acks of
        [] \<Rightarrow> False
      | (el, v) # _ \<Rightarrow> el < T \<and> lo8 v = ACK_OK)"

lemma wait_ack_eq:
  assumes "tx_live t"
  shows "wait_ack t T acks =
    (if acked (t_seq t) T acks then (t\<lparr>t_done := True\<rparr>, Success) else tx_next_attempt_or_fail t)"
proof (induction acks)
  case Nil
  then show ?case by (simp add: acked_def tx_on_timeout_live [OF assms])
next
  case (Cons x acks)
  obtain el v where x: "x = (el, v)" by (cases x)
  have w: "snd (tx_next_attempt_or_fail t) \<noteq> Wait" "snd (tx_next_attempt_or_fail t) \<noteq> Success"
    by (simp_all add: tx_next_attempt_or_fail_def)
  show ?case
  proof (cases "el < T \<and> hi8 v \<noteq> t_seq t")
    case True
    then show ?thesis using Cons.IH by (simp add: x acked_def tx_on_ack_live [OF assms] not_le [symmetric])
  next
    case False
    then show ?thesis using w
      by (cases "tx_next_attempt_or_fail t"; cases "snd (tx_next_attempt_or_fail t)")
        (auto simp: x acked_def tx_on_ack_live [OF assms] tx_on_timeout_live [OF assms] not_le)
  qed
qed

lemma wait_ack_not_acked: "tx_live t \<Longrightarrow> snd (tx_next_attempt_or_fail t) \<noteq> Success"
  by (simp add: tx_next_attempt_or_fail_def)

definition data_type :: "u8 \<Rightarrow> bool" where
  "data_type ty \<longleftrightarrow> ty \<noteq> T_REC_AKNG \<and> ty \<le> T_NET"

lemma LoRa_send_result:
  assumes "radio_idle r" "length message \<le> 251" "data_type ty"
    and "frame_packet ty seq (Some message) (length message) (Some MAX_FRAME) = Some frame"
    and "LoRa_send r (a_lbt e) (a_begin_ok e) message ty seq = (r', sent)"
  shows "radio_idle r' \<and> sent = sendable e \<and> on_air r' = on_air r @ (if sendable e then [frame] else [])"
proof -
  have "(case lora_tx_frame r (a_lbt e) (a_begin_ok e) frame True of (r', ok, ds) \<Rightarrow> (r', ok)) = (r', sent)"
    using assms(2,4,5) by (simp add: LoRa_send_def LORA_MAX_PAYLOAD_def)
  then obtain ds where "lora_tx_frame r (a_lbt e) (a_begin_ok e) frame True = (r', sent, ds)"
    by (auto split: prod.splits)
  from lora_tx_frame_result [OF this assms(1)] show ?thesis by (auto simp: sendable_def)
qed

text \<open>The reference: at most \<open>n\<close> attempts, each either acknowledged or followed by a backoff.\<close>

fun retry_spec :: "(nat \<Rightarrow> attempt_env) \<Rightarrow> u8 \<Rightarrow> u32 \<Rightarrow> u32 \<Rightarrow> nat \<Rightarrow> nat \<Rightarrow> bool \<times> tx_log list" where
  "retry_spec env seq T B i 0 = (False, [])"
| "retry_spec env seq T B i (Suc n) =
     (let e = env i; s = sendable e in
      if s \<and> acked seq T (a_acks e) then (True, [Attempt seq s])
      else if n = 0 then (False, [Attempt seq s])
      else case retry_spec env seq T B (Suc i) n of
             (ok, l) \<Rightarrow> (ok, Attempt seq s # Backoff (retry_backoff_ms (a_rnd e) B) # l))"

text \<open>The frames a log stands for.\<close>

definition log_frames :: "bytes \<Rightarrow> tx_log list \<Rightarrow> bytes list" where
  "log_frames frame l = replicate (length (filter (\<lambda>x. case x of Attempt s sent \<Rightarrow> sent | _ \<Rightarrow> False) l)) frame"

lemma log_frames_simps [simp]:
  "log_frames frame [] = []"
  "log_frames frame (Attempt s sent # l) = (if sent then [frame] else []) @ log_frames frame l"
  "log_frames frame (Backoff b # l) = log_frames frame l"
  by (simp_all add: log_frames_def)

lemma send_loop_refines:
  assumes "tx_live t" "radio_idle r" "length message \<le> 251" "data_type ty"
    and frame: "frame_packet ty (t_seq t) (Some message) (length message) (Some MAX_FRAME) = Some frame"
  shows "\<exists>r'. radio_idle r' \<and>
    on_air r' = on_air r @ log_frames frame (snd (retry_spec env (t_seq t) T B i (5 - unat (attempts t)))) \<and>
    send_loop env message ty T B i t r =
      Some (r', retry_spec env (t_seq t) T B i (5 - unat (attempts t)))"
  using assms
proof (induction "5 - unat (attempts t)" arbitrary: t r i)
  case 0
  then show ?case by (simp add: tx_live_def)
next
  case (Suc n)
  let ?e = "env i"
  obtain r1 sent where send: "LoRa_send r (a_lbt ?e) (a_begin_ok ?e) message ty (t_seq t) = (r1, sent)" by fastforce
  from LoRa_send_result [OF Suc.prems(2-5) send]
  have r1: "radio_idle r1" "sent = sendable ?e" "on_air r1 = on_air r @ (if sendable ?e then [frame] else [])" by auto
  have step: "(if \<not> sent then tx_on_timeout t else wait_ack t T (a_acks ?e)) =
      (if sendable ?e \<and> acked (t_seq t) T (a_acks ?e) then (t\<lparr>t_done := True\<rparr>, Success)
       else tx_next_attempt_or_fail t)"
    using Suc.prems(1) by (simp add: r1(2) wait_ack_eq tx_on_timeout_live)
  note unf = send_loop.simps [of env message ty T B i t r, unfolded Let_def send split_conv step]
  show ?case
  proof (cases "sendable ?e \<and> acked (t_seq t) T (a_acks ?e)")
    case True
    then show ?thesis using r1 Suc.hyps(2) by (simp add: unf Suc.hyps(2) [symmetric] Let_def)
  next
    case False
    from tx_next_cases [OF Suc.prems(1)] show ?thesis
    proof (elim disjE conjE exE)
      fix t' assume lt: "unat (attempts t) < 4"
        and nx: "tx_next_attempt_or_fail t = (t', Retransmit)" "tx_live t'" "t_seq t' = t_seq t"
          "unat (attempts t') = Suc (unat (attempts t))"
      from nx(4) Suc.hyps(2) have n: "n = 5 - unat (attempts t')" "n \<noteq> 0" using lt by simp_all
      obtain ok l where spec: "retry_spec env (t_seq t) T B (Suc i) n = (ok, l)" by fastforce
      from Suc.hyps(1) [OF n(1) nx(2) r1(1) Suc.prems(3,4), of "Suc i"] Suc.prems(5) obtain r2
        where r2: "radio_idle r2" "on_air r2 = on_air r1 @ log_frames frame l"
          "send_loop env message ty T B (Suc i) t' r1 = Some (r2, ok, l)"
        by (auto simp: nx(3) n(1) [symmetric] spec)
      show ?thesis
        using False r1 r2 n(2)
        by (intro exI [where x = r2]) (simp add: unf Suc.hyps(2) [symmetric] nx(1) spec Let_def if_not_P [OF False])
    next
      fix t' assume "unat (attempts t) = 4" and nx: "tx_next_attempt_or_fail t = (t', Fail)"
      with Suc.hyps(2) have "n = 0" by simp
      with False r1 nx show ?thesis
        by (intro exI [where x = r1]) (simp add: unf Suc.hyps(2) [symmetric] Let_def)
    qed
  qed
qed

lemma retry_spec_ok:
  "fst (retry_spec env seq T B i n) \<longleftrightarrow> (\<exists>j < n. sendable (env (i + j)) \<and> acked seq T (a_acks (env (i + j))))"
proof (induction n arbitrary: i)
  case (Suc n)
  show ?case
  proof (cases "sendable (env i) \<and> acked seq T (a_acks (env i))")
    case True
    then show ?thesis by (auto simp: Let_def intro: exI [where x = 0])
  next
    case False
    have "fst (retry_spec env seq T B i (Suc n)) = (n \<noteq> 0 \<and> fst (retry_spec env seq T B (Suc i) n))"
      using False by (auto simp: Let_def split: prod.splits)
    also have "\<dots> \<longleftrightarrow> (\<exists>j < n. sendable (env (Suc i + j)) \<and> acked seq T (a_acks (env (Suc i + j))))"
      unfolding Suc.IH by auto
    finally show ?thesis using False by (auto simp: Ex_less_Suc2)
  qed
qed simp

text \<open>The shape of the log: attempts with one sequence number, separated by single backoffs.\<close>

fun log_ok :: "u8 \<Rightarrow> u32 \<Rightarrow> nat \<Rightarrow> tx_log list \<Rightarrow> bool" where
  "log_ok seq B n [] \<longleftrightarrow> True"
| "log_ok seq B n [Attempt s sent] \<longleftrightarrow> s = seq \<and> 0 < n"
| "log_ok seq B n (Attempt s sent # Backoff b # l) \<longleftrightarrow>
     s = seq \<and> 1 < n \<and> (\<exists>rnd. b = retry_backoff_ms rnd B) \<and> l \<noteq> [] \<and> log_ok seq B (n - 1) l"
| "log_ok seq B n _ \<longleftrightarrow> False"

lemma retry_spec_nonempty: "0 < n \<Longrightarrow> snd (retry_spec env seq T B i n) \<noteq> []"
  by (cases n) (auto simp: Let_def split: prod.splits)

lemma retry_spec_log_ok: "log_ok seq B n (snd (retry_spec env seq T B i n))"
proof (induction n arbitrary: i)
  case (Suc n)
  obtain ok l where r: "retry_spec env seq T B (Suc i) n = (ok, l)" by fastforce
  with Suc.IH [of "Suc i"] retry_spec_nonempty [of n env seq T B "Suc i"] show ?case
    by (cases l) (auto simp: Let_def)
qed simp

lemma log_ok_frames: "log_ok seq B n l \<Longrightarrow> length (log_frames frame l) \<le> n"
  by (induction seq B n l rule: log_ok.induct) auto

text \<open>The time a log takes when every sent frame waits for the whole timeout.\<close>

fun log_time :: "nat \<Rightarrow> tx_log list \<Rightarrow> nat" where
  "log_time w [] = 0"
| "log_time w (Attempt s sent # l) = (if sent then w else 0) + log_time w l"
| "log_time w (Backoff b # l) = unat b + log_time w l"

lemma log_ok_time:
  "log_ok seq B n l \<Longrightarrow> B \<noteq> 0 \<Longrightarrow> unat B + 10 < 2 ^ 32 \<Longrightarrow>
   log_time w l \<le> n * w + (n - 1) * (10 + unat B)"
proof (induction seq B n l rule: log_ok.induct)
  case (2 seq B n s sent)
  then show ?case by (cases n) auto
next
  case (3 seq B n s sent b l)
  then obtain rnd m where b: "b = retry_backoff_ms rnd B" and n: "n = Suc (Suc m)"
    by (cases n; cases "n - 1") auto
  have "log_time w l \<le> Suc m * w + m * (10 + unat B)" using 3 n by simp
  moreover have "unat b \<le> 10 + unat B"
    using backoff_window [OF "3.prems"(2,3), of rnd] by (simp add: b TX_RETRY_GAP_MS_def)
  ultimately show ?case by (simp add: n)
qed auto

section \<open>Sending a queued packet\<close>

text \<open>Packets that are acknowledged: messages, and network packets to one node.\<close>

definition ack_packet :: "QueueParam \<Rightarrow> bool" where
  "ack_packet p \<longleftrightarrow> length (q_message p) \<le> 251 \<and>
     (q_type p = LORA_MSG \<or>
      q_type p = LORA_NET \<and> \<not> (length (q_message p) \<ge> 2 \<and> join8 (q_message p ! 0) (q_message p ! 1) = NET_BROADCAST))"

definition ack_wait :: "RadioState \<Rightarrow> QueueParam \<Rightarrow> u32" where
  "ack_wait cfg p = (if q_type p = LORA_NET then 400 + 2 * s_ack_airtime_ms cfg else 5000 + s_ack_airtime_ms cfg)"

definition backoff_limit :: "RadioState \<Rightarrow> QueueParam \<Rightarrow> u32" where
  "backoff_limit cfg p = retry_backoff_max_ms
     (airtime_ms (SpreadingFactor (s_cfg cfg)) (SignalBandwidth (s_cfg cfg)) (CodingRate4 (s_cfg cfg))
        (4 + length (q_message p))) (s_ack_airtime_ms cfg)"

lemma tx_begin_attempts: "unat (attempts (tx_begin t s)) = 1" "t_seq (tx_begin t s) = s"
  by (simp_all add: tx_begin_def)

lemma send_with_retry_eq:
  assumes "radio_idle r" "ack_packet p"
  shows "\<exists>r' frame. radio_idle r' \<and>
    frame_packet (q_type p) seq (Some (q_message p)) (length (q_message p)) (Some MAX_FRAME) = Some frame \<and>
    on_air r' = on_air r @ log_frames frame (snd (retry_spec env seq (ack_wait cfg p) (backoff_limit cfg p) 0 4)) \<and>
    send_with_retry cfg env seq r p =
      Some (seq + 1, r', retry_spec env seq (ack_wait cfg p) (backoff_limit cfg p) 0 4)"
proof -
  let ?t = "tx_begin \<lparr>t_seq = 0, attempts = 0, t_done = False\<rparr> seq"
  have len: "length (q_message p) \<le> 251" using assms(2) by (simp add: ack_packet_def)
  have ty: "data_type (q_type p)"
    using assms(2) by (auto simp: ack_packet_def data_type_def LORA_MSG_def LORA_NET_def T_REC_AKNG_def T_NET_def)
  obtain frame where frame:
    "frame_packet (q_type p) seq (Some (q_message p)) (length (q_message p)) (Some MAX_FRAME) = Some frame"
    using frame_packet_total [where pl = "q_message p" and ty = "q_type p" and seq = seq and cap = MAX_FRAME] ty len
    by (simp add: data_type_def MAX_PAYLOAD_def MAX_FRAME_def)
  from send_loop_refines [OF tx_begin_live assms(1) len ty, of _ seq frame env "ack_wait cfg p" "backoff_limit cfg p" 0]
    frame obtain r' where r': "radio_idle r'"
      "on_air r' = on_air r @ log_frames frame (snd (retry_spec env seq (ack_wait cfg p) (backoff_limit cfg p) 0 4))"
      "send_loop env (q_message p) (q_type p) (ack_wait cfg p) (backoff_limit cfg p) 0 ?t r =
        Some (r', retry_spec env seq (ack_wait cfg p) (backoff_limit cfg p) 0 4)"
    by (auto simp: tx_begin_attempts)
  have "send_with_retry cfg env seq r p =
      map_option (\<lambda>(r', ok, l). (seq + 1, r', ok, l))
        (send_loop env (q_message p) (q_type p) (ack_wait cfg p) (backoff_limit cfg p) 0 ?t r)"
    using assms(2) len
    by (auto simp: send_with_retry_def ack_packet_def ack_wait_def backoff_limit_def take_seq_def Let_def
        LORA_MSG_def LORA_NET_def LORA_MAX_PAYLOAD_def NET_ACK_SLACK_MS_def LORA_ACK_TIMEOUT_MS_def HEADER_LEN_def)
  with r' frame show ?thesis by (auto split: prod.splits)
qed

text \<open>
  C11 (send_with_retry_outcome). Sending an acknowledged packet always returns, uses exactly one new sequence
  number, and transmits the same frame at most four times, each two attempts separated by one
  random backoff; it reports success exactly when, in one of the four attempts, the frame was
  sent and the first acknowledgement of this sequence number looked at before the timeout
  was positive. Acknowledgements of other sequence numbers change nothing, and the radio is
  left receiving.\<close>

theorem send_with_retry_outcome:
  assumes "radio_idle r" and "ack_packet p"
  shows "\<exists>r' ok l frame. send_with_retry cfg env seq r p = Some (seq + 1, r', ok, l) \<and> radio_idle r' \<and>
    frame_packet (q_type p) seq (Some (q_message p)) (length (q_message p)) (Some MAX_FRAME) = Some frame \<and>
    on_air r' = on_air r @ log_frames frame l \<and> length (log_frames frame l) \<le> 4 \<and>
    log_ok seq (backoff_limit cfg p) 4 l \<and>
    (ok \<longleftrightarrow> (\<exists>j < 4. sendable (env j) \<and> acked seq (ack_wait cfg p) (a_acks (env j))))"
proof -
  obtain ok l where spec: "retry_spec env seq (ack_wait cfg p) (backoff_limit cfg p) 0 4 = (ok, l)" by fastforce
  from retry_spec_log_ok [of seq "backoff_limit cfg p" 4 env "ack_wait cfg p" 0] spec
  have lo: "log_ok seq (backoff_limit cfg p) 4 l" by simp
  from retry_spec_ok [of env seq "ack_wait cfg p" "backoff_limit cfg p" 0 4] spec
  have ok: "ok \<longleftrightarrow> (\<exists>j < 4. sendable (env j) \<and> acked seq (ack_wait cfg p) (a_acks (env j)))" by simp
  from send_with_retry_eq [OF assms, of seq env cfg] obtain r' frame where "radio_idle r'"
    "frame_packet (q_type p) seq (Some (q_message p)) (length (q_message p)) (Some MAX_FRAME) = Some frame"
    "on_air r' = on_air r @ log_frames frame l" "send_with_retry cfg env seq r p = Some (seq + 1, r', ok, l)"
    by (auto simp: spec)
  with lo ok log_ok_frames [OF lo] show ?thesis by blast
qed

definition sample_attempts :: "nat \<Rightarrow> attempt_env" where
  "sample_attempts i = \<lparr>a_lbt = quiet_env, a_begin_ok = True,
     a_acks = (if i = 1 then [(20, join8 8 ACK_OK), (30, join8 9 ACK_OK)] else [(20, join8 8 ACK_OK)]), a_rnd = 77\<rparr>"

definition sample_tx_cfg :: RadioState where
  "sample_tx_cfg = \<lparr>s_cfg = default_config, s_ack_airtime_ms = airtime_ms 8 500000 7 5, radio_log = []\<rparr>"

definition sample_packet :: QueueParam where
  "sample_packet = \<lparr>q_type = LORA_MSG, q_message = [0x7B, 0x7D], q_id = 3\<rparr>"

theorem send_with_retry_outcome_witness:
  "\<exists>r' l. send_with_retry \<lparr>s_cfg = default_config, s_ack_airtime_ms = 15, radio_log = []\<rparr> sample_attempts 9
     idle_radio sample_packet = Some (10, r', True, l)"
proof -
  have idle: "radio_idle idle_radio" by (simp add: radio_idle_def idle_radio_def)
  have ack: "ack_packet sample_packet" by (simp add: ack_packet_def sample_packet_def)
  have good: "sendable (sample_attempts 1) \<and>
      acked 9 (ack_wait \<lparr>s_cfg = default_config, s_ack_airtime_ms = 15, radio_log = []\<rparr> sample_packet)
        (a_acks (sample_attempts 1))"
    by (simp add: sendable_def sample_attempts_def quiet_channel acked_def ack_wait_def sample_packet_def
        LORA_MSG_def LORA_NET_def ACK_OK_def)
  from send_with_retry_outcome [OF idle ack, of "\<lparr>s_cfg = default_config, s_ack_airtime_ms = 15, radio_log = []\<rparr>"
      sample_attempts 9] obtain r' ok l
    where "send_with_retry \<lparr>s_cfg = default_config, s_ack_airtime_ms = 15, radio_log = []\<rparr> sample_attempts 9
        idle_radio sample_packet = Some (9 + 1, r', ok, l)"
      and ok: "ok \<longleftrightarrow> (\<exists>j < 4. sendable (sample_attempts j) \<and>
        acked 9 (ack_wait \<lparr>s_cfg = default_config, s_ack_airtime_ms = 15, radio_log = []\<rparr> sample_packet)
          (a_acks (sample_attempts j)))" by blast
  moreover have "ok" unfolding ok by (rule exI [where x = 1]) (use good in simp)
  ultimately show ?thesis by auto
qed

text \<open>
  C13 (send_time_within_announced). For every accepted radio configuration and every message, the airtime of
  all transmissions, the longest waits for their acknowledgements and all backoffs together
  never exceed the \<open>expected_ms\<close> that \<open>tx_started\<close> announces for this message. (The listening
  delays before a transmission are not part of it.)\<close>

theorem send_time_within_announced:
  assumes "radio_inv cfg" and "radio_idle r" and "ack_packet p" and "q_type p = LORA_MSG"
    and "send_with_retry cfg env seq r p = Some (seq', r', ok, l)"
    and "send_tx_started cfg i (length (q_message p)) = TxStarted i expected n"
  shows "log_time (unat (airtime_ms (SpreadingFactor (s_cfg cfg)) (SignalBandwidth (s_cfg cfg))
      (CodingRate4 (s_cfg cfg)) (4 + length (q_message p))) + unat (ack_wait cfg p)) l \<le> unat expected"
proof -
  let ?sf = "SpreadingFactor (s_cfg cfg)" and ?bw = "SignalBandwidth (s_cfg cfg)" and ?cr = "CodingRate4 (s_cfg cfg)"
  define D where "D = airtime_ms ?sf ?bw ?cr (4 + length (q_message p))"
  define A where "A = airtime_ms ?sf ?bw ?cr 5"
  have rng: "radio_range ?sf ?bw ?cr" using assms(1) by (simp add: radio_inv_def config_ok_radio_range)
  have len: "length (q_message p) \<le> 251" using assms(3) by (simp add: ack_packet_def)
  have DA: "unat D \<le> 560001" "unat A \<le> 560001" "D \<noteq> 0" "A \<noteq> 0"
    using airtime_ms_nat [OF rng, of "4 + length (q_message p)"] airtime_ms_nat [OF rng, of 5] len
    by (auto simp: D_def A_def)
  have A: "s_ack_airtime_ms cfg = A" using assms(1) by (simp add: radio_inv_def A_def)
  have exp: "expected = 4 * (D + 5000 + A) + 3 * (10 + (1000 + 4 * (D + A)))"
    using assms(6) len DA(3,4)
    by (simp add: send_tx_started_def tx_expected_ms_def Let_def HEADER_LEN_def MAX_FRAME_def MAX_PAYLOAD_def
        ACK_FRAME_LEN_eq TX_ATTEMPTS_def MAX_RETRIES_def TX_RETRY_GAP_MS_def retry_backoff_max_ms_def
        BACKOFF_BASE_MS_def LORA_ACK_TIMEOUT_MS_def flip: D_def A_def)
  then have e: "unat expected = 4 * (unat D + 5000 + unat A) + 3 * (10 + (1000 + 4 * (unat D + unat A)))"
    using DA by (simp add: unat_word_ariths)
  have B: "backoff_limit cfg p = 1000 + 4 * (D + A)"
    by (simp add: backoff_limit_def retry_backoff_max_ms_def BACKOFF_BASE_MS_def A D_def)
  then have b: "unat (backoff_limit cfg p) = 1000 + 4 * (unat D + unat A)"
    using DA by (simp add: unat_word_ariths)
  then have b0: "backoff_limit cfg p \<noteq> 0" by auto
  have w: "unat (ack_wait cfg p) = 5000 + unat A"
    using assms(4) DA by (simp add: ack_wait_def A LORA_MSG_def LORA_NET_def unat_word_ariths)
  from send_with_retry_eq [OF assms(2,3), of seq env cfg] assms(5)
  have "l = snd (retry_spec env seq (ack_wait cfg p) (backoff_limit cfg p) 0 4)" by (auto dest!: sym [of "(ok, l)"])
  then have "log_ok seq (backoff_limit cfg p) 4 l" using retry_spec_log_ok by simp
  from log_ok_time [OF this b0, of "unat D + unat (ack_wait cfg p)"] b DA
  have "log_time (unat D + unat (ack_wait cfg p)) l \<le> 4 * (unat D + unat (ack_wait cfg p)) + 3 * (10 + unat (backoff_limit cfg p))"
    by simp
  then show ?thesis unfolding D_def [symmetric] using e w b by simp
qed

theorem send_time_within_announced_witness:
  "\<exists>r' ok l. send_with_retry sample_tx_cfg sample_attempts 9 idle_radio sample_packet = Some (10, r', ok, l) \<and>
     log_time (unat (airtime_ms 8 500000 7 6) + unat (ack_wait sample_tx_cfg sample_packet)) l
       \<le> unat (tx_expected_ms 8 500000 7 6 5000)"
proof -
  have inv: "radio_inv sample_tx_cfg"
    using default_config_ok by (simp add: radio_inv_def sample_tx_cfg_def) (simp add: default_config_def)
  have idle: "radio_idle idle_radio" by (simp add: radio_idle_def idle_radio_def)
  have ack: "ack_packet sample_packet" by (simp add: ack_packet_def sample_packet_def)
  have ty: "q_type sample_packet = LORA_MSG" by (simp add: sample_packet_def)
  obtain r' ok l where s: "send_with_retry sample_tx_cfg sample_attempts 9 idle_radio sample_packet = Some (9 + 1, r', ok, l)"
    using send_with_retry_eq [OF idle ack, of 9 sample_attempts sample_tx_cfg] by (metis prod.collapse)
  have "send_tx_started sample_tx_cfg 3 (length (q_message sample_packet)) =
      TxStarted 3 (tx_expected_ms 8 500000 7 6 5000) TX_ATTEMPTS"
    by (simp add: send_tx_started_def sample_tx_cfg_def sample_packet_def default_config_def Let_def
        LORA_ACK_TIMEOUT_MS_def HEADER_LEN_def)
  from send_time_within_announced [OF inv idle ack ty s this] s show ?thesis
    by (auto simp: sample_tx_cfg_def default_config_def sample_packet_def)
qed

section \<open>One turn of the TX task\<close>

text \<open>A network packet to every node: transmitted once, never acknowledged.\<close>

definition broadcast_packet :: "QueueParam \<Rightarrow> bool" where
  "broadcast_packet p \<longleftrightarrow> q_type p = LORA_NET \<and> length (q_message p) \<ge> 2 \<and>
     join8 (q_message p ! 0) (q_message p ! 1) = 0xFFFF"

text \<open>What the peer and the air must do for the packet to count as delivered.\<close>

definition packet_delivered :: "RadioState \<Rightarrow> (nat \<Rightarrow> attempt_env) \<Rightarrow> u8 \<Rightarrow> QueueParam \<Rightarrow> bool" where
  "packet_delivered cfg env seq p \<longleftrightarrow>
     length (q_message p) \<le> 251 \<and>
     (if broadcast_packet p then sendable (env 0)
      else (q_type p = LORA_MSG \<or> q_type p = LORA_NET) \<and>
           (\<exists>j < 4. sendable (env j) \<and> acked seq (ack_wait cfg p) (a_acks (env j))))"

lemma broadcast_not_acked: "broadcast_packet p \<Longrightarrow> \<not> ack_packet p"
  by (simp add: broadcast_packet_def ack_packet_def LORA_MSG_def LORA_NET_def NET_BROADCAST_def)

lemma retry_spec_sent:
  "fst (retry_spec env seq T B i n) \<Longrightarrow> log_frames frame (snd (retry_spec env seq T B i n)) \<noteq> []"
proof (induction n arbitrary: i)
  case (Suc n)
  obtain ok l where r: "retry_spec env seq T B (Suc i) n = (ok, l)" by fastforce
  with Suc.IH [of "Suc i"] Suc.prems show ?case by (auto simp: Let_def split: if_splits)
qed simp

lemma send_broadcast:
  assumes "radio_idle r" "broadcast_packet p"
  shows "\<exists>r' n. radio_idle r' \<and> n \<le> 1 \<and> (packet_delivered cfg env seq p \<longleftrightarrow> n = (1::nat)) \<and>
    on_air r' = on_air r @ replicate n
      (the (frame_packet (q_type p) seq (Some (q_message p)) (length (q_message p)) (Some MAX_FRAME))) \<and>
    send_with_retry cfg env seq r p = Some (seq + 1, r', packet_delivered cfg env seq p,
      [Attempt seq (packet_delivered cfg env seq p)])"
proof -
  have w: "send_with_retry cfg env seq r p =
      (case LoRa_send r (a_lbt (env 0)) (a_begin_ok (env 0)) (q_message p) (q_type p) seq of
         (r', ok) \<Rightarrow> Some (seq + 1, r', ok, [Attempt seq ok]))"
    using assms(2) by (simp add: send_with_retry_def broadcast_packet_def NET_BROADCAST_def take_seq_def)
  show ?thesis
  proof (cases "length (q_message p) \<le> 251")
    case True
    have ty: "data_type (q_type p)"
      using assms(2) by (simp add: broadcast_packet_def data_type_def LORA_NET_def T_REC_AKNG_def T_NET_def)
    obtain frame where frame:
      "frame_packet (q_type p) seq (Some (q_message p)) (length (q_message p)) (Some MAX_FRAME) = Some frame"
      using frame_packet_total [where pl = "q_message p" and ty = "q_type p" and seq = seq and cap = MAX_FRAME] ty True
      by (simp add: data_type_def MAX_PAYLOAD_def MAX_FRAME_def)
    obtain r' sent where s: "LoRa_send r (a_lbt (env 0)) (a_begin_ok (env 0)) (q_message p) (q_type p) seq = (r', sent)"
      by fastforce
    from LoRa_send_result [OF assms(1) True ty frame s] True assms(2) show ?thesis
      by (intro exI [where x = r'] exI [where x = "if sent then 1 else 0"])
        (simp add: w s frame packet_delivered_def)
  next
    case False
    then show ?thesis using assms
      by (intro exI [where x = r] exI [where x = 0])
        (simp add: w LoRa_send_def LORA_MAX_PAYLOAD_def packet_delivered_def)
  qed
qed

lemma send_acked_packet:
  assumes "radio_idle r" "ack_packet p"
  shows "\<exists>r' n l. radio_idle r' \<and> n \<le> 4 \<and> (packet_delivered cfg env seq p \<longrightarrow> 0 < n) \<and>
    on_air r' = on_air r @ replicate n
      (the (frame_packet (q_type p) seq (Some (q_message p)) (length (q_message p)) (Some MAX_FRAME))) \<and>
    send_with_retry cfg env seq r p = Some (seq + 1, r', packet_delivered cfg env seq p, l)"
proof -
  obtain ok l where spec: "retry_spec env seq (ack_wait cfg p) (backoff_limit cfg p) 0 4 = (ok, l)" by fastforce
  from broadcast_not_acked assms(2) have "\<not> broadcast_packet p" by blast
  then have ok: "ok \<longleftrightarrow> packet_delivered cfg env seq p"
    using retry_spec_ok [of env seq "ack_wait cfg p" "backoff_limit cfg p" 0 4] spec assms(2)
    by (auto simp: packet_delivered_def ack_packet_def)
  from send_with_retry_eq [OF assms, of seq env cfg] spec obtain r' frame where r': "radio_idle r'"
    "frame_packet (q_type p) seq (Some (q_message p)) (length (q_message p)) (Some MAX_FRAME) = Some frame"
    "on_air r' = on_air r @ log_frames frame l" "send_with_retry cfg env seq r p = Some (seq + 1, r', ok, l)"
    by auto
  from retry_spec_log_ok [of seq "backoff_limit cfg p" 4 env "ack_wait cfg p" 0] spec
  have "length (log_frames frame l) \<le> 4" using log_ok_frames [of seq "backoff_limit cfg p" 4 l frame] by simp
  moreover have "ok \<longrightarrow> log_frames frame l \<noteq> []"
    using retry_spec_sent [of env seq "ack_wait cfg p" "backoff_limit cfg p" 0 4 frame] spec by simp
  moreover have "log_frames frame l = replicate (length (log_frames frame l)) frame" by (simp add: log_frames_def)
  ultimately show ?thesis using r'
    by (intro exI [where x = r'] exI [where x = "length (log_frames frame l)"] exI [where x = l])
      (simp add: ok)
qed

lemma send_refused:
  "\<not> ack_packet p \<Longrightarrow> \<not> broadcast_packet p \<Longrightarrow>
   send_with_retry cfg env seq r p = Some (seq, r, False, []) \<and> \<not> packet_delivered cfg env seq p"
  by (auto simp: send_with_retry_def ack_packet_def broadcast_packet_def packet_delivered_def Let_def
      LORA_MAX_PAYLOAD_def NET_BROADCAST_def)

text \<open>
  C12 (tx_task_reports). One turn of the TX task always ends, leaves the radio receiving, and reports
  what really happened. A packet is delivered when its payload has at most 251 bytes and,
  for a network broadcast, the single transmission went out, or, for a message or a network
  packet to one node, one of four attempts was sent and the first acknowledgement of its
  sequence number looked at in time was positive; nothing else counts. The panel shows
  transmitting, then receiving, then exactly this outcome; an undelivered packet raises the
  alert unless it is a network packet; a packet with an id gets \<open>tx_started\<close> first and one
  \<open>tx_result\<close> with the same id and this outcome last, a packet without an id neither. Only the
  packet's own frame is put on the air: never for a packet of another type or a message that
  is too long, at most once for a broadcast, at most four times otherwise, and at least once
  when success is reported; the sequence number advances by at most one.\<close>

theorem tx_task_reports:
  assumes "radio_idle r"
  shows "\<exists>seq' r' n. radio_idle r' \<and>
    LoRa_sendRaw_step cfg env seq r p = Some (seq', r',
      (if q_id p \<noteq> 0 then [send_tx_started cfg (q_id p) (length (q_message p))] else []) @
      [OledLora True, OledLora False, OledPacket (packet_delivered cfg env seq p)] @
      (if \<not> packet_delivered cfg env seq p \<and> q_type p \<noteq> LORA_NET then [TxAlert] else []) @
      (if q_id p \<noteq> 0 then [TxResult (q_id p) (packet_delivered cfg env seq p)] else [])) \<and>
    on_air r' = on_air r @ replicate n
      (the (frame_packet (q_type p) seq (Some (q_message p)) (length (q_message p)) (Some MAX_FRAME))) \<and>
    n \<le> (if broadcast_packet p then 1 else if ack_packet p then 4 else 0) \<and>
    (packet_delivered cfg env seq p \<longrightarrow> 1 \<le> n) \<and>
    seq' = (if broadcast_packet p \<or> ack_packet p then seq + 1 else seq)"
proof -
  consider "broadcast_packet p" | "ack_packet p" "\<not> broadcast_packet p" | "\<not> ack_packet p" "\<not> broadcast_packet p"
    by blast
  then show ?thesis
  proof cases
    case 1
    from send_broadcast [OF assms 1, of cfg env seq] 1 show ?thesis by (force simp: LoRa_sendRaw_step_def)
  next
    case 2
    from send_acked_packet [OF assms 2(1), of cfg env seq] 2 show ?thesis
      by (force simp: LoRa_sendRaw_step_def Suc_le_eq)
  next
    case 3
    from send_refused [OF 3, of cfg env seq r] assms 3 show ?thesis by (simp add: LoRa_sendRaw_step_def)
  qed
qed

definition quick_tx_cfg :: RadioState where
  "quick_tx_cfg = \<lparr>s_cfg = default_config, s_ack_airtime_ms = 15, radio_log = []\<rparr>"

lemma sample_packet_delivered: "packet_delivered quick_tx_cfg sample_attempts 9 sample_packet"
proof -
  have "sendable (sample_attempts 1) \<and> acked 9 (ack_wait quick_tx_cfg sample_packet) (a_acks (sample_attempts 1))"
    by (simp add: sendable_def sample_attempts_def quiet_channel acked_def ack_wait_def sample_packet_def
        LORA_MSG_def LORA_NET_def ACK_OK_def quick_tx_cfg_def)
  then have "\<exists>j < 4. sendable (sample_attempts j) \<and>
      acked 9 (ack_wait quick_tx_cfg sample_packet) (a_acks (sample_attempts j))" by (intro exI [where x = 1]) simp
  moreover have "\<not> broadcast_packet sample_packet" "q_type sample_packet = LORA_MSG"
    "length (q_message sample_packet) \<le> 251"
    by (simp_all add: broadcast_packet_def sample_packet_def LORA_MSG_def LORA_NET_def)
  ultimately show ?thesis by (simp add: packet_delivered_def)
qed

theorem tx_task_reports_witness:
  "\<exists>r' n. LoRa_sendRaw_step quick_tx_cfg sample_attempts 9 idle_radio sample_packet = Some (10, r',
     [send_tx_started quick_tx_cfg 3 2, OledLora True, OledLora False, OledPacket True, TxResult 3 True]) \<and>
     on_air r' = replicate n (the (frame_packet LORA_MSG 9 (Some [0x7B, 0x7D]) 2 (Some MAX_FRAME))) \<and>
     1 \<le> n \<and> n \<le> 4"
proof -
  have i: "radio_idle idle_radio" by (simp add: radio_idle_def idle_radio_def)
  have p: "q_id sample_packet = 3" "q_type sample_packet = LORA_MSG" "q_message sample_packet = [0x7B, 0x7D]"
    "\<not> broadcast_packet sample_packet" "ack_packet sample_packet" "on_air idle_radio = []"
    "length [0x7B, 0x7D :: u8] = 2" "LORA_MSG \<noteq> LORA_NET"
    by (simp_all add: sample_packet_def LORA_MSG_def LORA_NET_def broadcast_packet_def ack_packet_def idle_radio_def)
  from tx_task_reports [OF i, of quick_tx_cfg sample_attempts 9 sample_packet]
  obtain r' n where "LoRa_sendRaw_step quick_tx_cfg sample_attempts 9 idle_radio sample_packet = Some (9 + 1, r',
     [send_tx_started quick_tx_cfg 3 2, OledLora True, OledLora False, OledPacket True, TxResult 3 True])"
     "on_air r' = replicate n (the (frame_packet LORA_MSG 9 (Some [0x7B, 0x7D]) 2 (Some MAX_FRAME)))" "1 \<le> n" "n \<le> 4"
    using p(4,5) by (simp add: p(1,2,3,6-8) sample_packet_delivered del: list.size) blast
  then show ?thesis by (intro exI [where x = r'] exI [where x = n]) simp
qed

end
