(* ===== verification/Lora_Rx.thy ===== *)
theory Lora_Rx
  imports Lora_Tx
begin

text \<open>
  Reception (\<open>src/src/lora/lora_support.cpp\<close>, lines 410-539 and 573-602): what the RX task
  does with the bytes of one radio packet, when it runs, and the forwarding of queued messages.

  The queues of FreeRTOS are lists with their capacity (\<open>src/src/core/main.cpp\<close>, line 47 of
  \<open>lora_support.cpp\<close>); sending with a zero timeout succeeds exactly when there is room.
  \<open>alloc\<close> says whether the allocations for the packet succeed.
\<close>

definition RECV_QUEUE_DEPTH :: nat where "RECV_QUEUE_DEPTH = 20"
definition SERIAL_QUEUE_DEPTH :: nat where "SERIAL_QUEUE_DEPTH = 20"
definition ACK_QUEUE_DEPTH :: nat where "ACK_QUEUE_DEPTH = 4"

record RxState =
  rx_dedup :: RxDedupMulti
  ack_queue :: "u16 list"
  serial_packet_rec :: "bytes list"
  recv_packets :: "QueueParam list"
  rx_net :: NetState

record rx_env =
  rx_alloc :: bool
  rx_rssi :: int
  rx_millis :: u32
  rx_node :: u16

text \<open>What the task does besides: acknowledge, and tell the display.\<close>

datatype rx_action = SendAkn u8 u8 | OledRx bool

definition queue_send :: "nat \<Rightarrow> 'a list \<Rightarrow> 'a \<Rightarrow> 'a list \<times> bool" where
  "queue_send cap q x = (if length q < cap then (q @ [x], True) else (q, False))"

text \<open>The payload as the C string the code copies it to.\<close>

definition payload_text :: "bytes \<Rightarrow> bytes" where
  "payload_text pl = takeWhile (\<lambda>b. b \<noteq> 0) pl"

definition handle_rx_frame ::
    "'v json_api \<Rightarrow> rx_env \<Rightarrow> RxState \<Rightarrow> bytes \<Rightarrow> RxState \<times> rx_action list" where
  "handle_rx_frame J e s buf =
     (let p = parse_packet (Some buf) in
      if \<not> p_ok p then
        (s, OledRx False # (if p_err p = BadCrc \<and> p_type p = LORA_MSG then [SendAkn (p_seq p) ACK_RETRY] else []))
      else
        let pl = take (unat (p_len p)) (the (p_payload p)) in
        if p_type p = REC_AKNG then
          (s\<lparr>ack_queue := fst (queue_send ACK_QUEUE_DEPTH (ack_queue s) (join8 (p_seq p) (pl ! 0)))\<rparr>, [])
        else if p_type p = LORA_SERIAL then
          (if \<not> rx_alloc e then (s, [OledRx True])
           else (s\<lparr>serial_packet_rec := fst (queue_send SERIAL_QUEUE_DEPTH (serial_packet_rec s) pl)\<rparr>, [OledRx True]))
        else if p_type p = LORA_NET then
          (case net_parse (Some pl) (unat (p_len p)) of
             None \<Rightarrow> (s, [])
           | Some nf \<Rightarrow>
               if nf_src nf = rx_node e then (s, [])
               else
                 let to_me = (nf_dst nf = rx_node e) in
                 if \<not> to_me \<and> nf_dst nf \<noteq> NET_BROADCAST then (s, [])
                 else
                   let s = s\<lparr>rx_net := net_heard (rx_net s) (nf_src nf) (rx_rssi e) (rx_millis e)\<rparr> in
                   if \<not> to_me then
                     (s\<lparr>rx_net := fst (net_deliver (rx_net s) (rx_alloc e) (nf_ip nf) (nf_len nf))\<rparr>, [OledRx True])
                   else if \<not> s_active (rx_net s) then (s, [OledRx True])
                   else
                     let key = net_dedup_key (nf_src nf) in
                     if rx_is_duplicate_multi (rx_dedup s) key (p_seq p) then
                       (s, [OledRx True, SendAkn (p_seq p) ACK_OK])
                     else
                       (case net_deliver (rx_net s) (rx_alloc e) (nf_ip nf) (nf_len nf) of
                          (net', queued) \<Rightarrow>
                            (s\<lparr>rx_net := net',
                               rx_dedup := (if queued then rx_commit_multi (rx_dedup s) key (p_seq p) else rx_dedup s)\<rparr>,
                             [OledRx True, SendAkn (p_seq p) (if queued then ACK_OK else ACK_RETRY)])))
        else if p_type p = RAW_DATA then (s, [])
        else
          let key = extract_mac_key J (Some (c_str pl)) in
          if rx_is_duplicate_multi (rx_dedup s) key (p_seq p) then (s, [SendAkn (p_seq p) ACK_OK])
          else
            let msg = payload_text pl;
                queued = (rx_alloc e \<and> length msg = unat (p_len p) \<and>
                          snd (queue_send RECV_QUEUE_DEPTH (recv_packets s) \<lparr>q_type = p_type p, q_message = msg, q_id = 0\<rparr>))
            in (s\<lparr>recv_packets :=
                    (if queued
                     then fst (queue_send RECV_QUEUE_DEPTH (recv_packets s) \<lparr>q_type = p_type p, q_message = msg, q_id = 0\<rparr>)
                     else recv_packets s),
                  rx_dedup := (if queued then rx_commit_multi (rx_dedup s) key (p_seq p) else rx_dedup s)\<rparr>,
                [SendAkn (p_seq p) (if queued then ACK_OK else ACK_RETRY), OledRx queued]))"

text \<open>One turn of the RX task: \<open>notified\<close> by the interrupt or \<open>dio0\<close> still high; the mutex; and
  the packet in the radio's FIFO, \<open>None\<close> when the radio reports none.\<close>

definition lora_rx_task_step ::
    "'v json_api \<Rightarrow> rx_env \<Rightarrow> bool \<Rightarrow> bool \<Rightarrow> bool \<Rightarrow> bytes option \<Rightarrow> RxState \<Rightarrow> RxState \<times> rx_action list" where
  "lora_rx_task_step J e notified dio0 mutex_ok fifo s =
     (if \<not> notified \<and> \<not> dio0 then (s, [])
      else if \<not> mutex_ok then (s, [])
      else case fifo of
             None \<Rightarrow> (s, [])
           | Some bs \<Rightarrow> handle_rx_frame J e s (take 256 bs))"

text \<open>Forwarding: what the browser and the display get.\<close>

datatype forward = WsLoraRx string | OledMessage string string | OledSos string

definition handle_lora_msg_for_oled :: "'v json_api \<Rightarrow> string \<Rightarrow> forward list" where
  "handle_lora_msg_for_oled J payload =
     (let m = parse_lora_msg J (Some payload) in
      case m_kind m of
        TextMsg \<Rightarrow> [OledMessage (m_from m) (m_text m)]
      | Sos \<Rightarrow> [OledSos (m_from m)]
      | _ \<Rightarrow> [])"

definition manage_recv_queue_step :: "'v json_api \<Rightarrow> RxState \<Rightarrow> RxState \<times> forward list" where
  "manage_recv_queue_step J s =
     (case recv_packets s of
        [] \<Rightarrow> (s, [])
      | p # ps \<Rightarrow>
          (s\<lparr>recv_packets := ps\<rparr>,
           if q_type p = LORA_MSG then WsLoraRx (c_str (q_message p)) # handle_lora_msg_for_oled J (c_str (q_message p))
           else []))"

section \<open>Lemmas\<close>

lemma parsed_bounds:
  assumes "p_ok (parse_packet (Some buf))" "length buf \<le> 255"
  shows "unat (p_len (parse_packet (Some buf))) \<le> 251 \<and>
    length (the (p_payload (parse_packet (Some buf)))) = unat (p_len (parse_packet (Some buf)))"
  using parse_packet_okD [OF assms(1)] assms(2) by auto

lemma payload_text_no_nul: "length (payload_text pl) = length pl \<longleftrightarrow> 0 \<notin> set pl"
  unfolding payload_text_def by (induction pl) auto

lemma payload_text_id: "0 \<notin> set pl \<Longrightarrow> payload_text pl = pl"
  unfolding payload_text_def by (induction pl) auto

text \<open>The reception of a message packet, with the frame parsed.\<close>

definition msg_frame :: "u8 \<Rightarrow> bytes \<Rightarrow> bytes" where
  "msg_frame seq pl = word_of_nat (length pl) # LORA_MSG # seq # packet_crc seq pl # pl"

lemma msg_frame_packet:
  "length pl \<le> 251 \<Longrightarrow> frame_packet LORA_MSG seq (Some pl) (length pl) (Some MAX_FRAME) = Some (msg_frame seq pl)"
  unfolding msg_frame_def
  by (intro frame_packet_total) (simp_all add: lora_const_defs LORA_MSG_def)

text \<open>One copy of a message packet is what \<open>rx_copy\<close> of the duplicate filter says.\<close>

lemma handle_msg_frame:
  assumes "length pl \<le> 251"
  shows "handle_rx_frame J e s (msg_frame seq pl) =
    (case rx_copy rx_is_duplicate_multi rx_commit_multi (rx_dedup s) (extract_mac_key J (Some (c_str pl))) seq
            (rx_alloc e \<and> 0 \<notin> set pl \<and> length (recv_packets s) < 20) of
       (d, delivered, ack) \<Rightarrow>
         (s\<lparr>rx_dedup := d,
            recv_packets := recv_packets s @ (if delivered then [\<lparr>q_type = LORA_MSG, q_message = pl, q_id = 0\<rparr>] else [])\<rparr>,
          if rx_is_duplicate_multi (rx_dedup s) (extract_mac_key J (Some (c_str pl))) seq
          then [SendAkn seq ack] else [SendAkn seq ack, OledRx delivered]))"
proof -
  have p: "parse_packet (Some (msg_frame seq pl)) =
      \<lparr>p_ok = True, p_err = ErrNone, p_type = 0, p_seq = seq, p_len = word_of_nat (length pl), p_payload = Some pl\<rparr>"
    using assms by (simp add: msg_frame_def LORA_MSG_def parse_packet_data T_REC_AKNG_def T_NET_def)
  have l: "unat (word_of_nat (length pl) :: u8) = length pl" using assms by simp
  show ?thesis
  proof (cases "0 \<in> set pl")
    case True
    then show ?thesis using payload_text_no_nul [of pl]
      by (simp add: handle_rx_frame_def p l rx_copy_def Let_def LORA_MSG_def REC_AKNG_def LORA_SERIAL_def LORA_NET_def
          RAW_DATA_def)
  next
    case False
    then show ?thesis
      by (simp add: handle_rx_frame_def p l rx_copy_def Let_def LORA_MSG_def REC_AKNG_def LORA_SERIAL_def LORA_NET_def
          RAW_DATA_def payload_text_id queue_send_def RECV_QUEUE_DEPTH_def)
  qed
qed

section \<open>Acknowledgements and the forwarding task\<close>

definition is_ack :: "rx_action \<Rightarrow> bool" where
  "is_ack a = (case a of SendAkn s v \<Rightarrow> True | OledRx b \<Rightarrow> False)"

lemma forward_dedup: "rx_dedup (fst (manage_recv_queue_step J s)) = rx_dedup s"
  by (simp add: manage_recv_queue_step_def split: list.splits)

text \<open>The state at power-on, and surroundings of a reception.\<close>

definition rx_start :: RxState where
  "rx_start = \<lparr>rx_dedup = RxDedupMulti_init, ack_queue = [], serial_packet_rec = [], recv_packets = [],
     rx_net = NetState_init\<rparr>"

definition sample_rx_env :: rx_env where
  "sample_rx_env = \<lparr>rx_alloc = True, rx_rssi = - 60, rx_millis = 1000, rx_node = 0x0102\<rparr>"

text \<open>
  The copy of a received payload into the 252-byte buffer and its terminating NUL stay
  inside it for every packet the radio can deliver (at most 255 bytes), and only accepted packets
  are copied. The frame check alone would not be enough: it accepts a consistent frame of 256
  bytes, which would overrun the buffer by one byte.\<close>

lemma rx_copy_fits:
  "(length buf \<le> 255 \<and> p_ok (parse_packet (Some buf)) \<longrightarrow> unat (p_len (parse_packet (Some buf))) + 1 \<le> 252) \<and>
   (\<exists>big. length big = 256 \<and> p_ok (parse_packet (Some big)) \<and> p_type (parse_packet (Some big)) = LORA_MSG \<and>
      unat (p_len (parse_packet (Some big))) + 1 = 253)"
proof
  show "length buf \<le> 255 \<and> p_ok (parse_packet (Some buf)) \<longrightarrow> unat (p_len (parse_packet (Some buf))) + 1 \<le> 252"
    using parsed_bounds [of buf] by auto
  let ?pl = "replicate 252 0 :: bytes"
  have "parse_packet (Some (252 # 0 # 0 # packet_crc 0 ?pl # ?pl)) =
      \<lparr>p_ok = True, p_err = ErrNone, p_type = 0, p_seq = 0, p_len = 252, p_payload = Some ?pl\<rparr>"
    by (subst parse_packet_data) (simp_all add: T_REC_AKNG_def T_NET_def)
  then show "\<exists>big. length big = 256 \<and> p_ok (parse_packet (Some big)) \<and> p_type (parse_packet (Some big)) = LORA_MSG \<and>
      unat (p_len (parse_packet (Some big))) + 1 = 253"
    by (intro exI [where x = "252 # 0 # 0 # packet_crc 0 ?pl # ?pl"]) (simp add: LORA_MSG_def)
qed

end
