(* ===== verification/Delivery.thy ===== *)
theory Delivery
  imports Lora_Rx
begin

text \<open>
  Sender and receiver together: a packet that \<open>send_with_retry\<close> of one board transmits over a
  channel that loses frames and acknowledgements in either direction, and that the receiver task
  of another board takes, while its queue is full or not and the task that empties the queue runs
  or not (\<open>src/src/lora/lora_support.cpp\<close>, \<open>src/src/core/net_serial.cpp\<close>).  The programs are those of
  \<open>Lora_Tx\<close>, \<open>Lora_Rx\<close> and \<open>Net_Mode\<close>; what the channel does is one record per attempt.  What
  the argument needs of a receiver is the locale \<open>copy_receiver\<close>; messages and network packets
  are its two interpretations.
\<close>

section \<open>The receiving side\<close>

text \<open>What a board does with one copy of a packet, the task that empties the queue the packet goes to, and
  that queue.\<close>

record 'i rx_side =
  on_copy :: "rx_env \<Rightarrow> RxState \<Rightarrow> RxState \<times> rx_action list"
  other_task :: "RxState \<Rightarrow> RxState"
  waiting :: "RxState \<Rightarrow> 'i list"

text \<open>Copies received one after the other, the other task running before each or not: the state, what was
  queued, and the actions.\<close>

fun run_copies :: "'i rx_side \<Rightarrow> RxState \<Rightarrow> (rx_env \<times> bool) list \<Rightarrow> RxState \<times> 'i list \<times> rx_action list" where
  "run_copies R s [] = (s, [], [])"
| "run_copies R s ((e, other_first) # es) =
     (let s = (if other_first then other_task R s else s) in
      case on_copy R e s of
        (s', acts) \<Rightarrow>
          (case run_copies R s' es of
             (s'', queued, acts') \<Rightarrow> (s'', drop (length (waiting R s)) (waiting R s') @ queued, acts @ acts')))"

definition message_side :: "'v json_api \<Rightarrow> bytes \<Rightarrow> QueueParam rx_side" where
  "message_side J f =
     \<lparr>on_copy = \<lambda>e s. handle_rx_frame J e s f,
      other_task = \<lambda>s. fst (manage_recv_queue_step J s),
      waiting = recv_packets\<rparr>"

definition net_side :: "'v json_api \<Rightarrow> bytes \<Rightarrow> bytes rx_side" where
  "net_side J f =
     \<lparr>on_copy = \<lambda>e s. handle_rx_frame J e s f,
      other_task = \<lambda>s. s\<lparr>rx_net := fst (net_writer_step (rx_net s))\<rparr>,
      waiting = \<lambda>s. case s_rx_q (rx_net s) of None \<Rightarrow> [] | Some q \<Rightarrow> q\<rparr>"

section \<open>The link\<close>

text \<open>One attempt: the sender's radio and random number; whether the receiver hears the frame, whether
  its other task ran before, and its surroundings; the acknowledgements of other packets the
  sender receives first; and when the acknowledgement comes back, if it is not lost.\<close>

record hop =
  h_lbt :: "nat \<Rightarrow> lbt_env"
  h_begin :: bool
  h_rnd :: u32
  h_heard :: bool
  h_other :: bool
  h_rx :: rx_env
  h_noise :: "(u32 \<times> u16) list"
  h_back :: "u32 option"

definition goes_out :: "hop \<Rightarrow> bool" where
  "goes_out h \<longleftrightarrow> fst (take_radio_clear_channel True (h_lbt h) 0) \<and> h_begin h"

definition arrives :: "hop \<Rightarrow> bool" where
  "arrives h \<longleftrightarrow> goes_out h \<and> h_heard h"

definition air_frame :: "u8 \<Rightarrow> QueueParam \<Rightarrow> bytes" where
  "air_frame seq p = the (frame_packet (q_type p) seq (Some (q_message p)) (length (q_message p)) (Some MAX_FRAME))"

text \<open>The copies the receiver gets in the first \<open>n\<close> attempts, and its run over them.\<close>

definition copies_heard :: "(nat \<Rightarrow> hop) \<Rightarrow> nat \<Rightarrow> (rx_env \<times> bool) list" where
  "copies_heard hops n = map (\<lambda>j. (h_rx (hops j), h_other (hops j))) (filter (\<lambda>j. arrives (hops j)) [0..<n])"

definition rx_queued :: "'i rx_side \<Rightarrow> RxState \<Rightarrow> (nat \<Rightarrow> hop) \<Rightarrow> nat \<Rightarrow> 'i list" where
  "rx_queued R s hops n = fst (snd (run_copies R s (copies_heard hops n)))"

definition before_copy :: "'i rx_side \<Rightarrow> RxState \<Rightarrow> (nat \<Rightarrow> hop) \<Rightarrow> nat \<Rightarrow> RxState" where
  "before_copy R s hops j =
     (let s' = fst (run_copies R s (copies_heard hops j)) in if h_other (hops j) then other_task R s' else s')"

definition answer :: "'i rx_side \<Rightarrow> RxState \<Rightarrow> (nat \<Rightarrow> hop) \<Rightarrow> nat \<Rightarrow> rx_action list" where
  "answer R s hops j =
     (if arrives (hops j) then snd (on_copy R (h_rx (hops j)) (before_copy R s hops j)) else [])"

text \<open>What the sender's own receiver task puts on its acknowledgement queue (reset before each packet) for
  the acknowledgement frames of the receiver.\<close>

definition ack_items :: "'v json_api \<Rightarrow> rx_env \<Rightarrow> rx_action list \<Rightarrow> u16 list" where
  "ack_items J e acts = concat (map (\<lambda>a.
     case a of
       SendAkn seq v \<Rightarrow> ack_queue (fst (handle_rx_frame J e rx_start (the (frame_ack seq v (Some (HEADER_LEN + 1))))))
     | OledRx ok \<Rightarrow> []) acts)"

definition link_env :: "'v json_api \<Rightarrow> 'i rx_side \<Rightarrow> RxState \<Rightarrow> (nat \<Rightarrow> hop) \<Rightarrow> nat \<Rightarrow> attempt_env" where
  "link_env J R s hops j =
     \<lparr>a_lbt = h_lbt (hops j), a_begin_ok = h_begin (hops j),
      a_acks = h_noise (hops j) @
        (case h_back (hops j) of None \<Rightarrow> [] | Some t \<Rightarrow> map (\<lambda>v. (t, v)) (ack_items J (h_rx (hops j)) (answer R s hops j))),
      a_rnd = h_rnd (hops j)\<rparr>"

text \<open>An attempt in which nothing goes wrong: the frame arrives, there is room for it, and the
  acknowledgement is back in time.\<close>

definition clean ::
    "(rx_env \<Rightarrow> RxState \<Rightarrow> bool) \<Rightarrow> 'i rx_side \<Rightarrow> RxState \<Rightarrow> (nat \<Rightarrow> hop) \<Rightarrow> u32 \<Rightarrow> nat \<Rightarrow> bool" where
  "clean room R s hops timeout j \<longleftrightarrow>
     arrives (hops j) \<and> room (h_rx (hops j)) (before_copy R s hops j) \<and>
     (case h_back (hops j) of None \<Rightarrow> False | Some t \<Rightarrow> t < timeout) \<and>
     list_all (\<lambda>(t, v). t < timeout) (h_noise (hops j))"

text \<open>Acknowledgements received besides the one waited for are for other packets.\<close>

definition foreign :: "u8 \<Rightarrow> hop \<Rightarrow> bool" where
  "foreign seq h \<longleftrightarrow> list_all (\<lambda>(t, v). hi8 v \<noteq> seq) (h_noise h)"

definition log_attempts :: "tx_log list \<Rightarrow> nat" where
  "log_attempts l = length (filter (\<lambda>x. case x of Attempt seq sent \<Rightarrow> True | Backoff b \<Rightarrow> False) l)"

section \<open>Acknowledgements\<close>

lemma handle_ack_frame:
  "handle_rx_frame J e s (the (frame_ack seq v (Some (HEADER_LEN + 1)))) =
     (s\<lparr>ack_queue := fst (queue_send ACK_QUEUE_DEPTH (ack_queue s) (join8 seq v))\<rparr>, [])"
proof -
  obtain f where f: "frame_ack seq v (Some (HEADER_LEN + 1)) = Some f"
    by (auto simp: frame_ack_def HEADER_LEN_def)
  show ?thesis
    unfolding f option.sel
    by (simp add: handle_rx_frame_def parse_frame_ack [OF f] T_REC_AKNG_def REC_AKNG_def LORA_MSG_def Let_def)
qed

lemma ack_items_simps [simp]:
  "ack_items J e [] = []"
  "ack_items J e (SendAkn seq v # acts) = join8 seq v # ack_items J e acts"
  "ack_items J e (OledRx ok # acts) = ack_items J e acts"
  unfolding ack_items_def
  by (simp_all add: handle_ack_frame queue_send_def rx_start_def ACK_QUEUE_DEPTH_def del: One_nat_def)

lemma ack_items_only_acks: "ack_items J e acts = ack_items J e (filter is_ack acts)"
proof (induction acts)
  case (Cons a acts)
  then show ?case by (cases a) (simp_all add: is_ack_def)
qed simp

lemma acked_noise:
  assumes "list_all (\<lambda>(t, v). hi8 v \<noteq> seq) noise" "acked seq T (noise @ xs)"
  shows "\<exists>t v. (t, v) \<in> set xs \<and> t < T \<and> hi8 v = seq \<and> lo8 v = ACK_OK"
proof -
  obtain el v ys where d: "dropWhile (\<lambda>(el, v). el < T \<and> hi8 v \<noteq> seq) (noise @ xs) = (el, v) # ys"
    and v: "el < T" "lo8 v = ACK_OK"
    using assms(2) by (auto simp: acked_def split: list.splits)
  have "(el, v) \<in> set (noise @ xs)"
    using d by (metis list.set_intros(1) set_dropWhileD)
  moreover have "hi8 v = seq"
    using d v(1) by (simp only: dropWhile_eq_Cons_conv split_conv) simp
  ultimately show ?thesis
    using v assms(1) by (auto simp: list_all_iff)
qed

lemma acked_clean:
  assumes "list_all (\<lambda>(t, v). hi8 v \<noteq> seq) noise" "list_all (\<lambda>(t, v). t < T) noise" "t < T"
  shows "acked seq T (noise @ [(t, join8 seq ACK_OK)])"
proof -
  have "dropWhile (\<lambda>(el, v). el < T \<and> hi8 v \<noteq> seq) (noise @ [(t, join8 seq ACK_OK)]) = [(t, join8 seq ACK_OK)]"
    using assms by (subst dropWhile_append2) (auto simp: list_all_iff)
  then show ?thesis using assms(3) by (simp add: acked_def)
qed

section \<open>The last attempt\<close>

lemma log_attempts_simps [simp]:
  "log_attempts [] = 0"
  "log_attempts (Attempt seq sent # l) = Suc (log_attempts l)"
  "log_attempts (Backoff b # l) = log_attempts l"
  by (simp_all add: log_attempts_def)

lemma retry_spec_last:
  assumes "retry_spec env seq T B i n = (True, l)"
  shows "\<exists>m. log_attempts l = Suc m \<and> m < n \<and> sendable (env (i + m)) \<and> acked seq T (a_acks (env (i + m)))"
  using assms
proof (induction n arbitrary: i l)
  case (Suc n)
  show ?case
  proof (cases "sendable (env i) \<and> acked seq T (a_acks (env i))")
    case True
    then show ?thesis using Suc.prems by (intro exI [where x = 0]) (auto simp: Let_def)
  next
    case False
    then obtain l' where l': "retry_spec env seq T B (Suc i) n = (True, l')" "log_attempts l = Suc (log_attempts l')"
      using Suc.prems by (auto simp: Let_def split: if_splits prod.splits)
    from Suc.IH [OF l'(1)] l'(2) show ?thesis by fastforce
  qed
qed simp

section \<open>The receiver, attempt by attempt\<close>

lemma run_copies_snoc:
  assumes "run_copies R s es = (s1, d1, a1)" "s0 = (if o1 then other_task R s1 else s1)" "on_copy R e s0 = (s2, a2)"
  shows "\<exists>d2. run_copies R s (es @ [(e, o1)]) = (s2, d1 @ d2, a1 @ a2)"
  using assms
proof (induction es arbitrary: s d1 a1)
  case (Cons x es)
  obtain e' o' where x: "x = (e', o')" by (cases x)
  obtain s3 a3 where h: "on_copy R e' (if o' then other_task R s else s) = (s3, a3)"
    by fastforce
  obtain s4 d4 a4 where r: "run_copies R s3 es = (s4, d4, a4)" by (metis prod_cases3)
  from Cons.prems(1) h r have out: "s4 = s1" "a1 = a3 @ a4"
    "d1 = drop (length (waiting R (if o' then other_task R s else s))) (waiting R s3) @ d4"
    by (simp_all add: x Let_def)
  from Cons.IH [of s3 d4 a4] r Cons.prems(2,3) out(1) obtain d2
    where "run_copies R s3 (es @ [(e, o1)]) = (s2, d4 @ d2, a4 @ a2)" by auto
  then show ?case using h out by (simp add: x Let_def)
qed (auto simp: Let_def)

lemma copies_heard_Suc:
  "copies_heard hops (Suc n) = copies_heard hops n @ (if arrives (hops n) then [(h_rx (hops n), h_other (hops n))] else [])"
  by (simp add: copies_heard_def)

text \<open>What the receiver answers in an attempt is among all it answers.\<close>

lemma answer_among:
  assumes "arrives (hops n)" "run_copies R s (copies_heard hops (Suc n)) = (s', d, acts)"
  shows "set (answer R s hops n) \<subseteq> set acts"
proof -
  obtain s1 d1 a1 where r: "run_copies R s (copies_heard hops n) = (s1, d1, a1)" by (metis prod_cases3)
  obtain s2 a2 where h: "on_copy R (h_rx (hops n)) (before_copy R s hops n) = (s2, a2)" by fastforce
  have b: "before_copy R s hops n = (if h_other (hops n) then other_task R s1 else s1)"
    by (simp add: before_copy_def r Let_def)
  from run_copies_snoc [OF r b h] assms have "acts = a1 @ a2"
    by (auto simp: copies_heard_Suc)
  then show ?thesis
    using assms(1) h by (simp add: answer_def)
qed

lemma link_env_simps:
  "sendable (link_env J R s hops j) \<longleftrightarrow> goes_out (hops j)"
  "a_acks (link_env J R s hops j) = h_noise (hops j) @
     (case h_back (hops j) of None \<Rightarrow> [] | Some t \<Rightarrow> map (\<lambda>v. (t, v)) (ack_items J (h_rx (hops j)) (answer R s hops j)))"
  by (simp_all add: sendable_def goes_out_def link_env_def)

section \<open>What the argument needs of a receiver\<close>

text \<open>With \<open>room\<close> telling whether the queue takes the packet, a copy is handled as \<open>rx_copy\<close> of the duplicate
  filter says, and acknowledged once; the other task leaves the filter alone.\<close>

locale copy_receiver =
  fixes R :: "'i rx_side"
    and inv :: "RxState \<Rightarrow> bool"
    and good :: "rx_env \<Rightarrow> bool"
    and room :: "rx_env \<Rightarrow> RxState \<Rightarrow> bool"
    and key :: u32
    and seq :: u8
    and item :: 'i
  assumes other_task_law: "inv s \<Longrightarrow> inv (other_task R s) \<and> rx_dedup (other_task R s) = rx_dedup s"
    and on_copy_law: "inv s \<Longrightarrow> good e \<Longrightarrow> on_copy R e s = (s', acts) \<Longrightarrow>
      rx_copy rx_is_duplicate_multi rx_commit_multi (rx_dedup s) key seq (room e s) = (d, queued, ack) \<Longrightarrow>
      inv s' \<and> rx_dedup s' = d \<and> waiting R s' = waiting R s @ (if queued then [item] else []) \<and>
      filter is_ack acts = [SendAkn seq ack]"
begin

abbreviation outcomes :: "RxDedupMulti \<Rightarrow> bool list \<Rightarrow> (bool \<times> u8) list" where
  "outcomes d qs \<equiv> rx_copies rx_is_duplicate_multi rx_commit_multi d key seq qs"

text \<open>A run is what the duplicate filter's client lemmas talk about, for some outcomes of the queue.\<close>

lemma run_outcomes:
  assumes "inv s" "list_all (\<lambda>(e, o1). good e) es" "run_copies R s es = (s', queued, acts)"
  shows "inv s' \<and> (\<exists>qs. queued = map (\<lambda>r. item) (filter fst (outcomes (rx_dedup s) qs)) \<and>
    filter is_ack acts = map (\<lambda>r. SendAkn seq (snd r)) (outcomes (rx_dedup s) qs))"
  using assms
proof (induction es arbitrary: s queued acts)
  case Nil
  then show ?case by (auto intro: exI [where x = "[]"])
next
  case (Cons x es)
  obtain e o1 where x: "x = (e, o1)" by (cases x)
  define s0 where "s0 = (if o1 then other_task R s else s)"
  have s0: "inv s0" "rx_dedup s0 = rx_dedup s"
    using Cons.prems(1) other_task_law by (simp_all add: s0_def)
  obtain s1 a1 where h: "on_copy R e s0 = (s1, a1)" by fastforce
  obtain d1 dl ack where c: "rx_copy rx_is_duplicate_multi rx_commit_multi (rx_dedup s0) key seq (room e s0) = (d1, dl, ack)"
    by (metis prod_cases3)
  have "good e" using Cons.prems(2) by (simp add: x)
  note one = on_copy_law [OF s0(1) this h c]
  obtain s2 q2 a2 where r: "run_copies R s1 es = (s2, q2, a2)" by (metis prod_cases3)
  have out: "s' = s2" "queued = (if dl then [item] else []) @ q2" "acts = a1 @ a2"
    using Cons.prems(3) h r one by (simp_all add: x s0_def [symmetric] Let_def)
  have "list_all (\<lambda>(e, o1). good e) es" using Cons.prems(2) by simp
  from Cons.IH [OF _ this, of s1 q2 a2] one r out(1) obtain qs where qs: "inv s'" "q2 = map (\<lambda>r. item) (filter fst (outcomes d1 qs))"
    "filter is_ack a2 = map (\<lambda>r. SendAkn seq (snd r)) (outcomes d1 qs)" by auto
  show ?case
    by (intro conjI exI [where x = "room e s0 # qs"]) (use qs out one c s0(2) in \<open>simp_all split: prod.splits\<close>)
qed

text \<open>However often a packet arrives it is queued at most once, and a new one has been acknowledged positively
  exactly when it was queued.\<close>

lemma queued_once:
  assumes "inv s" "list_all (\<lambda>(e, o1). good e) es" "dd_shape (rx_dedup s)" "run_copies R s es = (s', queued, acts)"
  shows "queued = [] \<or> queued = [item]"
    "\<not> rx_is_duplicate_multi (rx_dedup s) key seq \<Longrightarrow> SendAkn seq ACK_OK \<in> set acts \<longleftrightarrow> queued \<noteq> []"
proof -
  from run_outcomes [OF assms(1,2,4)] obtain qs where
    qs: "queued = map (\<lambda>r. item) (filter fst (outcomes (rx_dedup s) qs))"
      "filter is_ack acts = map (\<lambda>r. SendAkn seq (snd r)) (outcomes (rx_dedup s) qs)" by blast
  have "length queued \<le> 1"
    using multi_filter.delivered_at_most_once [OF assms(3)] by (simp add: qs(1))
  then show "queued = [] \<or> queued = [item]"
    unfolding qs(1) by (cases "filter fst (outcomes (rx_dedup s) qs)") auto
  assume new: "\<not> rx_is_duplicate_multi (rx_dedup s) key seq"
  have "SendAkn seq ACK_OK \<in> set acts \<longleftrightarrow> SendAkn seq ACK_OK \<in> set (filter is_ack acts)" by (simp add: is_ack_def)
  also have "\<dots> \<longleftrightarrow> (\<exists>r \<in> set (outcomes (rx_dedup s) qs). snd r = ACK_OK)" unfolding qs(2) by (force simp: image_iff)
  also have "\<dots> \<longleftrightarrow> (\<exists>r \<in> set (outcomes (rx_dedup s) qs). fst r)"
  proof -
    have "(\<exists>r \<in> set (map (\<lambda>q. (False, ACK_RETRY)) xs @ (case ys of [] \<Rightarrow> [] | q # rest \<Rightarrow> (True, ACK_OK) # map (\<lambda>q. (False, ACK_OK)) rest)).
          snd r = ACK_OK) \<longleftrightarrow>
        (\<exists>r \<in> set (map (\<lambda>q. (False, ACK_RETRY)) xs @ (case ys of [] \<Rightarrow> [] | q # rest \<Rightarrow> (True, ACK_OK) # map (\<lambda>q. (False, ACK_OK)) rest)).
          fst r)" for xs ys :: "bool list"
      by (cases ys) (simp_all add: ACK_OK_def ACK_RETRY_def)
    then show ?thesis unfolding multi_filter.copies_of_new [OF assms(3) new] .
  qed
  finally show "SendAkn seq ACK_OK \<in> set acts \<longleftrightarrow> queued \<noteq> []" by (auto simp: qs(1) filter_empty_conv)
qed

text \<open>The answer to a copy, as the sender's acknowledgement queue gets it.\<close>

lemma inv_before_copy:
  assumes "inv s" "\<And>j. good (h_rx (hops j))"
  shows "inv (before_copy R s hops n)"
proof -
  obtain s1 d1 a1 where r: "run_copies R s (copies_heard hops n) = (s1, d1, a1)" by (metis prod_cases3)
  have "list_all (\<lambda>(e, o1). good e) (copies_heard hops n)"
    using assms(2) by (simp add: copies_heard_def list_all_iff)
  from run_outcomes [OF assms(1) this r] other_task_law [of s1] show ?thesis
    by (simp add: before_copy_def r Let_def)
qed

lemma answer_items:
  assumes "inv s" "\<And>j. good (h_rx (hops j))" "arrives (hops n)"
  shows "\<exists>v. ack_items J e (answer R s hops n) = [join8 seq v] \<and> SendAkn seq v \<in> set (answer R s hops n) \<and>
    (room (h_rx (hops n)) (before_copy R s hops n) \<longrightarrow> v = ACK_OK)"
proof -
  let ?s = "before_copy R s hops n" and ?e = "h_rx (hops n)"
  obtain d dl v where c: "rx_copy rx_is_duplicate_multi rx_commit_multi (rx_dedup ?s) key seq (room ?e ?s) = (d, dl, v)"
    by (metis prod_cases3)
  obtain s2 acts where h: "on_copy R ?e ?s = (s2, acts)" by fastforce
  from on_copy_law [OF inv_before_copy [OF assms(1,2)] assms(2) h c]
  have f: "filter is_ack acts = [SendAkn seq v]" by blast
  then have "SendAkn seq v \<in> set acts" by (metis filter_eq_Cons_iff in_set_conv_decomp)
  moreover have "ack_items J e acts = [join8 seq v]"
    by (subst ack_items_only_acks) (simp add: f)
  moreover have "room ?e ?s \<longrightarrow> v = ACK_OK"
    using c by (auto simp: rx_copy_def split: if_splits)
  ultimately show ?thesis
    using assms(3) h by (intro exI [where x = v]) (simp add: answer_def)
qed

text \<open>The sender with this receiver at the other end of the link.\<close>

lemma transfer:
  assumes "radio_idle r" "ack_packet p" "inv s" "dd_shape (rx_dedup s)"
    and new: "\<not> rx_is_duplicate_multi (rx_dedup s) key seq"
    and good: "\<And>j. good (h_rx (hops j))" and foreign: "\<And>j. foreign seq (hops j)"
  shows "\<exists>r' ok l. send_with_retry cfg (link_env J R s hops) seq r p = Some (seq + 1, r', ok, l) \<and>
    (rx_queued R s hops (log_attempts l) = [] \<or> rx_queued R s hops (log_attempts l) = [item]) \<and>
    (ok \<longrightarrow> rx_queued R s hops (log_attempts l) \<noteq> []) \<and>
    ((\<exists>j<4. clean room R s hops (ack_wait cfg p) j) \<longrightarrow> ok)"
proof -
  let ?env = "link_env J R s hops" and ?T = "ack_wait cfg p"
  from send_with_retry_eq [OF assms(1,2), of seq ?env cfg] obtain r' ok l where
    send: "send_with_retry cfg ?env seq r p = Some (seq + 1, r', ok, l)"
    and spec: "retry_spec ?env seq ?T (backoff_limit cfg p) 0 4 = (ok, l)" by (metis prod.collapse)
  let ?n = "log_attempts l"
  obtain s' acts where run: "run_copies R s (copies_heard hops ?n) = (s', rx_queued R s hops ?n, acts)"
    by (metis rx_queued_def prod.collapse)
  have gs: "list_all (\<lambda>(e, o1). good e) (copies_heard hops ?n)"
    using good by (simp add: copies_heard_def list_all_iff)
  note once = queued_once [OF assms(3) gs assms(4) run]
  have "rx_queued R s hops ?n \<noteq> []" if "ok"
  proof -
    from retry_spec_last [of ?env seq ?T "backoff_limit cfg p" 0 4 l] spec that obtain m
      where m: "?n = Suc m" "goes_out (hops m)" "acked seq ?T (a_acks (?env m))"
      by (auto simp: link_env_simps)
    from acked_noise [OF foreign [of m, unfolded foreign_def] m(3) [unfolded link_env_simps]]
    obtain v where v: "v \<in> set (ack_items J (h_rx (hops m)) (answer R s hops m))" "lo8 v = ACK_OK"
      by (auto split: option.splits)
    then have arr: "arrives (hops m)" by (auto simp: answer_def split: if_splits)
    from answer_items [where n = m and hops = hops and s = s and e = "h_rx (hops m)" and J = J, OF assms(3) good arr] v
    have "SendAkn seq ACK_OK \<in> set (answer R s hops m)" by auto
    with answer_among [OF arr run [unfolded m(1)]] once(2) [OF new] show ?thesis by (auto simp: m(1))
  qed
  moreover have "ok" if j: "j < 4" "clean room R s hops ?T j" for j
  proof -
    from j(2) obtain t where arr: "arrives (hops j)" and t: "h_back (hops j) = Some t" "t < ?T"
      and noise: "list_all (\<lambda>(t, v). t < ?T) (h_noise (hops j))"
      by (auto simp: clean_def split: option.splits)
    from answer_items [where n = j and hops = hops and s = s and e = "h_rx (hops j)" and J = J, OF assms(3) good arr] j(2)
    have "ack_items J (h_rx (hops j)) (answer R s hops j) = [join8 seq ACK_OK]" by (auto simp: clean_def)
    then have "acked seq ?T (a_acks (?env j))"
      using acked_clean [OF foreign [of j, unfolded foreign_def] noise t(2)] t(1) by (simp add: link_env_simps)
    moreover have "sendable (?env j)" using arr by (simp add: link_env_simps arrives_def)
    ultimately show ?thesis
      using retry_spec_ok [of ?env seq ?T "backoff_limit cfg p" 0 4] j(1) spec by auto
  qed
  ultimately show ?thesis using send once(1) by blast
qed

end

section \<open>Messages\<close>

definition message_room :: "bytes \<Rightarrow> rx_env \<Rightarrow> RxState \<Rightarrow> bool" where
  "message_room pl e s \<longleftrightarrow> rx_alloc e \<and> 0 \<notin> set pl \<and> length (recv_packets s) < RECV_QUEUE_DEPTH"

interpretation message_rx: copy_receiver
    "message_side J (msg_frame seq pl)" "\<lambda>s. length pl \<le> 251" "\<lambda>e. True" "message_room pl"
    "extract_mac_key J (Some (c_str pl))" seq "\<lparr>q_type = LORA_MSG, q_message = pl, q_id = 0\<rparr>"
  for J :: "'v json_api" and seq pl
proof unfold_locales
  show "length pl \<le> 251 \<and> rx_dedup (other_task (message_side J (msg_frame seq pl)) s) = rx_dedup s"
    if "length pl \<le> 251" for s
    using that by (simp add: message_side_def forward_dedup)
next
  fix s s' :: RxState and e acts d queued ack
  assume len: "length pl \<le> 251" and h: "on_copy (message_side J (msg_frame seq pl)) e s = (s', acts)"
    and c: "rx_copy rx_is_duplicate_multi rx_commit_multi (rx_dedup s) (extract_mac_key J (Some (c_str pl))) seq
      (message_room pl e s) = (d, queued, ack)"
  from h c show "length pl \<le> 251 \<and> rx_dedup s' = d \<and>
      waiting (message_side J (msg_frame seq pl)) s' = waiting (message_side J (msg_frame seq pl)) s @
        (if queued then [\<lparr>q_type = LORA_MSG, q_message = pl, q_id = 0\<rparr>] else []) \<and>
      filter is_ack acts = [SendAkn seq ack]"
    using len
    by (auto simp: message_side_def handle_msg_frame [OF len] message_room_def RECV_QUEUE_DEPTH_def is_ack_def split: if_splits)
qed

text \<open>However often the frame of a message arrives, it is queued at most once and unchanged; and if it is new, it
  has been acknowledged positively exactly when it was queued.\<close>

lemma message_delivered_once:
  assumes "dd_shape (rx_dedup s)" and "length pl \<le> 251"
    and "run_copies (message_side J (msg_frame seq pl)) s es = (s', delivered, acts)"
  shows "(delivered = [] \<or> delivered = [\<lparr>q_type = LORA_MSG, q_message = pl, q_id = 0\<rparr>]) \<and>
    (\<not> rx_is_duplicate_multi (rx_dedup s) (extract_mac_key J (Some (c_str pl))) seq \<longrightarrow>
       (SendAkn seq ACK_OK \<in> set acts \<longleftrightarrow> delivered \<noteq> []))"
proof -
  have "list_all (\<lambda>(e, o1). True) es" by (simp add: list_all_iff)
  from message_rx.queued_once [OF assms(2) this assms(1,3)] show ?thesis by blast
qed

text \<open>
   A message of at most 251 bytes that is new to the receiver, sent by \<open>send_with_retry\<close> over
  a link that loses any frames and any acknowledgements, while the receiver hears no other
  packets.  Sending always returns.  The receiver queues the message at most once, unchanged, however
  often it is transmitted.  If the sender reports success, the receiver has queued it (exactly once).  And if
  in one of the four attempts the frame arrives, the queue has room and the acknowledgement
  comes back in time, the sender reports success (for a message without NUL bytes).
\<close>

lemma message_transfer:
  assumes "radio_idle r" "q_type p = LORA_MSG" "length (q_message p) \<le> 251" "dd_shape (rx_dedup s)"
    and "\<not> rx_is_duplicate_multi (rx_dedup s) (extract_mac_key J (Some (c_str (q_message p)))) seq"
    and "\<forall>j. foreign seq (hops j)"
    and "R = message_side J (air_frame seq p)"
  shows "\<exists>r' ok l. send_with_retry cfg (link_env J R s hops) seq r p = Some (seq + 1, r', ok, l) \<and>
    (rx_queued R s hops (log_attempts l) = [] \<or>
     rx_queued R s hops (log_attempts l) = [\<lparr>q_type = LORA_MSG, q_message = q_message p, q_id = 0\<rparr>]) \<and>
    (ok \<longrightarrow> rx_queued R s hops (log_attempts l) \<noteq> []) \<and>
    ((\<exists>j<4. clean (message_room (q_message p)) R s hops (ack_wait cfg p) j) \<longrightarrow> ok)"
proof -
  have R: "R = message_side J (msg_frame seq (q_message p))"
    using assms(2,3,7) by (simp add: air_frame_def msg_frame_packet)
  have "ack_packet p" using assms(2,3) by (simp add: ack_packet_def)
  then show ?thesis
    unfolding R by (rule message_rx.transfer [OF assms(1) _ assms(3,4,5)]) (simp_all add: assms(6))
qed


text \<open>The first frame is lost, the second one queued and its acknowledgement lost, the third one a duplicate
  whose acknowledgement comes back.\<close>

definition sample_hops :: "nat \<Rightarrow> hop" where
  "sample_hops j =
     \<lparr>h_lbt = quiet_env, h_begin = True, h_rnd = 5, h_heard = (j \<noteq> 0), h_other = True, h_rx = sample_rx_env,
      h_noise = [(3, join8 8 ACK_OK)], h_back = (if j = 1 then None else Some 40)\<rparr>"

lemma sample_link: "radio_idle idle_radio" "foreign 9 (sample_hops j)" "dd_shape (rx_dedup rx_start)"
  "\<not> rx_is_duplicate_multi (rx_dedup rx_start) k 9"
proof -
  show "radio_idle idle_radio" by (simp add: radio_idle_def idle_radio_def)
  show "foreign 9 (sample_hops j)" by (simp add: foreign_def sample_hops_def)
  show "dd_shape (rx_dedup rx_start)" by (simp add: rx_start_def dd_shape_init)
  show "\<not> rx_is_duplicate_multi (rx_dedup rx_start) k 9"
    using dedup_sound [of "[]" k 9] by (auto simp: rx_start_def)
qed

section \<open>Network packets\<close>

definition net_frame :: "u8 \<Rightarrow> bytes \<Rightarrow> bytes" where
  "net_frame seq pl = word_of_nat (length pl) # LORA_NET # seq # packet_crc seq pl # pl"

lemma net_frame_packet:
  "length pl \<le> 251 \<Longrightarrow> frame_packet LORA_NET seq (Some pl) (length pl) (Some MAX_FRAME) = Some (net_frame seq pl)"
  unfolding net_frame_def
  by (intro frame_packet_total) (simp_all add: lora_const_defs LORA_NET_def)

text \<open>The receiving node is in network mode, and the payload is a packet for it.\<close>

definition net_for :: "u16 \<Rightarrow> u16 \<Rightarrow> bytes \<Rightarrow> bytes \<Rightarrow> bool" where
  "net_for dst src ip pl \<longleftrightarrow> length pl \<le> 251 \<and> length ip \<le> 247 \<and> dst \<noteq> src \<and> dst \<noteq> NET_BROADCAST \<and>
     net_parse (Some pl) (length pl) = Some \<lparr>nf_dst = dst, nf_src = src, nf_ip = ip, nf_len = length ip\<rparr>"

definition net_on :: "RxState \<Rightarrow> bool" where
  "net_on s \<longleftrightarrow> s_active (rx_net s) \<and> s_rx_q (rx_net s) \<noteq> None"

definition net_room :: "rx_env \<Rightarrow> RxState \<Rightarrow> bool" where
  "net_room e s \<longleftrightarrow> rx_alloc e \<and> (case s_rx_q (rx_net s) of None \<Rightarrow> False | Some q \<Rightarrow> length q < RX_Q_LEN)"

text \<open>One copy of a network packet for this node.\<close>

lemma handle_net_frame:
  assumes "net_for dst src ip pl" "net_on s" "rx_node e = dst"
  shows "handle_rx_frame J e s (net_frame seq pl) =
    (let s1 = s\<lparr>rx_net := net_heard (rx_net s) src (rx_rssi e) (rx_millis e)\<rparr> in
     if rx_is_duplicate_multi (rx_dedup s) (net_dedup_key src) seq then (s1, [OledRx True, SendAkn seq ACK_OK])
     else case net_deliver (rx_net s1) (rx_alloc e) ip (length ip) of
       (n, queued) \<Rightarrow>
         (s1\<lparr>rx_net := n, rx_dedup := (if queued then rx_commit_multi (rx_dedup s) (net_dedup_key src) seq else rx_dedup s)\<rparr>,
          [OledRx True, SendAkn seq (if queued then ACK_OK else ACK_RETRY)]))"
proof -
  have len: "length pl \<le> 251" and np: "net_parse (Some pl) (length pl) = Some \<lparr>nf_dst = dst, nf_src = src, nf_ip = ip, nf_len = length ip\<rparr>"
    and ne: "dst \<noteq> src" "src \<noteq> dst" "dst \<noteq> NET_BROADCAST"
    using assms(1) by (auto simp: net_for_def)
  have p: "parse_packet (Some (net_frame seq pl)) =
      \<lparr>p_ok = True, p_err = ErrNone, p_type = 4, p_seq = seq, p_len = word_of_nat (length pl), p_payload = Some pl\<rparr>"
    using len by (simp add: net_frame_def LORA_NET_def parse_packet_data T_REC_AKNG_def T_NET_def)
  have l: "unat (word_of_nat (length pl) :: u8) = length pl" using len by simp
  have a: "s_active (net_heard n src r t) = s_active n" for n r t
    by (simp add: net_heard_def Let_def)
  show ?thesis
    using assms(2,3) ne
    by (simp add: handle_rx_frame_def p l np a net_on_def Let_def LORA_MSG_def REC_AKNG_def LORA_SERIAL_def LORA_NET_def
        split: prod.split)
qed

lemma net_heard_keeps [simp]:
  "s_active (net_heard n src r t) = s_active n" "s_rx_q (net_heard n src r t) = s_rx_q n"
  by (simp_all add: net_heard_def Let_def)

interpretation net_rx: copy_receiver
    "net_side J (net_frame seq pl)" "\<lambda>s. net_for dst src ip pl \<and> net_on s" "\<lambda>e. rx_node e = dst" net_room
    "net_dedup_key src" seq ip
  for J :: "'v json_api" and seq pl dst src ip
proof unfold_locales
  show "(net_for dst src ip pl \<and> net_on (other_task (net_side J (net_frame seq pl)) s)) \<and>
      rx_dedup (other_task (net_side J (net_frame seq pl)) s) = rx_dedup s"
    if "net_for dst src ip pl \<and> net_on s" for s
    using that by (auto simp: net_side_def net_on_def net_writer_step_def split: option.splits list.splits)
next
  fix s s' :: RxState and e acts d queued ack
  assume i: "net_for dst src ip pl \<and> net_on s" and e: "rx_node e = dst"
    and h: "on_copy (net_side J (net_frame seq pl)) e s = (s', acts)"
    and c: "rx_copy rx_is_duplicate_multi rx_commit_multi (rx_dedup s) (net_dedup_key src) seq (net_room e s) = (d, queued, ack)"
  have len: "length ip \<le> 247" using i by (simp add: net_for_def)
  from h c show "(net_for dst src ip pl \<and> net_on s') \<and> rx_dedup s' = d \<and>
      waiting (net_side J (net_frame seq pl)) s' = waiting (net_side J (net_frame seq pl)) s @ (if queued then [ip] else []) \<and>
      filter is_ack acts = [SendAkn seq ack]"
    using i len
    by (auto simp: net_side_def handle_net_frame [OF _ _ e] net_on_def net_room_def net_deliver_def rx_copy_def Let_def
        is_ack_def LORA_MAX_PAYLOAD_eq split: if_splits option.splits prod.splits)
qed

text \<open>What the PC's packet becomes on the air.\<close>

lemma parsed_payload:
  assumes "net_parse (Some pl) (length pl) = Some \<lparr>nf_dst = dst, nf_src = src, nf_ip = ip, nf_len = length ip\<rparr>"
    and "length ip \<le> 247" "dst \<noteq> NET_BROADCAST" "dst \<noteq> src"
  shows "net_for dst src ip pl \<and> ack_packet \<lparr>q_type = LORA_NET, q_message = pl, q_id = i\<rparr>"
proof -
  have "length pl > 4" "join8 (pl ! 0) (pl ! 1) = dst" "length pl - 4 = length ip"
    using assms(1) by (auto simp: net_parse_def NET_HDR_def Let_def simp del: join8_eq_iff split: if_splits)
  then show ?thesis
    using assms by (simp add: net_for_def ack_packet_def LORA_NET_def LORA_MSG_def)
qed

text \<open>
  C2 (net_transfer).  An IP packet of at most 247 bytes, from a PC to the PC at another node, over the two USB
  ports and a link that loses any frames and any acknowledgements, while the receiver, which is in
  network mode, hears no other packets.  The bytes of one SLIP frame make the first board queue exactly one
  radio packet.  Sending it always returns.  The second board queues the IP packet for its PC at
  most once and unchanged; it has queued it whenever the first board reports success; and the
  first board reports success when in one of the four attempts the frame arrives, the queue has
  room and the acknowledgement comes back in time.
\<close>

theorem net_transfer:
  assumes "slip_ready SLIP_CAP (s_dec n)" "map snd ebs = slip_frame ip" "e = fst (last ebs)"
    and "net_ipv4_ok (Some ip) (length ip)" "length ip \<le> 247"
    and "dst = net_ip_to_node (drop 16 ip)" "dst \<noteq> 0" "dst \<noteq> NET_BROADCAST" "dst \<noteq> my_node e"
    and "my_node e \<noteq> 0" "my_node e \<noteq> NET_BROADCAST" "alloc_ok e" "queue_ok e"
    and "radio_idle r" "dd_shape (rx_dedup s)" "net_on s"
    and "\<not> rx_is_duplicate_multi (rx_dedup s) (net_dedup_key (my_node e)) seq"
    and "\<forall>j. foreign seq (hops j)" "\<forall>j. rx_node (h_rx (hops j)) = dst"
  shows "\<exists>n' p evs. net_feeds n ebs = (n', RadioQueue p # evs) \<and> (\<forall>ev \<in> set evs. \<exists>bs. ev = SerialWrite bs) \<and>
    (let R = net_side J (air_frame seq p) in
     \<exists>r' ok l. send_with_retry cfg (link_env J R s hops) seq r p = Some (seq + 1, r', ok, l) \<and>
       (rx_queued R s hops (log_attempts l) = [] \<or> rx_queued R s hops (log_attempts l) = [ip]) \<and>
       (ok \<longrightarrow> rx_queued R s hops (log_attempts l) \<noteq> []) \<and>
       ((\<exists>j<4. clean net_room R s hops (ack_wait cfg p) j) \<longrightarrow> ok))"
proof -
  from net_packet_forwarded [OF assms(1-7,9-13)] obtain n' p evs
    where feeds: "net_feeds n ebs = (n', RadioQueue p # evs)" "\<forall>ev \<in> set evs. \<exists>bs. ev = SerialWrite bs"
      and p: "q_type p = LORA_NET" "net_parse (Some (q_message p)) (length (q_message p)) =
        Some \<lparr>nf_dst = dst, nf_src = my_node e, nf_ip = ip, nf_len = length ip\<rparr>" by blast
  have pl: "net_for dst (my_node e) ip (q_message p)" and ack: "ack_packet p"
    using parsed_payload [OF p(2) assms(5,8,9), of "q_id p"] p(1) by (auto simp: ack_packet_def)
  have frame: "air_frame seq p = net_frame seq (q_message p)"
    using pl p(1) by (simp add: air_frame_def net_frame_packet net_for_def)
  have "net_for dst (my_node e) ip (q_message p) \<and> net_on s"
    using pl assms(16) by simp
  from net_rx.transfer [OF assms(14) ack this assms(15,17)] assms(18,19)
  have "\<exists>r' ok l. send_with_retry cfg (link_env J (net_side J (air_frame seq p)) s hops) seq r p = Some (seq + 1, r', ok, l) \<and>
       (rx_queued (net_side J (air_frame seq p)) s hops (log_attempts l) = [] \<or>
        rx_queued (net_side J (air_frame seq p)) s hops (log_attempts l) = [ip]) \<and>
       (ok \<longrightarrow> rx_queued (net_side J (air_frame seq p)) s hops (log_attempts l) \<noteq> []) \<and>
       ((\<exists>j<4. clean net_room (net_side J (air_frame seq p)) s hops (ack_wait cfg p) j) \<longrightarrow> ok)"
    unfolding frame by blast
  with feeds show ?thesis by (auto simp: Let_def)
qed

text \<open>The PC at node 0x0102 sends to node 0x0304, over the link of the message above.\<close>

definition sample_net_hops :: "nat \<Rightarrow> hop" where
  "sample_net_hops j = (sample_hops j)\<lparr>h_rx := sample_rx_env\<lparr>rx_node := 0x0304\<rparr>\<rparr>"

definition sample_net_rx :: RxState where
  "sample_net_rx = rx_start\<lparr>rx_net := sample_active\<rparr>"

theorem net_transfer_witness:
  "\<exists>n' p evs. net_feeds NetState_init (map (Pair sample_env) (slip_frame sample_ip)) = (n', RadioQueue p # evs) \<and>
    (\<exists>r' ok l. send_with_retry sample_tx_cfg
        (link_env sample_json (net_side sample_json (air_frame 9 p)) sample_net_rx sample_net_hops) 9 idle_radio p =
      Some (10, r', ok, l))"
proof -
  have l: "sample_env = fst (last (map (Pair sample_env) (slip_frame sample_ip)))"
    by (simp add: slip_frame_def)
  have d: "0x0304 = net_ip_to_node (drop 16 sample_ip)"
    by (simp add: sample_ip_def net_ip_to_node_def join8_def NET_PREFIX_A_def NET_PREFIX_B_def)
  have ip: "net_ipv4_ok (Some sample_ip) (length sample_ip)" "length sample_ip \<le> 247"
    using sample_ip_ok by (simp_all add: net_ipv4_ok_def sample_ip_def join8_def)
  have m: "map snd (map (Pair sample_env) (slip_frame sample_ip)) = slip_frame sample_ip" by (simp add: comp_def)
  have e: "(0x0304 :: u16) \<noteq> 0" "(0x0304 :: u16) \<noteq> NET_BROADCAST" "0x0304 \<noteq> my_node sample_env" "my_node sample_env \<noteq> 0"
    "my_node sample_env \<noteq> NET_BROADCAST" "alloc_ok sample_env" "queue_ok sample_env"
    by (simp_all add: sample_env_def NET_BROADCAST_def)
  have s: "dd_shape (rx_dedup sample_net_rx)" "net_on sample_net_rx"
    "\<not> rx_is_duplicate_multi (rx_dedup sample_net_rx) (net_dedup_key (my_node sample_env)) 9"
    using sample_link(3,4) by (simp_all add: sample_net_rx_def net_on_def sample_active_def)
  have h: "\<forall>j. foreign 9 (sample_net_hops j)" "\<forall>j. rx_node (h_rx (sample_net_hops j)) = 0x0304"
    using sample_link(2) by (simp_all add: sample_net_hops_def foreign_def)
  show ?thesis
    using net_transfer [OF ready_init m l ip d e sample_link(1) s h, of sample_json sample_tx_cfg]
    unfolding Let_def by auto
qed

end
