(* ===== verification/Button.thy ===== *)
theory Button
  imports Voy_Prelude
begin

text \<open>
  The push buttons: the debounce and hold machine \<open>CoreButton\<close> of
  \<open>src/src/core/core_dispatch.h\<close> (lines 297-367) and one turn of the polling task of
  \<open>src/src/core/tasks.cpp\<close> (lines 80-136).  Time is \<open>millis()\<close>, a 32-bit count that wraps.
\<close>

definition CORE_BTN_DEBOUNCE_MS :: u32 where "CORE_BTN_DEBOUNCE_MS = 30"
definition CORE_SOS_HOLD_MS :: u32 where "CORE_SOS_HOLD_MS = 2000"
definition CORE_BTN2_LONG_MS :: u32 where "CORE_BTN2_LONG_MS = 1000"

datatype BtnEvent = NoEvent | Pressed | Progress | HoldFired | ShortRelease | LongRelease

record CoreButton =
  hold_ms :: u32
  raw :: bool
  raw_since :: u32
  stable :: bool
  press_start :: u32
  fired :: bool
  last_pct :: u8

definition CoreButton_init :: "u32 \<Rightarrow> CoreButton" where
  "CoreButton_init hold = \<lparr>hold_ms = hold, raw = False, raw_since = 0, stable = False, press_start = 0,
     fired = False, last_pct = 255\<rparr>"

text \<open>\<open>update\<close>: the new state and the output, an event with a percentage.\<close>

definition update :: "CoreButton \<Rightarrow> bool \<Rightarrow> u32 \<Rightarrow> CoreButton \<times> BtnEvent \<times> u8" where
  "update b pressed now =
     (let b = (if pressed \<noteq> raw b then b\<lparr>raw := pressed, raw_since := now\<rparr> else b) in
      if raw b \<noteq> stable b \<and> now - raw_since b \<ge> CORE_BTN_DEBOUNCE_MS then
        let b = b\<lparr>stable := raw b\<rparr> in
        if stable b then (b\<lparr>press_start := now, fired := False, last_pct := 0\<rparr>, Pressed, 0)
        else (b\<lparr>fired := False, last_pct := 255\<rparr>, if fired b then LongRelease else ShortRelease, 0)
      else if stable b \<and> \<not> fired b then
        let held = now - press_start b in
        if held \<ge> hold_ms b then (b\<lparr>fired := True\<rparr>, HoldFired, 100)
        else
          let pct = (ucast ((ucast held * 100 :: u64) div ucast (hold_ms b)) :: u8) in
          if pct \<noteq> last_pct b then (b\<lparr>last_pct := pct\<rparr>, Progress, pct)
          else (b, NoEvent, 0)
      else (b, NoEvent, 0))"

section \<open>The polling task\<close>

datatype btn_action = OledProgress u8 | OledProgressOff | SendSos | OledButton nat bool

text \<open>One turn, for the levels of both buttons.\<close>

definition btn_intrupt_step ::
    "CoreButton \<times> CoreButton \<times> u8 \<Rightarrow> u32 \<Rightarrow> bool \<Rightarrow> bool \<Rightarrow> (CoreButton \<times> CoreButton \<times> u8) \<times> btn_action list" where
  "btn_intrupt_step st now level1 level2 =
     (case st of (b1, b2, shown_step) \<Rightarrow>
      case update b1 level1 now of (b1', ev1, pct1) \<Rightarrow>
      case (if ev1 = Pressed \<or> ev1 = Progress then
              (let step = pct1 div 10 in
               if step \<noteq> shown_step then (step, [OledProgress pct1]) else (shown_step, []))
            else if ev1 = HoldFired then (255, [OledProgressOff, SendSos])
            else if ev1 = ShortRelease then (255, [OledProgressOff, OledButton 1 False])
            else (shown_step, [])) of (shown, acts1) \<Rightarrow>
      case update b2 level2 now of (b2', ev2, pct2) \<Rightarrow>
        ((b1', b2', shown),
         acts1 @ (if ev2 = ShortRelease then [OledButton 2 False]
                  else if ev2 = HoldFired then [OledButton 2 True] else [])))"

section \<open>Time since the press\<close>

lemma unat_ucast_u64: "unat (ucast (x :: u32) :: u64) = unat x"
  by (simp add: unsigned_ucast_eq take_bit_nat_eq_self order.strict_trans [OF unat_u32_lt])

lemma unat_ucast_u8: "unat (x :: u64) < 256 \<Longrightarrow> unat (ucast x :: u8) = unat x"
  by (simp add: unsigned_ucast_eq take_bit_nat_eq_self)

lemma pct_nat: "unat ((ucast held * 100 :: u64) div ucast (hold :: u32)) = unat (held :: u32) * 100 div unat hold"
proof -
  have "unat held * 100 < 18446744073709551616" using unat_u32_lt [of held] by linarith
  then have "unat (ucast held * 100 :: u64) = unat held * 100"
    by (simp add: unat_word_ariths unat_ucast_u64)
  then show ?thesis by (simp add: unat_div unat_ucast_u64)
qed

lemma pct_less_100:
  assumes "held < (hold :: u32)"
  shows "unat held * 100 div unat hold < 100"
  using assms by (simp add: word_less_nat_alt div_less_iff_less_mult)

section \<open>Presses as runs\<close>

text \<open>The events of a run of polls, each a level with its time.\<close>

fun btn_run :: "CoreButton \<Rightarrow> (bool \<times> u32) list \<Rightarrow> CoreButton \<times> BtnEvent list" where
  "btn_run b [] = (b, [])"
| "btn_run b ((p, t) # ps) =
     (case update b p t of
        (b', ev, pct) \<Rightarrow> (case btn_run b' ps of (b'', evs) \<Rightarrow> (b'', ev # evs)))"

text \<open>What a run reports, without the silent and the progress polls.\<close>

definition edges :: "BtnEvent list \<Rightarrow> BtnEvent list" where
  "edges evs = filter (\<lambda>e. e \<noteq> NoEvent \<and> e \<noteq> Progress) evs"

text \<open>The edges a button may still report: from released, a press, perhaps one hold, the release
  that fits, and so on.\<close>

inductive edge_seq :: "bool \<Rightarrow> bool \<Rightarrow> BtnEvent list \<Rightarrow> bool" where
  quiet: "edge_seq st fi []"
| pressed: "edge_seq True False es \<Longrightarrow> edge_seq False fi (Pressed # es)"
| held: "edge_seq True True es \<Longrightarrow> edge_seq True False (HoldFired # es)"
| short_rel: "edge_seq False False es \<Longrightarrow> edge_seq True False (ShortRelease # es)"
| long_rel: "edge_seq False False es \<Longrightarrow> edge_seq True True (LongRelease # es)"

code_pred edge_seq .

inductive_cases edge_seq_ConsE: "edge_seq st fi (e # es)"

lemma update_edge:
  "update b p t = (b', ev, pct) \<Longrightarrow>
     hold_ms b' = hold_ms b \<and>
     (ev = NoEvent \<and> stable b' = stable b \<and> fired b' = fired b \<or>
      ev = Progress \<and> stable b' = stable b \<and> fired b' = fired b \<and> stable b \<and> \<not> fired b \<and> pct \<le> 99 \<or>
      ev = Pressed \<and> \<not> stable b \<and> stable b' \<and> \<not> fired b' \<or>
      ev = HoldFired \<and> stable b \<and> \<not> fired b \<and> stable b' \<and> fired b' \<or>
      ev = ShortRelease \<and> stable b \<and> \<not> fired b \<and> \<not> stable b' \<and> \<not> fired b' \<or>
      ev = LongRelease \<and> stable b \<and> fired b \<and> \<not> stable b' \<and> \<not> fired b')"
proof -
  assume u: "update b p t = (b', ev, pct)"
  have pct: "(ucast ((ucast h * 100 :: u64) div ucast (hold_ms b)) :: u8) \<le> 99" if "h < hold_ms b" for h
    using pct_less_100 [OF that] by (simp add: word_le_nat_alt unat_ucast_u8 pct_nat)
  show ?thesis using u
    by (auto simp: update_def Let_def not_le pct split: if_splits)
qed

lemma edges_Cons: "edges (e # es) = (if e = NoEvent \<or> e = Progress then edges es else e # edges es)"
  by (simp add: edges_def)

lemma run_edges: "edge_seq (stable b) (fired b) (edges (snd (btn_run b samples)))"
proof (induction b samples rule: btn_run.induct)
  case (1 b)
  then show ?case by (simp add: edges_def edge_seq.quiet)
next
  case (2 b p t ps)
  obtain b' ev pct where u: "update b p t = (b', ev, pct)" by (metis prod_cases3)
  from 2 [OF u [symmetric] refl] have IH: "edge_seq (stable b') (fired b') (edges (snd (btn_run b' ps)))" .
  have s: "edges (snd (btn_run b ((p, t) # ps))) =
      (if ev = NoEvent \<or> ev = Progress then edges (snd (btn_run b' ps)) else ev # edges (snd (btn_run b' ps)))"
    by (simp add: u edges_Cons split: prod.splits)
  show ?case using update_edge [OF u] IH unfolding s by (auto intro: edge_seq.intros)
qed

section \<open>Levels over time\<close>

text \<open>What the events say about the button: down after a press, up after a release.\<close>

fun reported :: "bool \<Rightarrow> BtnEvent list \<Rightarrow> bool" where
  "reported d [] = d"
| "reported d (e # es) =
     reported (if e = Pressed then True else if e = ShortRelease \<or> e = LongRelease then False else d) es"

lemma reported_snoc:
  "reported d (es @ [e]) =
     (if e = Pressed then True else if e = ShortRelease \<or> e = LongRelease then False else reported d es)"
  by (induction es arbitrary: d) auto

lemma btn_run_snoc:
  "btn_run b (ps @ [(p, t)]) =
     (case btn_run b ps of (b', evs) \<Rightarrow> (case update b' p t of (b'', ev, pct) \<Rightarrow> (b'', evs @ [ev])))"
  by (induction b ps rule: btn_run.induct) (auto split: prod.splits)

text \<open>The level has been \<open>raw b\<close> since sample \<open>k\<close>, and was different before.\<close>

definition level_from :: "(bool \<times> u32) list \<Rightarrow> nat \<Rightarrow> bool \<Rightarrow> bool" where
  "level_from ps k p \<longleftrightarrow> k < length ps \<and> (\<forall>m. k \<le> m \<and> m < length ps \<longrightarrow> fst (ps ! m) = p) \<and>
     (k = 0 \<or> fst (ps ! (k - 1)) \<noteq> p)"

definition raw_ok :: "(bool \<times> u32) list \<Rightarrow> CoreButton \<Rightarrow> bool" where
  "raw_ok ps b \<longleftrightarrow>
     \<not> raw b \<and> \<not> stable b \<and> (\<forall>s \<in> set ps. \<not> fst s) \<or>
     (\<exists>k. level_from ps k (raw b) \<and> snd (ps ! k) = raw_since b \<and> (k = 0 \<longrightarrow> raw b))"

text \<open>The press being timed is the last one, and its hold event is in the list exactly when it
  was fired.\<close>

definition press_ok :: "(bool \<times> u32) list \<Rightarrow> BtnEvent list \<Rightarrow> CoreButton \<Rightarrow> bool" where
  "press_ok ps evs b \<longleftrightarrow>
     (\<exists>k < length evs. evs ! k = Pressed \<and> press_start b = snd (ps ! k) \<and>
        (\<forall>m. k < m \<and> m < length evs \<longrightarrow> evs ! m \<in> {NoEvent, Progress, HoldFired}) \<and>
        (fired b \<longleftrightarrow> (\<exists>m. k < m \<and> m < length evs \<and> evs ! m = HoldFired)))"

definition btn_inv :: "u32 \<Rightarrow> (bool \<times> u32) list \<Rightarrow> BtnEvent list \<Rightarrow> CoreButton \<Rightarrow> bool" where
  "btn_inv hold ps evs b \<longleftrightarrow> length evs = length ps \<and> hold_ms b = hold \<and> stable b = reported False evs \<and>
     raw_ok ps b \<and> (stable b \<longrightarrow> press_ok ps evs b)"

lemma level_from_snoc:
  "level_from ps k p \<Longrightarrow> level_from (ps @ [(p, t)]) k p"
  by (auto simp: level_from_def nth_append less_Suc_eq)

lemma level_from_change:
  "ps \<noteq> [] \<Longrightarrow> fst (last ps) \<noteq> p \<Longrightarrow> level_from (ps @ [(p, t)]) (length ps) p"
  by (cases ps rule: rev_cases) (auto simp: level_from_def nth_append)

lemma level_from_unique:
  assumes "level_from ps k p" "level_from ps k' p"
  shows "k = k'"
proof -
  have "False" if "a < c" "level_from ps a p" "level_from ps c p" for a c
  proof -
    from that have "a \<le> c - 1" "c - 1 < length ps" by (auto simp: level_from_def)
    with that show False by (auto simp: level_from_def)
  qed
  with assms show ?thesis by (meson linorder_neqE_nat)
qed

lemma level_from_last: "level_from ps k p \<Longrightarrow> ps \<noteq> [] \<and> fst (last ps) = p"
  by (cases ps rule: rev_cases) (auto simp: level_from_def nth_append dest: spec [where x = "length ps - 1"])

lemma update_raw:
  "update b p t = (b', ev, pct) \<Longrightarrow>
     raw b' = p \<and> raw_since b' = (if p = raw b then raw_since b else t) \<and>
     (CORE_BTN_DEBOUNCE_MS \<le> t - raw_since b' \<longrightarrow> stable b' = p) \<and>
     (ev \<in> {Pressed, ShortRelease, LongRelease} \<longrightarrow>
        CORE_BTN_DEBOUNCE_MS \<le> t - raw_since b' \<and> p = (ev = Pressed))"
  by (auto simp: update_def Let_def split: if_splits)

lemma update_press:
  "update b p t = (b', ev, pct) \<Longrightarrow>
     press_start b' = (if ev = Pressed then t else press_start b) \<and>
     (ev = HoldFired \<longrightarrow> hold_ms b \<le> t - press_start b) \<and>
     (stable b \<and> \<not> fired b \<and> ev \<notin> {ShortRelease, HoldFired} \<longrightarrow> t - press_start b < hold_ms b)"
  by (auto simp: update_def Let_def not_le split: if_splits)

lemma raw_ok_up:
  assumes "raw_ok ps b" "\<forall>s \<in> set ps. \<not> fst s"
  shows "\<not> raw b \<and> \<not> stable b"
proof (rule ccontr)
  assume "\<not> ?thesis"
  with assms(1) obtain k where k: "level_from ps k (raw b)" "k = 0 \<longrightarrow> raw b" unfolding raw_ok_def by blast
  then have "fst (ps ! k) = raw b" "k < length ps" by (auto simp: level_from_def)
  with assms(2) have "\<not> raw b" by auto
  with k have "k \<noteq> 0" "fst (ps ! (k - 1))" "k - 1 < length ps" by (auto simp: level_from_def)
  with assms(2) show False by auto
qed

lemma raw_ok_step:
  assumes "raw_ok ps b" "update b p t = (b', ev, pct)"
  shows "raw_ok (ps @ [(p, t)]) b'"
proof (cases "p = raw b")
  case True
  have r: "raw b' = raw b" "raw_since b' = raw_since b" using update_raw [OF assms(2)] True by auto
  from assms(1) consider (up) "\<not> raw b" "\<not> stable b" "\<forall>s \<in> set ps. \<not> fst s"
    | (k) k where "level_from ps k (raw b)" "snd (ps ! k) = raw_since b" "k = 0 \<longrightarrow> raw b"
    unfolding raw_ok_def by blast
  then show ?thesis
  proof cases
    case up
    then have "\<not> stable b'" using True assms(2) by (simp add: update_def split: if_splits)
    with up True r show ?thesis by (simp add: raw_ok_def)
  next
    case k
    from k(1) have "level_from (ps @ [(p, t)]) k (raw b)" unfolding True by (rule level_from_snoc)
    moreover have "(ps @ [(p, t)]) ! k = ps ! k" using k(1) by (simp add: level_from_def nth_append)
    ultimately show ?thesis using k r by (auto simp: raw_ok_def)
  qed
next
  case False
  have c: "level_from (ps @ [(p, t)]) (length ps) p \<and> (length ps = 0 \<longrightarrow> p)"
  proof (cases "ps = []")
    case True
    with False assms(1) show ?thesis by (auto simp: raw_ok_def level_from_def)
  next
    case ne: False
    have "fst (last ps) = raw b" using assms(1) ne by (auto simp: raw_ok_def dest: level_from_last)
    with False ne show ?thesis by (auto intro: level_from_change)
  qed
  have "raw b' = p" "raw_since b' = t" using update_raw [OF assms(2)] False by auto
  with c show ?thesis by (auto simp: raw_ok_def intro!: exI [where x = "length ps"])
qed

lemma press_ok_step:
  assumes "stable b \<longrightarrow> press_ok ps evs b" "length evs = length ps"
    and u: "update b p t = (b', ev, pct)" and "stable b'"
  shows "press_ok (ps @ [(p, t)]) (evs @ [ev]) b'"
proof (cases "ev = Pressed")
  case True
  then have "press_start b' = t" "\<not> fired b'" using update_press [OF u] update_edge [OF u] by auto
  with True assms(2) show ?thesis
    by (auto simp: press_ok_def nth_append intro!: exI [where x = "length evs"])
next
  case False
  with update_edge [OF u] assms(4) have st: "stable b" "ev \<in> {NoEvent, Progress, HoldFired}"
    "fired b' = (fired b \<or> ev = HoldFired)" by auto
  from False update_press [OF u] have ps: "press_start b' = press_start b" by simp
  from st(1) assms(1) obtain k where k: "k < length evs" "evs ! k = Pressed" "press_start b = snd (ps ! k)"
    "\<forall>m. k < m \<and> m < length evs \<longrightarrow> evs ! m \<in> {NoEvent, Progress, HoldFired}"
    "fired b \<longleftrightarrow> (\<exists>m. k < m \<and> m < length evs \<and> evs ! m = HoldFired)" by (auto simp: press_ok_def)
  have fired: "fired b' \<longleftrightarrow> (\<exists>m. k < m \<and> m < Suc (length evs) \<and> (evs @ [ev]) ! m = HoldFired)"
    using k(1,5) st(3) by (auto simp: nth_append less_Suc_eq)
  have mid: "\<forall>m. k < m \<and> m < Suc (length evs) \<longrightarrow> (evs @ [ev]) ! m \<in> {NoEvent, Progress, HoldFired}"
    using k(4) st(2) by (auto simp: nth_append less_Suc_eq)
  have "k < length ps" using k(1) assms(2) by simp
  with k(1,2,3) fired mid ps show ?thesis unfolding press_ok_def
    by (intro exI [where x = k]) (simp add: nth_append)
qed

lemma btn_run_inv:
  "btn_run (CoreButton_init hold) ps = (b, evs) \<Longrightarrow> btn_inv hold ps evs b"
proof (induction ps arbitrary: b evs rule: rev_induct)
  case Nil
  then show ?case by (auto simp: btn_inv_def raw_ok_def CoreButton_init_def)
next
  case (snoc x ps)
  obtain p t where x: "x = (p, t)" by (cases x)
  obtain b0 evs0 where r: "btn_run (CoreButton_init hold) ps = (b0, evs0)" by fastforce
  obtain b1 ev pct where u: "update b0 p t = (b1, ev, pct)" by (metis prod_cases3)
  from snoc.IH [OF r] have inv: "btn_inv hold ps evs0 b0" .
  from snoc.prems have be: "b = b1" "evs = evs0 @ [ev]" by (simp_all add: x btn_run_snoc r u)
  from inv update_edge [OF u] raw_ok_step [OF _ u, of ps] press_ok_step [OF _ _ u, of ps evs0]
  show ?case by (auto simp: x be btn_inv_def reported_snoc)
qed

text \<open>One sample of a run: the state before it, and its event.\<close>

lemma btn_run_at:
  assumes "btn_run (CoreButton_init hold) ps = (b, evs)" "i < length ps"
  shows "\<exists>b0 b1 pct. btn_run (CoreButton_init hold) (take i ps) = (b0, take i evs) \<and>
    update b0 (fst (ps ! i)) (snd (ps ! i)) = (b1, evs ! i, pct) \<and>
    btn_run (CoreButton_init hold) (take (Suc i) ps) = (b1, take (Suc i) evs)"
  using assms
proof (induction ps arbitrary: b evs rule: rev_induct)
  case (snoc x ps)
  obtain p t where x: "x = (p, t)" by (cases x)
  obtain b0 evs0 where r: "btn_run (CoreButton_init hold) ps = (b0, evs0)" by fastforce
  obtain b1 ev pct where u: "update b0 p t = (b1, ev, pct)" by (metis prod_cases3)
  from snoc.prems(1) have be: "b = b1" "evs = evs0 @ [ev]" by (simp_all add: x btn_run_snoc r u)
  have len: "length evs0 = length ps" using btn_run_inv [OF r] by (simp add: btn_inv_def)
  show ?case
  proof (cases "i < length ps")
    case True
    from snoc.IH [OF r True] True len show ?thesis by (simp add: be nth_append)
  next
    case False
    with snoc.prems(2) have "i = length ps" by simp
    with r u len show ?thesis by (simp add: be x btn_run_snoc nth_append)
  qed
qed simp

lemma level_from_take:
  assumes "i < length ps"
  shows "level_from (take (Suc i) ps) k p \<longleftrightarrow>
     k \<le> i \<and> (\<forall>m. k \<le> m \<and> m \<le> i \<longrightarrow> fst (ps ! m) = p) \<and> (k = 0 \<or> fst (ps ! (k - 1)) \<noteq> p)"
  using assms by (auto simp: level_from_def less_Suc_eq_le)

lemma edge_is_settled:
  assumes "btn_run (CoreButton_init hold) ps = (b, evs)" "i < length ps"
    and e: "evs ! i \<in> {Pressed, ShortRelease, LongRelease}"
  shows "\<exists>k \<le> i. (\<forall>m. k \<le> m \<and> m \<le> i \<longrightarrow> fst (ps ! m) = (evs ! i = Pressed)) \<and> 30 \<le> snd (ps ! i) - snd (ps ! k)"
proof -
  obtain b0 b1 pct where s: "update b0 (fst (ps ! i)) (snd (ps ! i)) = (b1, evs ! i, pct)"
    "btn_run (CoreButton_init hold) (take i ps) = (b0, take i evs)"
    "btn_run (CoreButton_init hold) (take (Suc i) ps) = (b1, take (Suc i) evs)"
    using btn_run_at [OF assms(1,2)] by blast
  from update_raw [OF s(1)] e have u: "raw b1 = (evs ! i = Pressed)" "30 \<le> snd (ps ! i) - raw_since b1"
    unfolding CORE_BTN_DEBOUNCE_MS_def by blast+
  from btn_run_inv [OF s(2)] btn_run_inv [OF s(3)]
  have inv: "raw_ok (take (Suc i) ps) b1" "stable b0 = reported False (take i evs)" "raw_ok (take i ps) b0"
    by (simp_all add: btn_inv_def)
  have "\<not> (\<not> raw b1 \<and> \<not> stable b1 \<and> (\<forall>s \<in> set (take (Suc i) ps). \<not> fst s))"
  proof
    assume up: "\<not> raw b1 \<and> \<not> stable b1 \<and> (\<forall>s \<in> set (take (Suc i) ps). \<not> fst s)"
    moreover have "set (take i ps) \<subseteq> set (take (Suc i) ps)" by (rule set_take_subset_set_take) simp
    ultimately have "\<not> stable b0" using raw_ok_up [OF inv(3)] by blast
    with up update_edge [OF s(1)] e show False by auto
  qed
  with inv(1) obtain k where "level_from (take (Suc i) ps) k (raw b1)" "snd (take (Suc i) ps ! k) = raw_since b1"
    unfolding raw_ok_def by blast
  with u level_from_take [OF assms(2)] show ?thesis by (intro exI [where x = k]) auto
qed

lemma settled_is_reported:
  assumes "btn_run (CoreButton_init hold) ps = (b, evs)" "i < length ps" "k \<le> i"
    and "\<forall>m. k \<le> m \<and> m \<le> i \<longrightarrow> fst (ps ! m) = p" "k = 0 \<or> fst (ps ! (k - 1)) \<noteq> p"
    and late: "30 \<le> snd (ps ! i) - snd (ps ! k)"
  shows "reported False (take (Suc i) evs) = p"
proof -
  obtain b0 b1 pct where s: "update b0 (fst (ps ! i)) (snd (ps ! i)) = (b1, evs ! i, pct)"
    "btn_run (CoreButton_init hold) (take (Suc i) ps) = (b1, take (Suc i) evs)"
    using btn_run_at [OF assms(1,2)] by blast
  from btn_run_inv [OF s(2)] have inv: "raw_ok (take (Suc i) ps) b1" "stable b1 = reported False (take (Suc i) evs)"
    by (simp_all add: btn_inv_def)
  from assms(3,4) have pi: "fst (ps ! i) = p" by simp
  with update_raw [OF s(1)] have u: "raw b1 = p" "30 \<le> snd (ps ! i) - raw_since b1 \<longrightarrow> stable b1 = p"
    by (auto simp: CORE_BTN_DEBOUNCE_MS_def)
  have lk: "level_from (take (Suc i) ps) k p" using assms(3-5) by (simp add: level_from_take [OF assms(2)])
  from inv(1) consider "\<not> raw b1" "\<not> stable b1"
    | k' where "level_from (take (Suc i) ps) k' (raw b1)" "snd (take (Suc i) ps ! k') = raw_since b1"
    unfolding raw_ok_def by blast
  then show ?thesis
  proof cases
    case 1
    with u(1) inv(2) show ?thesis by simp
  next
    case 2
    with lk u(1) have "k' = k" by (auto dest: level_from_unique)
    with 2(2) assms(3) have "raw_since b1 = snd (ps ! k)" by simp
    with u(2) late inv(2) show ?thesis by simp
  qed
qed

lemma hold_is_timed:
  assumes "btn_run (CoreButton_init hold) ps = (b, evs)" "i < length ps" "evs ! i = HoldFired"
  shows "\<exists>k < i. evs ! k = Pressed \<and> (\<forall>m. k < m \<and> m < i \<longrightarrow> evs ! m \<in> {NoEvent, Progress}) \<and>
    hold \<le> snd (ps ! i) - snd (ps ! k)"
proof -
  obtain b0 b1 pct where s: "update b0 (fst (ps ! i)) (snd (ps ! i)) = (b1, evs ! i, pct)"
    "btn_run (CoreButton_init hold) (take i ps) = (b0, take i evs)"
    using btn_run_at [OF assms(1,2)] by blast
  from update_edge [OF s(1)] assms(3) have st: "stable b0" "\<not> fired b0" by auto
  with btn_run_inv [OF s(2)] have "press_ok (take i ps) (take i evs) b0" "hold_ms b0 = hold" "length (take i evs) = i"
    using assms(2) by (auto simp: btn_inv_def)
  with st(2) obtain k where "k < i" "evs ! k = Pressed" "press_start b0 = snd (ps ! k)"
    "\<forall>m. k < m \<and> m < i \<longrightarrow> evs ! m \<in> {NoEvent, Progress}" unfolding press_ok_def by fastforce
  with update_press [OF s(1)] assms(3) \<open>hold_ms b0 = hold\<close> show ?thesis by auto
qed

lemma reported_since_press:
  assumes "k < i" "i \<le> length evs" "evs ! k = Pressed" "\<forall>m. k < m \<and> m < i \<longrightarrow> evs ! m \<notin> {ShortRelease, LongRelease}"
  shows "reported d (take i evs)"
  using assms
proof (induction i)
  case (Suc i)
  then have "take (Suc i) evs = take i evs @ [evs ! i]" by (simp add: take_Suc_conv_app_nth)
  moreover have "k = i \<or> reported d (take i evs) \<and> evs ! i \<notin> {ShortRelease, LongRelease}"
    using Suc by (auto simp: less_Suc_eq)
  ultimately show ?case using Suc.prems(3) by (auto simp: reported_snoc)
qed simp

lemma hold_is_reported:
  assumes "btn_run (CoreButton_init hold) ps = (b, evs)" "i < length ps" "k < i" "evs ! k = Pressed"
    and rel: "\<forall>m. k < m \<and> m \<le> i \<longrightarrow> evs ! m \<notin> {ShortRelease, LongRelease}"
    and late: "hold \<le> snd (ps ! i) - snd (ps ! k)"
  shows "\<exists>m. k < m \<and> m \<le> i \<and> evs ! m = HoldFired"
proof (rule ccontr)
  assume none: "\<not> ?thesis"
  obtain b0 b1 pct where s: "update b0 (fst (ps ! i)) (snd (ps ! i)) = (b1, evs ! i, pct)"
    "btn_run (CoreButton_init hold) (take i ps) = (b0, take i evs)"
    using btn_run_at [OF assms(1,2)] by blast
  have len: "length evs = length ps" using btn_run_inv [OF assms(1)] by (simp add: btn_inv_def)
  have "reported False (take i evs)"
    using reported_since_press [of k i evs False] assms(2-4) rel len by simp
  with btn_run_inv [OF s(2)] have st: "stable b0" "hold_ms b0 = hold" "press_ok (take i ps) (take i evs) b0"
    by (auto simp: btn_inv_def)
  from st(3) obtain k' where "k' < length (take i evs)" "take i evs ! k' = Pressed"
    "press_start b0 = snd (take i ps ! k')"
    "\<forall>m. k' < m \<and> m < length (take i evs) \<longrightarrow> take i evs ! m \<in> {NoEvent, Progress, HoldFired}"
    "fired b0 \<longrightarrow> (\<exists>m. k' < m \<and> m < length (take i evs) \<and> take i evs ! m = HoldFired)"
    unfolding press_ok_def by blast
  with len assms(2) have k': "k' < i" "evs ! k' = Pressed" "press_start b0 = snd (ps ! k')"
    "\<forall>m. k' < m \<and> m < i \<longrightarrow> evs ! m \<in> {NoEvent, Progress, HoldFired}"
    "fired b0 \<longrightarrow> (\<exists>m. k' < m \<and> m < i \<and> evs ! m = HoldFired)" by auto
  from k'(1,4) assms(3,4) have "\<not> k' < k" by fastforce
  then consider "k' = k" | "k < k'" by linarith
  then have kk: "k' = k"
  proof cases
    case 2
    obtain c0 c1 q where c: "update c0 (fst (ps ! k')) (snd (ps ! k')) = (c1, evs ! k', q)"
      "btn_run (CoreButton_init hold) (take k' ps) = (c0, take k' evs)"
      using btn_run_at [OF assms(1), of k'] k'(1) assms(2) by (meson order.strict_trans)
    have "reported False (take k' evs)"
      using reported_since_press [of k k' evs False] 2 assms(2,4) rel len k'(1) by simp
    with btn_run_inv [OF c(2)] update_edge [OF c(1)] k'(2) show ?thesis by (auto simp: btn_inv_def)
  qed
  have "\<not> fired b0" using k'(5) none kk by (meson less_imp_le)
  moreover have "evs ! i \<notin> {ShortRelease, HoldFired}" using rel none assms(3) by blast
  ultimately have "snd (ps ! i) - press_start b0 < hold" using update_press [OF s(1)] st by blast
  with late k'(3) kk show False by simp
qed

text \<open>
  C16 (button_edges). For every button as the firmware starts it and every sequence of timed samples,
  bouncing or not and with a clock that may wrap: presses and releases alternate, the hold
  event comes at most once per press, and a release is long exactly when the hold event of its
  press was reported. A press or release is reported at a sample only if the level has been the
  new one at every sample since one taken at least 30 ms earlier, so a bounce is never
  reported; conversely a level that has lasted 30 ms since the sample at which it changed is
  the reported one. The hold event fires only when the hold time has passed since the sample
  that reported the press, and no later than the first sample at which it has, unless the
  button was released: holding the SOS button sends one SOS per press.\<close>

theorem button_edges:
  assumes "btn_run (CoreButton_init hold) samples = (b, evs)"
  shows "length evs = length samples \<and> edge_seq False False (edges evs) \<and>
    (\<forall>i < length samples. evs ! i \<in> {Pressed, ShortRelease, LongRelease} \<longrightarrow>
       (\<exists>k \<le> i. (\<forall>m. k \<le> m \<and> m \<le> i \<longrightarrow> fst (samples ! m) = (evs ! i = Pressed)) \<and>
          30 \<le> snd (samples ! i) - snd (samples ! k))) \<and>
    (\<forall>i k p. i < length samples \<and> k \<le> i \<and> (\<forall>m. k \<le> m \<and> m \<le> i \<longrightarrow> fst (samples ! m) = p) \<and>
       (k = 0 \<or> fst (samples ! (k - 1)) \<noteq> p) \<and> 30 \<le> snd (samples ! i) - snd (samples ! k) \<longrightarrow>
       reported False (take (Suc i) evs) = p) \<and>
    (\<forall>i < length samples. evs ! i = HoldFired \<longrightarrow>
       (\<exists>k < i. evs ! k = Pressed \<and> (\<forall>m. k < m \<and> m < i \<longrightarrow> evs ! m \<in> {NoEvent, Progress}) \<and>
          hold \<le> snd (samples ! i) - snd (samples ! k))) \<and>
    (\<forall>i k. i < length samples \<and> k < i \<and> evs ! k = Pressed \<and>
       (\<forall>m. k < m \<and> m \<le> i \<longrightarrow> evs ! m \<notin> {ShortRelease, LongRelease}) \<and>
       hold \<le> snd (samples ! i) - snd (samples ! k) \<longrightarrow>
       (\<exists>m. k < m \<and> m \<le> i \<and> evs ! m = HoldFired))"
proof (intro conjI)
  show "length evs = length samples" using btn_run_inv [OF assms] by (simp add: btn_inv_def)
  show "edge_seq False False (edges evs)"
    using run_edges [of "CoreButton_init hold" samples] assms by (simp add: CoreButton_init_def)
next
  show "\<forall>i < length samples. evs ! i \<in> {Pressed, ShortRelease, LongRelease} \<longrightarrow>
       (\<exists>k \<le> i. (\<forall>m. k \<le> m \<and> m \<le> i \<longrightarrow> fst (samples ! m) = (evs ! i = Pressed)) \<and>
          30 \<le> snd (samples ! i) - snd (samples ! k))"
    by (intro allI impI) (rule edge_is_settled [OF assms])
next
  show "\<forall>i < length samples. evs ! i = HoldFired \<longrightarrow>
       (\<exists>k < i. evs ! k = Pressed \<and> (\<forall>m. k < m \<and> m < i \<longrightarrow> evs ! m \<in> {NoEvent, Progress}) \<and>
          hold \<le> snd (samples ! i) - snd (samples ! k))"
    by (intro allI impI) (rule hold_is_timed [OF assms])
qed (intro allI impI, elim conjE, rule settled_is_reported [OF assms] hold_is_reported [OF assms]; assumption)+

definition bounces :: "(bool \<times> u32) list" where
  "bounces = [(False, 0xFFFFFF00), (True, 0xFFFFFF0A), (False, 0xFFFFFF14), (True, 0xFFFFFF1E), (True, 0xFFFFFF50),
     (True, 0x00000710), (True, 0x00000720), (False, 0x00000730), (False, 0x00000760)]"

lemma bounces_run:
  "snd (btn_run (CoreButton_init 2000) bounces) =
     [NoEvent, NoEvent, NoEvent, NoEvent, Pressed, Progress, HoldFired, NoEvent, LongRelease]"
  by code_simp

theorem button_edges_witness:
  "edge_seq False False [Pressed, HoldFired, LongRelease] \<and> length bounces = 9"
proof -
  have eq: "btn_run (CoreButton_init 2000) bounces =
      (fst (btn_run (CoreButton_init 2000) bounces), snd (btn_run (CoreButton_init 2000) bounces))" by simp
  note w = button_edges [OF eq]
  from w [THEN conjunct2, THEN conjunct1] w [THEN conjunct1] show ?thesis
    unfolding bounces_run by (simp add: edges_def)
qed

text \<open>
  While the button stays down the hold event fires at the first poll at which at
  least the hold time has passed since the debounced press, not earlier, and until then the
  reported percentage is the elapsed fraction, always below 100; the clock may wrap in
  between.\<close>

lemma hold_time_exact:
  assumes "stable b" and "raw b" and "\<not> fired b" and "update b True now = (b', ev, pct)"
  shows "(ev = HoldFired \<longleftrightarrow> now - press_start b \<ge> hold_ms b) \<and>
    (ev = Progress \<longrightarrow> unat pct = unat (now - press_start b) * 100 div unat (hold_ms b) \<and> pct < 100) \<and>
    press_start b' = press_start b"
proof -
  have val: "unat (ucast ((ucast h * 100 :: u64) div ucast (hold_ms b)) :: u8) =
      unat h * 100 div unat (hold_ms b)" "unat h * 100 div unat (hold_ms b) < 100" if "h < hold_ms b" for h
    using pct_less_100 [OF that] by (simp_all add: unat_ucast_u8 pct_nat)
  have eq: "update b True now =
    (if now - press_start b \<ge> hold_ms b then (b\<lparr>fired := True\<rparr>, HoldFired, 100)
     else let pct = (ucast ((ucast (now - press_start b) * 100 :: u64) div ucast (hold_ms b)) :: u8) in
       if pct \<noteq> last_pct b then (b\<lparr>last_pct := pct\<rparr>, Progress, pct) else (b, NoEvent, 0))"
    using assms(1-3) by (simp add: update_def Let_def)
  show ?thesis
  proof (cases "now - press_start b \<ge> hold_ms b")
    case True
    then show ?thesis using assms(4) unfolding eq by auto
  next
    case False
    then have lt: "now - press_start b < hold_ms b" by simp
    show ?thesis using assms(4) False val [OF lt]
      unfolding eq by (auto simp: Let_def word_less_nat_alt split: if_splits)
  qed
qed

text \<open>A level that changes again within the debounce time is not reported.\<close>

lemma debounce:
  "raw b = p \<Longrightarrow> p \<noteq> stable b \<Longrightarrow> now - raw_since b < CORE_BTN_DEBOUNCE_MS \<Longrightarrow>
   fst (snd (update b p now)) \<notin> {Pressed, ShortRelease, LongRelease}"
  by (auto simp: update_def Let_def not_le [symmetric] split: if_splits)

end
