(* ===== verification/Core_Dispatch.thy ===== *)
theory Core_Dispatch
  imports Lora_Config Net_Mode
begin

text \<open>
  The command dispatcher of the WebSocket API: validation
  (\<open>src/src/core/core_dispatch.h\<close>, lines 18-97 and 131-295) and routing with the state it
  changes (\<open>src/src/core/support_method.cpp\<close>, lines 125-438 and 549-594).
\<close>

section \<open>Validation (core_dispatch.h)\<close>

datatype CoreAction =
    Missing | Unknown | Invalid | WifiScan | ConnectWifi | WifiApMode | SetApPass | ResetDevice
  | RestartDevice | SetUsername | GetUsername | SetLoraConfig | SetSerialMode | GetSerialMode
  | GetNetStatus | GetWifiScan | GetBtConfig | SetBtMode | RebootToBt | FileTxInvite | FileTxJoin
  | FileTxStart | FileTxEnd

record CoreCommand =
  c_action :: CoreAction
  arg1 :: string
  arg2 :: string
  flag :: bool
  c_error :: string

definition CoreCommand_init :: CoreCommand where
  "CoreCommand_init = \<lparr>c_action = Missing, arg1 = [], arg2 = [], flag = False, c_error = []\<rparr>"

definition CORE_USERNAME_MIN :: nat where "CORE_USERNAME_MIN = 1"
definition CORE_USERNAME_MAX :: nat where "CORE_USERNAME_MAX = 32"
definition CORE_SSID_MAX :: nat where "CORE_SSID_MAX = 32"
definition CORE_PASS_MIN :: nat where "CORE_PASS_MIN = 8"
definition CORE_PASS_MAX :: nat where "CORE_PASS_MAX = 63"

fun core_action_name :: "CoreAction \<Rightarrow> string" where
  "core_action_name Missing = ''missing''"
| "core_action_name Unknown = ''unknown''"
| "core_action_name Invalid = ''invalid''"
| "core_action_name WifiScan = ''wifi_ssid_scan''"
| "core_action_name ConnectWifi = ''connect_wifi''"
| "core_action_name WifiApMode = ''wifi_ap_mode''"
| "core_action_name SetApPass = ''set_ap_pass''"
| "core_action_name ResetDevice = ''reset_device''"
| "core_action_name RestartDevice = ''restart_device''"
| "core_action_name SetUsername = ''set_username''"
| "core_action_name GetUsername = ''get_username''"
| "core_action_name SetLoraConfig = ''set_lora_config''"
| "core_action_name SetSerialMode = ''set_serial_mode''"
| "core_action_name GetSerialMode = ''get_serial_mode''"
| "core_action_name GetNetStatus = ''get_net_status''"
| "core_action_name GetWifiScan = ''get_wifi_scan''"
| "core_action_name GetBtConfig = ''get_bt_config''"
| "core_action_name SetBtMode = ''set_bt_mode''"
| "core_action_name RebootToBt = ''reboot_to_bt''"
| "core_action_name FileTxInvite = ''file_tx_invite''"
| "core_action_name FileTxJoin = ''file_tx_join''"
| "core_action_name FileTxStart = ''file_tx_start''"
| "core_action_name FileTxEnd = ''file_tx_end''"

definition core_printable :: "string \<Rightarrow> bool" where
  "core_printable s \<longleftrightarrow> list_all (\<lambda>c. \<not> (byte_of c < 0x20 \<or> byte_of c = 0x7f)) s"

definition core_invalid :: "string \<Rightarrow> CoreCommand" where
  "core_invalid why = CoreCommand_init\<lparr>c_action := Invalid, c_error := why\<rparr>"

definition core_connect_wifi :: "'v json_api \<Rightarrow> 'v \<Rightarrow> CoreCommand" where
  "core_connect_wifi J doc =
     (case jstr J (jmember J doc ''wifi_ssid'') of
        None \<Rightarrow> core_invalid ''wifi_ssid missing''
      | Some ssid \<Rightarrow>
          if ssid = [] \<or> length ssid > CORE_SSID_MAX then core_invalid ''wifi_ssid length''
          else
            let p = jmember J doc ''wifi_pass'' in
            if \<not> jnull J p \<and> jstr J p = None then core_invalid ''wifi_pass type''
            else
              let pass = (if jnull J p then [] else the (jstr J p)) in
              if pass \<noteq> [] \<and> (length pass < CORE_PASS_MIN \<or> length pass > CORE_PASS_MAX)
              then core_invalid ''wifi_pass length''
              else CoreCommand_init\<lparr>c_action := ConnectWifi, arg1 := ssid, arg2 := pass\<rparr>)"

definition core_set_ap_pass :: "'v json_api \<Rightarrow> 'v \<Rightarrow> CoreCommand" where
  "core_set_ap_pass J doc =
     (case jstr J (jmember J doc ''val'') of
        None \<Rightarrow> core_invalid ''val missing''
      | Some pass \<Rightarrow>
          if pass \<noteq> [] \<and> (length pass < CORE_PASS_MIN \<or> length pass > CORE_PASS_MAX)
          then core_invalid ''ap_pass length''
          else if \<not> core_printable pass then core_invalid ''ap_pass chars''
          else CoreCommand_init\<lparr>c_action := SetApPass, arg1 := pass\<rparr>)"

definition core_set_username :: "'v json_api \<Rightarrow> 'v \<Rightarrow> CoreCommand" where
  "core_set_username J doc =
     (case jstr J (jmember J doc ''val'') of
        None \<Rightarrow> core_invalid ''val missing''
      | Some u \<Rightarrow>
          if length u < CORE_USERNAME_MIN \<or> length u > CORE_USERNAME_MAX then core_invalid ''username length''
          else if \<not> core_printable u then core_invalid ''username chars''
          else CoreCommand_init\<lparr>c_action := SetUsername, arg1 := u\<rparr>)"

definition core_set_lora_config :: "'v json_api \<Rightarrow> 'v \<Rightarrow> CoreCommand" where
  "core_set_lora_config J doc =
     (case jstr J (jmember J doc ''val'') of
        None \<Rightarrow> core_invalid ''val missing''
      | Some cfg \<Rightarrow>
          if \<not> core_lora_config_string_valid J cfg then core_invalid ''lora config out of range''
          else CoreCommand_init\<lparr>c_action := SetLoraConfig, arg1 := cfg\<rparr>)"

definition core_flag :: "'v json_api \<Rightarrow> 'v \<Rightarrow> CoreAction \<Rightarrow> CoreCommand" where
  "core_flag J doc a =
     (case jbool J (jmember J doc ''value'') of
        None \<Rightarrow> core_invalid ''value must be bool''
      | Some b \<Rightarrow> CoreCommand_init\<lparr>c_action := a, flag := b\<rparr>)"

definition core_file_tx_invite :: "'v json_api \<Rightarrow> 'v \<Rightarrow> CoreCommand" where
  "core_file_tx_invite J doc =
     (let fs = jmember J doc ''fileSize'' in
      case jstr J (jmember J doc ''fileName'') of
        None \<Rightarrow> core_invalid ''fileName missing''
      | Some fn \<Rightarrow>
          if jlong J fs = None \<and> jstr J fs = None then core_invalid ''fileSize missing''
          else CoreCommand_init\<lparr>c_action := FileTxInvite, arg1 := fn,
                 arg2 := (case jlong J fs of Some n \<Rightarrow> dec_int n | None \<Rightarrow> the (jstr J fs))\<rparr>)"

definition core_file_tx_join :: "'v json_api \<Rightarrow> 'v \<Rightarrow> CoreCommand" where
  "core_file_tx_join J doc =
     (case jstr J (jmember J doc ''sender_mac'') of
        None \<Rightarrow> core_invalid ''sender_mac missing''
      | Some sm \<Rightarrow>
          (case jstr J (jmember J doc ''mode'') of
             None \<Rightarrow> core_invalid ''mode missing''
           | Some mode \<Rightarrow>
               if mode \<noteq> ''usb'' \<and> mode \<noteq> ''bt'' then core_invalid ''mode must be usb or bt''
               else CoreCommand_init\<lparr>c_action := FileTxJoin, arg1 := sm, arg2 := mode\<rparr>))"

text \<open>The request types without arguments.\<close>

definition core_simple_requests :: "(string \<times> CoreAction) list" where
  "core_simple_requests =
     [(''wifi_ssid_scan'', WifiScan), (''wifi_ap_mode'', WifiApMode), (''reset_device'', ResetDevice),
      (''restart_device'', RestartDevice), (''get_username'', GetUsername), (''get_serial_mode'', GetSerialMode),
      (''get_net_status'', GetNetStatus), (''get_wifi_scan'', GetWifiScan), (''get_bt_config'', GetBtConfig),
      (''reboot_to_bt'', RebootToBt), (''file_tx_start'', FileTxStart), (''file_tx_end'', FileTxEnd)]"

definition core_parse_request :: "'v json_api \<Rightarrow> 'v \<Rightarrow> CoreCommand" where
  "core_parse_request J doc =
     (case jstr J (jmember J doc ''request-type'') of
        None \<Rightarrow> CoreCommand_init\<lparr>c_action := Missing, c_error := ''missing request-type''\<rparr>
      | Some t \<Rightarrow>
          (case map_of core_simple_requests t of
             Some a \<Rightarrow> CoreCommand_init\<lparr>c_action := a\<rparr>
           | None \<Rightarrow>
               if t = ''connect_wifi'' then core_connect_wifi J doc
               else if t = ''set_ap_pass'' then core_set_ap_pass J doc
               else if t = ''set_username'' then core_set_username J doc
               else if t = ''set_lora_config'' then core_set_lora_config J doc
               else if t = ''set_serial_mode'' then core_flag J doc SetSerialMode
               else if t = ''set_bt_mode'' then core_flag J doc SetBtMode
               else if t = ''file_tx_invite'' then core_file_tx_invite J doc
               else if t = ''file_tx_join'' then core_file_tx_join J doc
               else CoreCommand_init\<lparr>c_action := Unknown, c_error := ''unknown request-type''\<rparr>))"

definition core_parse_username :: "'v json_api \<Rightarrow> string option \<Rightarrow> string \<Rightarrow> string" where
  "core_parse_username J json mac =
     (case json of
        None \<Rightarrow> mac
      | Some s \<Rightarrow>
      (case jparse J s of
        None \<Rightarrow> mac
      | Some doc \<Rightarrow>
      (case jstr J (jmember J doc ''username'') of
        None \<Rightarrow> mac
      | Some u \<Rightarrow>
          if length u < CORE_USERNAME_MIN \<or> length u > CORE_USERNAME_MAX \<or> \<not> core_printable u then mac else u)))"

definition core_parse_lora_serial :: "'v json_api \<Rightarrow> string option \<Rightarrow> bool" where
  "core_parse_lora_serial J json =
     (case json of
        None \<Rightarrow> False
      | Some s \<Rightarrow>
          (case jparse J s of
             None \<Rightarrow> False
           | Some doc \<Rightarrow> jbool J (jmember J doc ''lora_serial'') = Some True))"

definition core_parse_device_mode :: "'v json_api \<Rightarrow> string option \<Rightarrow> string" where
  "core_parse_device_mode J json =
     (case json of
        None \<Rightarrow> ''WiFi''
      | Some s \<Rightarrow>
      (case jparse J s of
        None \<Rightarrow> ''WiFi''
      | Some doc \<Rightarrow>
      (case jstr J (jmember J doc ''device_mode'') of
        None \<Rightarrow> ''WiFi''
      | Some m \<Rightarrow> if m = [] then ''WiFi'' else m)))"

section \<open>What validation guarantees\<close>

lemmas core_len_defs = CORE_USERNAME_MIN_def CORE_USERNAME_MAX_def CORE_SSID_MAX_def CORE_PASS_MIN_def CORE_PASS_MAX_def

definition wifi_pass_ok :: "string \<Rightarrow> bool" where
  "wifi_pass_ok p \<longleftrightarrow> p = [] \<or> 8 \<le> length p \<and> length p \<le> 63"

definition username_ok :: "string \<Rightarrow> bool" where
  "username_ok u \<longleftrightarrow> 1 \<le> length u \<and> length u \<le> 32 \<and> core_printable u"

text \<open>The arguments a command carries, by action; the others carry none.\<close>

definition command_ok :: "'v json_api \<Rightarrow> CoreCommand \<Rightarrow> bool" where
  "command_ok J c \<longleftrightarrow>
     (case c_action c of
        ConnectWifi \<Rightarrow> 1 \<le> length (arg1 c) \<and> length (arg1 c) \<le> 32 \<and> wifi_pass_ok (arg2 c)
      | SetApPass \<Rightarrow> wifi_pass_ok (arg1 c) \<and> core_printable (arg1 c)
      | SetUsername \<Rightarrow> username_ok (arg1 c)
      | SetLoraConfig \<Rightarrow> (\<forall>ub. \<exists>cfg. config_from_text J ub (Some (arg1 c)) = Inr cfg)
      | FileTxInvite \<Rightarrow> True
      | FileTxJoin \<Rightarrow> arg2 c = ''usb'' \<or> arg2 c = ''bt''
      | _ \<Rightarrow> arg1 c = [] \<and> arg2 c = [])"

lemma core_invalid_ok: "command_ok J (core_invalid why)"
  by (simp add: command_ok_def core_invalid_def CoreCommand_init_def)

lemma simple_request_ok: "map_of core_simple_requests t = Some a \<Longrightarrow> command_ok J (CoreCommand_init\<lparr>c_action := a\<rparr>)"
  by (auto simp: core_simple_requests_def command_ok_def CoreCommand_init_def split: if_splits)

lemma accepted_lora_text:
  assumes "json_integers J" "core_lora_config_string_valid J s"
  shows "\<exists>cfg. config_from_text J ub (Some s) = Inr cfg"
  using core_check_accepts [OF assms] by blast

text \<open>Each kind of request.\<close>

named_theorems commands_ok

lemma commands_checked [commands_ok]:
  "command_ok J (core_connect_wifi J doc)"
  "command_ok J (core_set_ap_pass J doc)"
  "command_ok J (core_set_username J doc)"
  "command_ok J (core_flag J doc SetSerialMode)"
  "command_ok J (core_flag J doc SetBtMode)"
  "command_ok J (core_file_tx_invite J doc)"
  "command_ok J (core_file_tx_join J doc)"
  by (auto simp: core_connect_wifi_def core_set_ap_pass_def core_set_username_def core_flag_def core_file_tx_invite_def
      core_file_tx_join_def core_invalid_ok Let_def command_ok_def CoreCommand_init_def wifi_pass_ok_def username_ok_def
      core_len_defs core_invalid_def Suc_le_eq split: option.splits)

lemma no_arguments [commands_ok]:
  "command_ok J (CoreCommand_init\<lparr>c_action := Missing, c_error := e\<rparr>)"
  "command_ok J (CoreCommand_init\<lparr>c_action := Unknown, c_error := e\<rparr>)"
  by (simp_all add: command_ok_def CoreCommand_init_def)

lemma lora_config_checked [commands_ok]: "json_integers J \<Longrightarrow> command_ok J (core_set_lora_config J doc)"
  using accepted_lora_text [of J]
  by (auto simp: core_set_lora_config_def core_invalid_ok command_ok_def CoreCommand_init_def core_invalid_def split: option.splits)

lemma either_command: "command_ok J x \<Longrightarrow> command_ok J y \<Longrightarrow> command_ok J (if b then x else y)"
  by simp

text \<open>
  C17 (request_arguments_valid). Whatever JSON a client sends, the command the dispatcher acts on carries only
  arguments inside the limits: an SSID of 1 to 32 bytes, a passphrase that is empty or 8 to 63
  bytes, a printable user name of 1 to 32 bytes, a radio configuration the radio layer
  accepts, a transfer mode that is usb or bt; a rejected or unknown request carries no
  argument at all.\<close>

theorem request_arguments_valid:
  assumes "json_integers J"
  shows "command_ok J (core_parse_request J doc)"
proof (cases "jstr J (jmember J doc ''request-type'')")
  case None
  then show ?thesis by (simp add: core_parse_request_def no_arguments)
next
  case t: (Some t)
  show ?thesis
  proof (cases "map_of core_simple_requests t")
    case None
    show ?thesis
      unfolding core_parse_request_def t option.case None by (intro either_command commands_ok assms)
  next
    case (Some a)
    then show ?thesis
      using t by (simp add: core_parse_request_def simple_request_ok)
  qed
qed

definition request_json :: "jscalar json_api" where
  "request_json = toy_json [] (\<lambda>d. [])"

theorem request_arguments_valid_witness:
  "command_ok request_json (core_parse_request request_json
     (STable [(''request-type'', SStr ''set_username''), (''val'', SStr ''Ada'')]))"
  by (rule request_arguments_valid) (simp add: request_json_def toy_integers)

lemma parse_username_ok:
  "core_parse_username J json mac = mac \<or> username_ok (core_parse_username J json mac)"
  by (auto simp: core_parse_username_def username_ok_def core_len_defs Suc_le_eq split: option.splits)

section \<open>Routing (support_method.cpp)\<close>

text \<open>
  The state the dispatcher changes: the USB bridge flag, the user name in memory, and network
  mode.  \<open>core_event\<close> lists what it has other parts do, in order: tasks started, functions of
  other components called with these arguments, and messages to the browser.
\<close>

record SysState =
  lora_serial :: bool
  s_username :: string
  sys_net :: NetState

datatype core_event =
    StartTask string
  | WifiSaveSta string string
  | WifiSwitchToAp
  | WifiSetApPass string
  | SaveLoraConfig string
  | WriteFile string jdoc
  | SendToWs jdoc
  | SendNetStatus
  | SendWifiScan
  | SendBtConfig
  | StartBtModeTask bool
  | QueueMessage jdoc
  | ShowAlert string

record core_env =
  task_ok :: bool
  alloc_mem :: bool
  send_queue_ok :: bool
  write_ok :: bool
  save_lora_ok :: bool
  bt_available :: bool
  has_scan :: bool
  mac_address :: string

definition get_username :: "SysState \<Rightarrow> core_env \<Rightarrow> string" where
  "get_username s e = (if length (s_username s) = 0 then mac_address e else s_username s)"

definition send_username_to_ws :: "SysState \<Rightarrow> core_env \<Rightarrow> core_event" where
  "send_username_to_ws s e =
     SendToWs (JObject [(''response_type'', JText ''set_uname''), (''uname'', JText (get_username s e))])"

definition send_serial_mode_to_ws :: "SysState \<Rightarrow> core_event" where
  "send_serial_mode_to_ws s =
     SendToWs (JObject [(''response_type'', JText ''serial_mode''), (''value'', JBoolean (lora_serial s))])"

definition save_username :: "SysState \<Rightarrow> core_env \<Rightarrow> string \<Rightarrow> SysState \<times> core_event list \<times> bool" where
  "save_username s e uname =
     (let evs = [WriteFile ''/config/user_data.json'' (JObject [(''username'', JText uname)])] in
      if \<not> write_ok e then (s, evs, False) else (s\<lparr>s_username := uname\<rparr>, evs, True))"

text \<open>The message both handshake functions and the SOS key queue: the inner document is sent as a
  string inside the outer one; \<open>ser\<close> is the JSON serializer.\<close>

definition queue_action :: "(jdoc \<Rightarrow> string) \<Rightarrow> SysState \<Rightarrow> core_env \<Rightarrow> jdoc \<Rightarrow> string \<Rightarrow> core_event list" where
  "queue_action ser s e inner what =
     (let doc = JObject [(''name'', JText (get_username s e)), (''mac'', JText (mac_address e)),
                         (''data'', JText (ser inner))] in
      if \<not> alloc_mem e then [ShowAlert (what @ '' failed: no memory'')]
      else if \<not> send_queue_ok e then [ShowAlert (what @ '' failed: queue full'')]
      else [QueueMessage doc])"

definition send_file_tx_invite :: "(jdoc \<Rightarrow> string) \<Rightarrow> SysState \<Rightarrow> core_env \<Rightarrow> string \<Rightarrow> string \<Rightarrow> core_event list" where
  "send_file_tx_invite ser s e fileName fileSize =
     queue_action ser s e
       (JObject [(''pack_type'', JText ''action''), (''data'', JText ''file_tx_invite''),
                 (''sender_mac'', JText (mac_address e)), (''sender_name'', JText (get_username s e)),
                 (''file_name'', JText fileName), (''file_size'', JText fileSize)]) ''File invite''"

definition send_file_tx_join :: "(jdoc \<Rightarrow> string) \<Rightarrow> SysState \<Rightarrow> core_env \<Rightarrow> string \<Rightarrow> string \<Rightarrow> core_event list" where
  "send_file_tx_join ser s e sender_mac mode =
     queue_action ser s e
       (JObject [(''pack_type'', JText ''action''), (''data'', JText ''file_tx_ack''),
                 (''receiver_mac'', JText (mac_address e)), (''receiver_name'', JText (get_username s e)),
                 (''mode'', JText mode)]) ''File join''"

definition handle_command :: "(jdoc \<Rightarrow> string) \<Rightarrow> SysState \<Rightarrow> core_env \<Rightarrow> CoreCommand \<Rightarrow> SysState \<times> core_event list" where
  "handle_command ser s e cmd =
     (case c_action cmd of
        Missing \<Rightarrow> (s, [])
      | Unknown \<Rightarrow> (s, [])
      | Invalid \<Rightarrow> (s, [ShowAlert (''Request rejected: '' @ c_error cmd)])
      | WifiScan \<Rightarrow> (s, if task_ok e then [StartTask ''scan_wifi''] else [])
      | ConnectWifi \<Rightarrow> (s, [WifiSaveSta (arg1 cmd) (arg2 cmd)])
      | WifiApMode \<Rightarrow> (s, [WifiSwitchToAp])
      | SetApPass \<Rightarrow> (s, [WifiSetApPass (arg1 cmd)])
      | ResetDevice \<Rightarrow> (s, if task_ok e then [StartTask ''reset_device''] else [])
      | RestartDevice \<Rightarrow> (s, if task_ok e then [StartTask ''restart''] else [])
      | SetUsername \<Rightarrow>
          (case save_username s e (arg1 cmd) of
             (s', evs, ok) \<Rightarrow>
               (s', evs @ [ShowAlert (if ok then ''Username saved'' else ''Username could not be saved''),
                           send_username_to_ws s' e]))
      | GetUsername \<Rightarrow> (s, [send_username_to_ws s e])
      | SetLoraConfig \<Rightarrow>
          (s, SaveLoraConfig (arg1 cmd) # (if \<not> save_lora_ok e then [ShowAlert ''LoRa config rejected''] else []))
      | SetSerialMode \<Rightarrow>
          if flag cmd \<and> s_active (sys_net s) then
            (s, [ShowAlert ''The serial port is in LoRa network mode (Voyager Link).'', send_serial_mode_to_ws s])
          else
            let s = s\<lparr>lora_serial := flag cmd\<rparr>
            in (s, (if task_ok e then [StartTask ''save_lora_serial''] else []) @ [send_serial_mode_to_ws s])
      | GetSerialMode \<Rightarrow> (s, [send_serial_mode_to_ws s])
      | GetNetStatus \<Rightarrow> (s, [SendNetStatus])
      | GetWifiScan \<Rightarrow> (s, if has_scan e then [SendWifiScan] else [])
      | GetBtConfig \<Rightarrow> (s, [SendBtConfig])
      | SetBtMode \<Rightarrow>
          if flag cmd \<and> \<not> bt_available e then
            (s, [ShowAlert ''BT not available (firmware not compiled with VOYAGER_BT_ENABLED)'', SendBtConfig])
          else if \<not> alloc_mem e then (s, [ShowAlert ''Failed: out of memory''])
          else (s, if task_ok e then [StartBtModeTask (flag cmd)] else [])
      | RebootToBt \<Rightarrow>
          if \<not> bt_available e then
            (s, [ShowAlert ''BT not available (firmware not compiled with VOYAGER_BT_ENABLED)'', SendBtConfig])
          else (s, if task_ok e then [StartTask ''reboot_to_bt''] else [])
      | FileTxInvite \<Rightarrow> (s, send_file_tx_invite ser s e (arg1 cmd) (arg2 cmd))
      | FileTxJoin \<Rightarrow> (s, send_file_tx_join ser s e (arg1 cmd) (arg2 cmd))
      | FileTxStart \<Rightarrow>
          if s_active (sys_net s) then
            (s, [ShowAlert ''The serial port is in LoRa network mode (Voyager Link). Leave the network first.'',
                 send_serial_mode_to_ws s])
          else let s = s\<lparr>lora_serial := True\<rparr> in (s, [send_serial_mode_to_ws s])
      | FileTxEnd \<Rightarrow> let s = s\<lparr>lora_serial := False\<rparr> in (s, [send_serial_mode_to_ws s]))"

definition handle_operations :: "'v json_api \<Rightarrow> SysState \<Rightarrow> core_env \<Rightarrow> 'v \<Rightarrow> SysState \<times> core_event list" where
  "handle_operations J s e doc = handle_command (jser J) s e (core_parse_request J doc)"

text \<open>The file the task \<open>save_lora_serial\<close> writes, and the settings read at start-up.\<close>

definition save_lora_serial_config :: "SysState \<Rightarrow> core_event" where
  "save_lora_serial_config s = WriteFile ''/config/lora_serial.json'' (JObject [(''lora_serial'', JBoolean (lora_serial s))])"

definition get_lora_serial :: "'v json_api \<Rightarrow> (string \<Rightarrow> string option) \<Rightarrow> SysState \<Rightarrow> SysState" where
  "get_lora_serial J read_file s = s\<lparr>lora_serial := core_parse_lora_serial J (read_file ''/config/lora_serial.json'')\<rparr>"

definition load_username :: "'v json_api \<Rightarrow> (string \<Rightarrow> string option) \<Rightarrow> core_env \<Rightarrow> SysState \<Rightarrow> SysState" where
  "load_username J read_file e s =
     s\<lparr>s_username := core_parse_username J (read_file ''/config/user_data.json'') (mac_address e)\<rparr>"

definition get_device_mode :: "'v json_api \<Rightarrow> (string \<Rightarrow> string option) \<Rightarrow> string" where
  "get_device_mode J read_file = core_parse_device_mode J (read_file ''/config/device_config.json'')"

end
