(* ===== verification/Insertion_Sort.thy ===== *)
theory Insertion_Sort
  imports Voy_Prelude "HOL-Library.Multiset"
begin

text \<open>
  The insertion sort the code writes out for both of its lists of WiFi networks
  (\<open>wifi_scan_sort\<close> in \<open>src/src/wifi/wifi_config.h\<close>, \<open>wifi_improv_scan\<close> in
  \<open>src/src/wifi/wifi_support.cpp\<close>), with the strength as its key, and what it computes: the
  stable sort with the strongest first.
\<close>

section \<open>The loops\<close>

text \<open>The insertion sort: \<open>sort_shift\<close> is the inner loop, which moves entries up to make room at \<open>j\<close>.\<close>

fun sort_shift :: "('a \<Rightarrow> int) \<Rightarrow> 'a list \<Rightarrow> 'a \<Rightarrow> nat \<Rightarrow> 'a list \<times> nat" where
  "sort_shift key xs e 0 = (xs, 0)"
| "sort_shift key xs e (Suc j) =
     (if key (xs ! j) < key e then sort_shift key (xs[Suc j := xs ! j]) e j else (xs, Suc j))"

definition sort_step :: "('a \<Rightarrow> int) \<Rightarrow> nat \<Rightarrow> 'a list \<Rightarrow> 'a list" where
  "sort_step key i xs = (let e = xs ! i; (ys, j) = sort_shift key xs e i in ys[j := e])"

section \<open>The sorted list\<close>

text \<open>Insertion from the right into a list that falls in strength.\<close>

fun insl :: "('a \<Rightarrow> int) \<Rightarrow> 'a \<Rightarrow> 'a list \<Rightarrow> 'a list" where
  "insl key e [] = [e]"
| "insl key e (p # ps) = (if key p < key e then p # insl key e ps else e # p # ps)"

definition insr :: "('a \<Rightarrow> int) \<Rightarrow> 'a \<Rightarrow> 'a list \<Rightarrow> 'a list" where
  "insr key e ps = rev (insl key e (rev ps))"

lemma insr_simps [simp]:
  "insr key e [] = [e]"
  "insr key e (ps @ [p]) = (if key p < key e then insr key e ps @ [p] else ps @ [p, e])"
  by (simp_all add: insr_def)

lemma sort_shift_insr:
  "(case sort_shift key (ps @ h # rest) e (length ps) of (ys, j) \<Rightarrow> ys[j := e]) = insr key e ps @ rest"
proof (induction ps arbitrary: h rest rule: rev_induct)
  case Nil
  show ?case by simp
next
  case (snoc p ps)
  have "((ps @ [p]) @ h # rest)[Suc (length ps) := p] = ps @ p # p # rest"
    by (simp add: list_update_append)
  moreover have "((ps @ [p]) @ h # rest)[Suc (length ps) := e] = ps @ p # e # rest"
    by (simp add: list_update_append)
  ultimately show ?case using snoc.IH [of p "p # rest"] by (simp add: nth_append)
qed

lemma sort_step_insr: "sort_step key (length ps) (ps @ e # rest) = insr key e ps @ rest"
  using sort_shift_insr [where ps = ps and h = e and rest = rest and e = e] by (simp add: sort_step_def)

lemma length_insl [simp]: "length (insl key e ps) = Suc (length ps)"
  by (induction ps) auto

lemma length_insr [simp]: "length (insr key e ps) = Suc (length ps)"
  by (simp add: insr_def)

lemma length_fold_insr [simp]: "length (fold (insr key) xs ps) = length xs + length ps"
  by (induction xs arbitrary: ps) auto

lemma sort_steps:
  "fold (sort_step key) [length ps..<length ps + length xs] (ps @ xs) = fold (insr key) xs ps"
proof (induction xs arbitrary: ps)
  case (Cons e xs)
  have "fold (sort_step key) [length ps..<length ps + length (e # xs)] (ps @ e # xs) =
      fold (sort_step key) [Suc (length ps)..<length ps + length (e # xs)] (insr key e ps @ xs)"
    by (subst upt_conv_Cons) (simp_all add: sort_step_insr)
  then show ?case using Cons.IH [of "insr key e ps"] by simp
qed simp

lemma mset_insl [simp]: "mset (insl key e ps) = add_mset e (mset ps)"
  by (induction ps) auto

lemma mset_insr [simp]: "mset (insr key e ps) = add_mset e (mset ps)"
  by (simp add: insr_def)

lemma set_insr [simp]: "set (insr key e ps) = insert e (set ps)"
  using mset_insr [of key e ps] by (metis set_mset_add_mset_insert set_mset_mset)

lemma filter_insr: "filter (\<lambda>x. k = - key x) (insr key e ps) = filter (\<lambda>x. k = - key x) ps @ (if k = - key e then [e] else [])"
  by (induction ps rule: rev_induct) auto

lemma sorted_insr: "sorted (map (\<lambda>x. - key x) ps) \<Longrightarrow> sorted (map (\<lambda>x. - key x) (insr key e ps))"
proof (induction ps rule: rev_induct)
  case (snoc p ps)
  then have "sorted (map (\<lambda>x. - key x) ps)" by (simp add: sorted_append)
  with snoc show ?case by (auto simp: sorted_append)
qed simp

lemma insertion_sort_insr: "fold (sort_step key) [1..<length xs] xs = fold (insr key) xs []"
proof (cases xs)
  case (Cons x ys)
  then show ?thesis using sort_steps [of key "[x]" ys] by simp
qed simp

lemma insertion_sort_key: "fold (sort_step key) [1..<length xs] xs = sort_key (\<lambda>e. - key e) xs"
proof -
  have "mset (fold (insr key) xs ps) = mset xs + mset ps \<and>
      filter (\<lambda>x. k = - key x) (fold (insr key) xs ps) = filter (\<lambda>x. k = - key x) (ps @ xs) \<and>
      (sorted (map (\<lambda>x. - key x) ps) \<longrightarrow> sorted (map (\<lambda>x. - key x) (fold (insr key) xs ps)))" for ps k
    by (induction xs arbitrary: ps) (simp_all add: filter_insr sorted_insr)
  note f = this [of "[]"]
  show ?thesis unfolding insertion_sort_insr
  proof (rule properties_for_sort_key [symmetric])
    show "mset (fold (insr key) xs []) = mset xs" "sorted (map (\<lambda>x. - key x) (fold (insr key) xs []))"
      using f by simp_all
    show "filter (\<lambda>x. - key k = - key x) (fold (insr key) xs []) = filter (\<lambda>x. - key k = - key x) xs" for k
      using f [of "- key k"] by simp
  qed
qed

end
