(* ===== verification/Wifi_Config.thy ===== *)
theory Wifi_Config
  imports Json_Api Insertion_Sort
begin

text \<open>
  The WiFi settings and the choice of an access point: \<open>src/src/wifi/wifi_config.h\<close> (all of
  it).  A list of scan results is the array's valid entries; a signal strength is an \<open>int\<close>,
  which the code clamps to \<open>-128 .. 0\<close> before it stores it in eight bits.
\<close>

section \<open>Settings\<close>

definition WIFI_DEFAULT_AP_SSID :: string where "WIFI_DEFAULT_AP_SSID = ''Voyager''"
definition WIFI_BACKOFF_MIN_MS :: u32 where "WIFI_BACKOFF_MIN_MS = 5000"
definition WIFI_BACKOFF_MAX_MS :: u32 where "WIFI_BACKOFF_MAX_MS = 60000"
definition WIFI_STA_CONNECT_TIMEOUT_S :: int where "WIFI_STA_CONNECT_TIMEOUT_S = 20"

datatype WifiCfgMode = WIFI_CFG_AP | WIFI_CFG_STA

record WifiConfig =
  w_mode :: WifiCfgMode
  w_ssid :: string
  w_pass :: string
  w_ap_pass :: string

definition WifiConfig_init :: WifiConfig where
  "WifiConfig_init = \<lparr>w_mode = WIFI_CFG_AP, w_ssid = WIFI_DEFAULT_AP_SSID, w_pass = [], w_ap_pass = []\<rparr>"

datatype WifiParseResult = WIFI_PARSE_OK | WIFI_PARSE_DEFAULTED | WIFI_PARSE_ERROR

definition wifi_printable_ascii :: "string \<Rightarrow> nat \<Rightarrow> bool" where
  "wifi_printable_ascii s n \<longleftrightarrow> list_all (\<lambda>c. \<not> (byte_of c < 0x20 \<or> byte_of c > 0x7E)) (take n s)"

definition wifi_valid_ssid :: "string option \<Rightarrow> bool" where
  "wifi_valid_ssid s =
     (case s of
        None \<Rightarrow> False
      | Some s \<Rightarrow>
          if length s < 1 \<or> length s > 32 then False
          else list_all (\<lambda>c. \<not> (byte_of c < 0x20 \<or> byte_of c = 0x7F)) s)"

definition wifi_valid_sta_pass :: "string option \<Rightarrow> bool" where
  "wifi_valid_sta_pass s =
     (case s of
        None \<Rightarrow> False
      | Some s \<Rightarrow>
          if length s = 0 then True
          else length s \<ge> 8 \<and> length s \<le> 63 \<and> wifi_printable_ascii s (length s))"

definition wifi_valid_ap_pass :: "string option \<Rightarrow> bool" where
  "wifi_valid_ap_pass s =
     (case s of None \<Rightarrow> False | Some s \<Rightarrow> length s \<ge> 8 \<and> length s \<le> 63 \<and> wifi_printable_ascii s (length s))"

definition wifi_valid_ap_pass_setting :: "string option \<Rightarrow> bool" where
  "wifi_valid_ap_pass_setting s =
     (case s of None \<Rightarrow> False | Some t \<Rightarrow> t = [] \<or> wifi_valid_ap_pass s)"

definition hex_upper :: "u8 \<Rightarrow> char" where
  "hex_upper n = ''0123456789ABCDEF'' ! unat (n AND 0x0F)"

definition hex_byte :: "u8 \<Rightarrow> string" where
  "hex_byte b = [hex_upper (drop_bit 4 b AND 0x0F), hex_upper (b AND 0x0F)]"

definition wifi_derive_ap_pass :: "bytes \<Rightarrow> string" where
  "wifi_derive_ap_pass mac = concat (map (\<lambda>i. hex_byte (mac ! i)) [2..<6])"

definition wifi_next_backoff :: "u32 \<Rightarrow> u32" where
  "wifi_next_backoff current_ms =
     (if current_ms < WIFI_BACKOFF_MIN_MS then WIFI_BACKOFF_MIN_MS
      else if current_ms \<ge> WIFI_BACKOFF_MAX_MS div 2 then WIFI_BACKOFF_MAX_MS
      else current_ms * 2)"

section \<open>Scan results\<close>

record WifiScanEntry =
  e_ssid :: string
  e_rssi :: int

definition clamp_rssi :: "int \<Rightarrow> int" where
  "clamp_rssi r = (let r = (if r < -128 then -128 else r) in if r > 0 then 0 else r)"

text \<open>A network in the list for the web flasher (\<open>wifi_support.h\<close>).\<close>

record WifiNet =
  n_ssid :: string
  n_rssi :: int
  n_secure :: bool

text \<open>The index of the weakest entry, the first if several are.\<close>

definition weakest :: "WifiScanEntry list \<Rightarrow> nat" where
  "weakest xs = fold (\<lambda>i slot. if e_rssi (xs ! i) < e_rssi (xs ! slot) then i else slot) [1..<length xs] 0"

definition wifi_scan_merge :: "WifiScanEntry list \<Rightarrow> nat \<Rightarrow> string option \<Rightarrow> int \<Rightarrow> WifiScanEntry list" where
  "wifi_scan_merge xs cap ssid rssi =
     (if cap = 0 \<or> \<not> wifi_valid_ssid ssid then xs
      else
        let s = the ssid; rssi = clamp_rssi rssi; e = \<lparr>e_ssid = take 32 s, e_rssi = rssi\<rparr> in
        (case find_idx (\<lambda>x. e_ssid x = s) xs of
           Some i \<Rightarrow> if rssi > e_rssi (xs ! i) then xs[i := (xs ! i)\<lparr>e_rssi := rssi\<rparr>] else xs
         | None \<Rightarrow>
             if length xs \<ge> cap then
               let slot = weakest xs in
               if rssi \<le> e_rssi (xs ! slot) then xs else xs[slot := e]
             else xs @ [e]))"

definition wifi_scan_sort :: "WifiScanEntry list \<Rightarrow> WifiScanEntry list" where
  "wifi_scan_sort xs = fold (sort_step e_rssi) [1..<length xs] xs"

section \<open>Choosing an access point\<close>

definition WIFI_ROAM_MIN_GAIN_DB :: int where "WIFI_ROAM_MIN_GAIN_DB = 10"
definition WIFI_ROAM_CHECK_MS :: u32 where "WIFI_ROAM_CHECK_MS = 300000"
definition WIFI_ROAM_SETTLE_MS :: u32 where "WIFI_ROAM_SETTLE_MS = 60000"
definition WIFI_ROAM_SCAN_BELOW_DBM :: int where "WIFI_ROAM_SCAN_BELOW_DBM = -50"

record WifiApCandidate =
  ap_valid :: bool
  ap_rssi :: int
  ap_channel :: int
  ap_bssid :: bytes

definition WifiApCandidate_init :: WifiApCandidate where
  "WifiApCandidate_init = \<lparr>ap_valid = False, ap_rssi = -128, ap_channel = 0, ap_bssid = replicate 6 0\<rparr>"

record WifiApInfo =
  i_ssid :: "string option"
  i_rssi :: int
  i_bssid :: bytes
  i_channel :: int

definition wifi_consider_ap ::
  "WifiApCandidate \<Rightarrow> string option \<Rightarrow> string option \<Rightarrow> int \<Rightarrow> bytes option \<Rightarrow> int \<Rightarrow> WifiApCandidate \<times> bool" where
  "wifi_consider_ap best want_ssid ssid rssi bssid channel =
     (if want_ssid = None \<or> want_ssid = Some [] \<or> ssid = None \<or> bssid = None then (best, False)
      else if want_ssid \<noteq> ssid then (best, False)
      else if channel < 1 \<or> channel > 14 then (best, False)
      else
        let rssi = clamp_rssi rssi in
        if ap_valid best \<and> rssi \<le> ap_rssi best then (best, False)
        else (\<lparr>ap_valid = True, ap_rssi = rssi, ap_channel = channel, ap_bssid = take 6 (the bssid)\<rparr>, True))"

record WifiApSelector =
  s_any :: WifiApCandidate
  s_other :: WifiApCandidate
  has_avoid :: bool
  s_avoid :: bytes
  s_matches :: int

definition WifiApSelector_init :: WifiApSelector where
  "WifiApSelector_init = \<lparr>s_any = WifiApCandidate_init, s_other = WifiApCandidate_init, has_avoid = False,
     s_avoid = replicate 6 0, s_matches = 0\<rparr>"

definition set_avoid :: "WifiApSelector \<Rightarrow> bytes option \<Rightarrow> WifiApSelector" where
  "set_avoid sel b =
     (case b of None \<Rightarrow> sel\<lparr>has_avoid := False\<rparr> | Some b \<Rightarrow> sel\<lparr>has_avoid := True, s_avoid := take 6 b\<rparr>)"

definition sel_add ::
  "WifiApSelector \<Rightarrow> string option \<Rightarrow> string option \<Rightarrow> int \<Rightarrow> bytes option \<Rightarrow> int \<Rightarrow> WifiApSelector" where
  "sel_add sel want_ssid ssid rssi bssid channel =
     (if want_ssid = None \<or> ssid = None \<or> want_ssid \<noteq> ssid then sel
      else
        let sel = sel\<lparr>s_matches := s_matches sel + 1,
                     s_any := fst (wifi_consider_ap (s_any sel) want_ssid ssid rssi bssid channel)\<rparr> in
        if \<not> (has_avoid sel \<and> (case bssid of None \<Rightarrow> False | Some b \<Rightarrow> take 6 b = s_avoid sel)) then
          sel\<lparr>s_other := fst (wifi_consider_ap (s_other sel) want_ssid ssid rssi bssid channel)\<rparr>
        else sel)"

definition sel_pick :: "WifiApSelector \<Rightarrow> WifiApCandidate" where
  "sel_pick sel = (if ap_valid (s_other sel) then s_other sel else s_any sel)"

definition only_avoided :: "WifiApSelector \<Rightarrow> bool" where
  "only_avoided sel \<longleftrightarrow> has_avoid sel \<and> ap_valid (s_any sel) \<and> \<not> ap_valid (s_other sel)"

text \<open>\<open>None\<close> is the result -1; the list is empty for a null pointer.\<close>

definition wifi_pick_strongest :: "WifiApInfo list \<Rightarrow> string option \<Rightarrow> bytes option \<Rightarrow> nat option" where
  "wifi_pick_strongest xs want_ssid avoid =
     (let sel = foldl (\<lambda>sel i. sel_add sel want_ssid (i_ssid i) (i_rssi i) (Some (i_bssid i)) (i_channel i))
                  (set_avoid WifiApSelector_init avoid) xs;
          p = sel_pick sel in
      if \<not> ap_valid p then None
      else find_idx (\<lambda>i. i_bssid i = ap_bssid p \<and> i_rssi i = ap_rssi p \<and> i_channel i = ap_channel p) xs)"

datatype WifiDiscKind = WIFI_DISC_SELF | WIFI_DISC_BAD_AP | WIFI_DISC_AUTH | WIFI_DISC_OTHER

definition wifi_classify_reason :: "int \<Rightarrow> WifiDiscKind" where
  "wifi_classify_reason r =
     (if r \<in> {8, 36} then WIFI_DISC_SELF
      else if r \<in> {2, 3, 4, 5, 6, 7, 34, 39, 200, 201, 202, 203, 205} then WIFI_DISC_BAD_AP
      else if r \<in> {14, 15, 23, 204} then WIFI_DISC_AUTH
      else WIFI_DISC_OTHER)"

definition wifi_reason_names :: "(int \<times> string) list" where
  "wifi_reason_names =
     [(1, ''UNSPECIFIED''), (2, ''AUTH_EXPIRE''), (3, ''AUTH_LEAVE''), (4, ''ASSOC_EXPIRE''), (5, ''ASSOC_TOOMANY''),
      (6, ''NOT_AUTHED''), (7, ''NOT_ASSOCED''), (8, ''ASSOC_LEAVE''), (14, ''MIC_FAILURE''),
      (15, ''4WAY_HANDSHAKE_TIMEOUT''), (23, ''802_1X_AUTH_FAILED''), (34, ''MISSING_ACKS''), (36, ''STA_LEAVING''),
      (39, ''TIMEOUT''), (200, ''BEACON_TIMEOUT''), (201, ''NO_AP_FOUND''), (202, ''AUTH_FAIL''), (203, ''ASSOC_FAIL''),
      (204, ''HANDSHAKE_TIMEOUT''), (205, ''CONNECTION_FAIL''), (206, ''AP_TSF_RESET''), (207, ''ROAMING'')]"

definition wifi_reason_name :: "int \<Rightarrow> string" where
  "wifi_reason_name r = (case map_of wifi_reason_names r of None \<Rightarrow> ''OTHER'' | Some s \<Rightarrow> s)"

definition wifi_roam_check_due :: "int \<Rightarrow> u32 \<Rightarrow> u32 \<Rightarrow> bool" where
  "wifi_roam_check_due cur_rssi ms_connected ms_since_check =
     (if cur_rssi \<ge> 0 \<or> cur_rssi > WIFI_ROAM_SCAN_BELOW_DBM then False
      else ms_connected \<ge> WIFI_ROAM_SETTLE_MS \<and> ms_since_check \<ge> WIFI_ROAM_CHECK_MS)"

definition wifi_should_roam :: "int \<Rightarrow> WifiApCandidate \<Rightarrow> bytes option \<Rightarrow> int \<Rightarrow> bool" where
  "wifi_should_roam cur_rssi best cur_bssid min_gain_db =
     (if \<not> ap_valid best \<or> cur_rssi \<ge> 0 \<or> cur_rssi < -128 then False
      else if (case cur_bssid of None \<Rightarrow> False | Some b \<Rightarrow> take 6 b = ap_bssid best) then False
      else ap_rssi best - cur_rssi \<ge> min_gain_db)"

definition hex_bytes_sep :: "char \<Rightarrow> bytes \<Rightarrow> string" where
  "hex_bytes_sep sep b = concat (map (\<lambda>i. hex_byte (b ! i) @ (if i < 5 then [sep] else [])) [0..<6])"

definition wifi_format_bssid :: "bytes option \<Rightarrow> string" where
  "wifi_format_bssid b = (case b of None \<Rightarrow> [] | Some b \<Rightarrow> hex_bytes_sep (CHR '':'') b)"

definition WIFI_HOSTNAME_LEN :: nat where "WIFI_HOSTNAME_LEN = 34"

definition wifi_format_hostname :: "bytes \<Rightarrow> string" where
  "wifi_format_hostname mac = ''project-voyager-'' @ hex_bytes_sep (CHR ''-'') mac"

section \<open>The settings file\<close>

definition jtext :: "'v json_api \<Rightarrow> 'v \<Rightarrow> string \<Rightarrow> string option" where
  "jtext J doc k = jstr J (jmember J doc k)"

definition wifi_parse_sta :: "string option \<Rightarrow> string option \<Rightarrow> WifiConfig \<times> bool" where
  "wifi_parse_sta ssid pass =
     (if wifi_valid_ssid ssid \<and> wifi_valid_sta_pass (case pass of None \<Rightarrow> Some [] | Some p \<Rightarrow> Some p) then
        (WifiConfig_init\<lparr>w_mode := WIFI_CFG_STA, w_ssid := the ssid,
           w_pass := (case pass of None \<Rightarrow> [] | Some p \<Rightarrow> p)\<rparr>, pass = None)
      else (WifiConfig_init\<lparr>w_mode := WIFI_CFG_AP, w_ssid := WIFI_DEFAULT_AP_SSID\<rparr>, True))"

definition wifi_parse_ap :: "bool \<Rightarrow> string option \<Rightarrow> string option \<Rightarrow> WifiConfig \<times> bool" where
  "wifi_parse_ap is_ap ssid pass =
     (let defaulted = \<not> is_ap;
          out = WifiConfig_init\<lparr>w_mode := WIFI_CFG_AP\<rparr>;
          (out, defaulted) = (if wifi_valid_ssid ssid then (out\<lparr>w_ssid := the ssid\<rparr>, defaulted)
                              else (out\<lparr>w_ssid := WIFI_DEFAULT_AP_SSID\<rparr>, True));
          out = (if pass \<noteq> None \<and> wifi_valid_sta_pass pass then out\<lparr>w_pass := the pass\<rparr> else out)
      in (out, defaulted))"

definition wifi_parse_config :: "'v json_api \<Rightarrow> string option \<Rightarrow> WifiParseResult \<times> WifiConfig" where
  "wifi_parse_config J json =
     (if json = None \<or> json = Some [] then (WIFI_PARSE_ERROR, WifiConfig_init)
      else
        (case jparse J (the json) of
           None \<Rightarrow> (WIFI_PARSE_ERROR, WifiConfig_init)
         | Some doc \<Rightarrow>
             if \<not> jobject J doc then (WIFI_PARSE_ERROR, WifiConfig_init)
             else
               let fn = jstr_or J doc ''wifi_function'' [];
                   ssid = jtext J doc ''wifi_ssid''; pass = jtext J doc ''wifi_pass''; ap_pass = jtext J doc ''ap_pass'';
                   (out, defaulted) = (if fn = ''STA'' then wifi_parse_sta ssid pass
                                       else wifi_parse_ap (fn = ''AP'') ssid pass);
                   (out, defaulted) =
                     (if ap_pass \<noteq> None \<and> wifi_valid_ap_pass ap_pass then (out\<lparr>w_ap_pass := the ap_pass\<rparr>, defaulted)
                      else (out\<lparr>w_ap_pass := []\<rparr>, if ap_pass = None \<or> ap_pass \<noteq> Some [] then True else defaulted))
               in (if defaulted then WIFI_PARSE_DEFAULTED else WIFI_PARSE_OK, out)))"

definition wifi_members :: "WifiConfig \<Rightarrow> (string \<times> string) list" where
  "wifi_members c =
     [(''wifi_function'', if w_mode c = WIFI_CFG_STA then ''STA'' else ''AP''), (''wifi_ssid'', w_ssid c),
      (''wifi_pass'', w_pass c), (''ap_pass'', w_ap_pass c)]"

definition wifi_serialize_config :: "'v json_api \<Rightarrow> WifiConfig \<Rightarrow> string" where
  "wifi_serialize_config J c = jser J (JObject (map (\<lambda>(k, s). (k, JText s)) (wifi_members c)))"

section \<open>What the settings can be\<close>

lemmas wifi_valid_defs = wifi_valid_ssid_def wifi_valid_sta_pass_def wifi_valid_ap_pass_def wifi_valid_ap_pass_setting_def

definition wifi_config_ok :: "WifiConfig \<Rightarrow> bool" where
  "wifi_config_ok c \<longleftrightarrow> wifi_valid_ssid (Some (w_ssid c)) \<and> wifi_valid_sta_pass (Some (w_pass c)) \<and>
     wifi_valid_ap_pass_setting (Some (w_ap_pass c))"

lemma default_ssid_ok [simp]: "wifi_valid_ssid (Some WIFI_DEFAULT_AP_SSID)"
  by (simp add: wifi_valid_ssid_def WIFI_DEFAULT_AP_SSID_def byte_of_def)

lemma empty_pass_ok [simp]: "wifi_valid_sta_pass (Some [])" "wifi_valid_ap_pass_setting (Some [])"
  by (simp_all add: wifi_valid_defs)

lemma valid_ssid_some: "wifi_valid_ssid s \<Longrightarrow> wifi_valid_ssid (Some (the s))"
  by (cases s) (simp_all add: wifi_valid_ssid_def)

lemma wifi_init_ok [simp]: "wifi_config_ok WifiConfig_init"
  by (simp add: wifi_config_ok_def WifiConfig_init_def)

lemma wifi_parse_sta_ok: "wifi_config_ok (fst (wifi_parse_sta ssid pass))"
  by (cases pass) (auto simp: wifi_parse_sta_def wifi_config_ok_def WifiConfig_init_def valid_ssid_some)

lemma wifi_parse_ap_ok: "wifi_config_ok (fst (wifi_parse_ap b ssid pass))"
  by (cases pass) (auto simp: wifi_parse_ap_def wifi_config_ok_def WifiConfig_init_def valid_ssid_some Let_def)

lemma wifi_ap_pass_ok:
  "wifi_config_ok c \<Longrightarrow> wifi_config_ok (c\<lparr>w_ap_pass := []\<rparr>)"
  "wifi_config_ok c \<Longrightarrow> wifi_valid_ap_pass (Some p) \<Longrightarrow> wifi_config_ok (c\<lparr>w_ap_pass := p\<rparr>)"
  by (auto simp: wifi_config_ok_def wifi_valid_ap_pass_setting_def)

lemma wifi_parse_mode_ok:
  "wifi_config_ok (fst (if fn = ''STA'' then wifi_parse_sta ssid pass else wifi_parse_ap (fn = ''AP'') ssid pass))"
  by (simp add: wifi_parse_sta_ok wifi_parse_ap_ok)

lemma wifi_parse_config_ok: "wifi_config_ok (snd (wifi_parse_config J json))"
proof (cases "json = None \<or> json = Some [] \<or> (case jparse J (the json) of None \<Rightarrow> True | Some doc \<Rightarrow> \<not> jobject J doc)")
  case True
  then show ?thesis by (auto simp: wifi_parse_config_def split: option.splits)
next
  case False
  then obtain doc where doc: "json \<noteq> None" "json \<noteq> Some []" "jparse J (the json) = Some doc" "jobject J doc"
    by (auto split: option.splits)
  define ap where "ap = jtext J doc ''ap_pass''"
  define fn where "fn = jstr_or J doc ''wifi_function'' []"
  obtain c d where cd: "(if fn = ''STA'' then wifi_parse_sta (jtext J doc ''wifi_ssid'') (jtext J doc ''wifi_pass'')
      else wifi_parse_ap (fn = ''AP'') (jtext J doc ''wifi_ssid'') (jtext J doc ''wifi_pass'')) = (c, d)"
    by (metis surj_pair)
  have ok: "wifi_config_ok c" using wifi_parse_mode_ok [of fn "jtext J doc ''wifi_ssid''" "jtext J doc ''wifi_pass''"] cd by simp
  have "snd (wifi_parse_config J json) = (if ap \<noteq> None \<and> wifi_valid_ap_pass ap then c\<lparr>w_ap_pass := the ap\<rparr> else c\<lparr>w_ap_pass := []\<rparr>)"
    unfolding wifi_parse_config_def Let_def using doc by (auto simp add: cd [unfolded fn_def] ap_def)
  then show ?thesis using ok by (cases ap) (simp_all add: wifi_ap_pass_ok)
qed

text \<open>The rules of the two texts, by byte values.\<close>

definition fits_ssid :: "string \<Rightarrow> bool" where
  "fits_ssid s \<longleftrightarrow> 1 \<le> length s \<and> length s \<le> 32 \<and> (\<forall>c \<in> set s. 32 \<le> (of_char c :: nat) \<and> of_char c \<noteq> (127 :: nat))"

definition fits_key :: "string \<Rightarrow> bool" where
  "fits_key s \<longleftrightarrow> 8 \<le> length s \<and> length s \<le> 63 \<and> (\<forall>c \<in> set s. 32 \<le> (of_char c :: nat) \<and> of_char c \<le> (126 :: nat))"

lemma byte_range:
  "\<not> byte_of c < 0x20 \<longleftrightarrow> 32 \<le> (of_char c :: nat)" "\<not> byte_of c > 0x7E \<longleftrightarrow> of_char c \<le> (126 :: nat)"
  "byte_of c = 0x7F \<longleftrightarrow> of_char c = (127 :: nat)"
proof -
  have u: "unat (byte_of c) = of_char c" by (simp add: byte_of_def unsigned_of_nat take_bit_nat_eq_self)
  show "\<not> byte_of c < 0x20 \<longleftrightarrow> 32 \<le> (of_char c :: nat)" "\<not> byte_of c > 0x7E \<longleftrightarrow> of_char c \<le> (126 :: nat)"
    by (simp_all add: word_less_nat_alt not_less u)
  show "byte_of c = 0x7F \<longleftrightarrow> of_char c = (127 :: nat)" by (simp add: word_unat_eq_iff u)
qed

lemma valid_fits:
  "wifi_valid_ssid (Some s) \<longleftrightarrow> fits_ssid s"
  "wifi_valid_sta_pass (Some s) \<longleftrightarrow> s = [] \<or> fits_key s"
  "wifi_valid_ap_pass (Some s) \<longleftrightarrow> fits_key s"
  by (auto simp: wifi_valid_ssid_def wifi_valid_sta_pass_def wifi_valid_ap_pass_def wifi_printable_ascii_def
      fits_ssid_def fits_key_def list_all_iff byte_range Suc_le_eq)

lemma valid_none: "\<not> wifi_valid_ssid None" "\<not> wifi_valid_sta_pass None" "\<not> wifi_valid_ap_pass None"
  by (simp_all add: wifi_valid_defs)

text \<open>The settings a document stands for, stated without the code's checks.\<close>

definition settings_of :: "'v json_api \<Rightarrow> string option \<Rightarrow> WifiConfig" where
  "settings_of J json =
     (case (case json of None \<Rightarrow> None | Some s \<Rightarrow> if s = [] then None else jparse J s) of
        None \<Rightarrow> \<lparr>w_mode = WIFI_CFG_AP, w_ssid = ''Voyager'', w_pass = [], w_ap_pass = []\<rparr>
      | Some doc \<Rightarrow>
          if \<not> jobject J doc then \<lparr>w_mode = WIFI_CFG_AP, w_ssid = ''Voyager'', w_pass = [], w_ap_pass = []\<rparr>
          else
            let member = (\<lambda>k. jstr J (jmember J doc k));
                sta = (member ''wifi_function'' = Some ''STA'');
                ssid = member ''wifi_ssid''; pass = member ''wifi_pass''; ap = member ''ap_pass'';
                ssid_fits = (\<exists>s. ssid = Some s \<and> fits_ssid s);
                key_fits = (\<exists>s. pass = Some s \<and> fits_key s);
                joins = (sta \<and> ssid_fits \<and> (pass = None \<or> pass = Some [] \<or> key_fits))
            in \<lparr>w_mode = (if joins then WIFI_CFG_STA else WIFI_CFG_AP),
                w_ssid = (if joins \<or> \<not> sta \<and> ssid_fits then the ssid else ''Voyager''),
                w_pass = (if (joins \<or> \<not> sta) \<and> key_fits then the pass else []),
                w_ap_pass = (if \<exists>s. ap = Some s \<and> fits_key s then the ap else [])\<rparr>)"

lemma settings_of_parsed: "snd (wifi_parse_config J json) = settings_of J json"
proof (cases "\<exists>s doc. json = Some s \<and> s \<noteq> [] \<and> jparse J s = Some doc \<and> jobject J doc")
  case False
  then show ?thesis
  proof (cases json)
    case (Some s)
    with False show ?thesis
    proof (cases "jparse J s")
      case doc: (Some doc)
      with False Some have "s = [] \<or> \<not> jobject J doc" by blast
      with Some doc show ?thesis
        by (elim disjE) (simp_all add: wifi_parse_config_def settings_of_def WifiConfig_init_def WIFI_DEFAULT_AP_SSID_def)
    qed (simp add: wifi_parse_config_def settings_of_def WifiConfig_init_def WIFI_DEFAULT_AP_SSID_def)
  qed (simp add: wifi_parse_config_def settings_of_def WifiConfig_init_def WIFI_DEFAULT_AP_SSID_def)
next
  case True
  then obtain s doc where d: "json = Some s" "s \<noteq> []" "jparse J s = Some doc" "jobject J doc" by blast
  have fn: "jstr_or J doc ''wifi_function'' [] = ''STA'' \<longleftrightarrow> jstr J (jmember J doc ''wifi_function'') = Some ''STA''"
    by (simp add: jstr_or_def split: option.split)
  have w: "wifi_parse_config J json = (let
      ssid = jtext J doc ''wifi_ssid''; pass = jtext J doc ''wifi_pass''; ap_pass = jtext J doc ''ap_pass'';
      fn = jstr_or J doc ''wifi_function'' [];
      (out, defaulted) = (if fn = ''STA'' then wifi_parse_sta ssid pass else wifi_parse_ap (fn = ''AP'') ssid pass);
      (out, defaulted) = (if ap_pass \<noteq> None \<and> wifi_valid_ap_pass ap_pass then (out\<lparr>w_ap_pass := the ap_pass\<rparr>, defaulted)
        else (out\<lparr>w_ap_pass := []\<rparr>, if ap_pass = None \<or> ap_pass \<noteq> Some [] then True else defaulted))
      in (if defaulted then WIFI_PARSE_DEFAULTED else WIFI_PARSE_OK, out))"
    using d by (simp add: wifi_parse_config_def Let_def)
  have sta: "fst (wifi_parse_sta ssid pass) =
      (if (\<exists>s. ssid = Some s \<and> fits_ssid s) \<and> (pass = None \<or> pass = Some [] \<or> (\<exists>s. pass = Some s \<and> fits_key s))
       then \<lparr>w_mode = WIFI_CFG_STA, w_ssid = the ssid,
             w_pass = (if \<exists>s. pass = Some s \<and> fits_key s then the pass else []), w_ap_pass = []\<rparr>
       else \<lparr>w_mode = WIFI_CFG_AP, w_ssid = ''Voyager'', w_pass = [], w_ap_pass = []\<rparr>)" for ssid pass
    by (cases ssid; cases pass)
      (auto simp: wifi_parse_sta_def valid_fits valid_none WifiConfig_init_def WIFI_DEFAULT_AP_SSID_def)
  have ap: "fst (wifi_parse_ap b ssid pass) =
      \<lparr>w_mode = WIFI_CFG_AP, w_ssid = (if \<exists>s. ssid = Some s \<and> fits_ssid s then the ssid else ''Voyager''),
       w_pass = (if \<exists>s. pass = Some s \<and> fits_key s then the pass else []), w_ap_pass = []\<rparr>" for b ssid pass
    by (cases ssid; cases pass)
      (auto simp: wifi_parse_ap_def valid_fits valid_none WifiConfig_init_def WIFI_DEFAULT_AP_SSID_def Let_def)
  have key: "wifi_valid_ap_pass k \<longleftrightarrow> (\<exists>s. k = Some s \<and> fits_key s)" for k
    by (cases k) (simp_all add: valid_fits valid_none)
  have snd: "snd (wifi_parse_config J json) =
      (fst (if jstr_or J doc ''wifi_function'' [] = ''STA''
            then wifi_parse_sta (jtext J doc ''wifi_ssid'') (jtext J doc ''wifi_pass'')
            else wifi_parse_ap (jstr_or J doc ''wifi_function'' [] = ''AP'') (jtext J doc ''wifi_ssid'') (jtext J doc ''wifi_pass'')))
      \<lparr>w_ap_pass := (if wifi_valid_ap_pass (jtext J doc ''ap_pass'') then the (jtext J doc ''ap_pass'') else [])\<rparr>"
    unfolding w Let_def by (auto simp: valid_none split: prod.split)
  define S P A where f: "S = jstr J (jmember J doc ''wifi_ssid'')" "P = jstr J (jmember J doc ''wifi_pass'')"
    "A = jstr J (jmember J doc ''ap_pass'')"
  define sf pf af where g: "sf = (\<exists>s. S = Some s \<and> fits_ssid s)" "pf = (\<exists>s. P = Some s \<and> fits_key s)"
    "af = (\<exists>s. A = Some s \<and> fits_key s)"
  have doc: "settings_of J json =
      (let st = (jstr J (jmember J doc ''wifi_function'') = Some ''STA'');
           joins = (st \<and> sf \<and> (P = None \<or> P = Some [] \<or> pf))
       in \<lparr>w_mode = (if joins then WIFI_CFG_STA else WIFI_CFG_AP),
           w_ssid = (if joins \<or> \<not> st \<and> sf then the S else ''Voyager''),
           w_pass = (if (joins \<or> \<not> st) \<and> pf then the P else []), w_ap_pass = (if af then the A else [])\<rparr>)"
    using d(2,3,4) unfolding settings_of_def d(1) Let_def f g by simp
  show ?thesis
    unfolding snd fn key doc jtext_def f [symmetric]
    by (cases "jstr J (jmember J doc ''wifi_function'') = Some ''STA''") (auto simp: sta ap Let_def simp flip: g)
qed

text \<open>
  C25 (wifi_settings_always_valid). Whatever the settings file holds (missing, not JSON, wrong types, values out of
  range) the board starts with settings the radio accepts: an SSID of 1 to 32 bytes without
  control characters, a password that is empty or has 8 to 63 characters from 0x20 to 0x7E, and
  an access point password that is empty (the derived default) or of the same form. They are
  exactly the stored ones where these fit: the board joins a network only when the file says
  STA with an SSID that fits and a password that is missing, empty or fits, and then with these
  two; an access point takes over its SSID and password one by one, and the access point
  password is taken over whenever it fits; everything else is the default \<open>Voyager\<close> without a
  password.\<close>

theorem wifi_settings_always_valid:
  "snd (wifi_parse_config J json) = settings_of J json \<and>
   1 \<le> length (w_ssid (settings_of J json)) \<and> length (w_ssid (settings_of J json)) \<le> 32 \<and>
   (\<forall>c \<in> set (w_ssid (settings_of J json)). 32 \<le> (of_char c :: nat) \<and> of_char c \<noteq> (127 :: nat)) \<and>
   (\<forall>s \<in> {w_pass (settings_of J json), w_ap_pass (settings_of J json)}. s = [] \<or>
      8 \<le> length s \<and> length s \<le> 63 \<and> (\<forall>c \<in> set s. 32 \<le> (of_char c :: nat) \<and> of_char c \<le> (126 :: nat)))"
proof -
  have v: "fits_ssid ''Voyager''" by (simp add: fits_ssid_def)
  have "fits_ssid (w_ssid (settings_of J json)) \<and>
    (\<forall>s \<in> {w_pass (settings_of J json), w_ap_pass (settings_of J json)}. s = [] \<or> fits_key s)"
    using v by (auto simp: settings_of_def Let_def split: option.split)
  then show ?thesis by (simp add: settings_of_parsed fits_ssid_def fits_key_def)
qed

theorem wifi_settings_always_valid_witness:
  "settings_of (toy_json [(''f'', STable [(''wifi_function'', SStr ''STA''), (''wifi_ssid'', SStr ''home''),
     (''wifi_pass'', SStr ''12345678''), (''ap_pass'', SStr ''short'')])] (\<lambda>d. [])) (Some ''f'') =
   \<lparr>w_mode = WIFI_CFG_STA, w_ssid = ''home'', w_pass = ''12345678'', w_ap_pass = []\<rparr> \<and>
   length (w_ssid (snd (wifi_parse_config (toy_json [(''f'', STable [(''wifi_ssid'', SStr [])])] (\<lambda>d. [])) (Some ''f'')))) \<le> 32"
  using wifi_settings_always_valid [of "toy_json [(''f'', STable [(''wifi_ssid'', SStr [])])] (\<lambda>d. [])" "Some ''f''"]
  by (simp add: settings_of_def toy_json_def fits_ssid_def fits_key_def)

lemma wifi_parse_serialized:
  assumes "wifi_config_ok c" and "json_reads_texts J (wifi_members c)"
  shows "wifi_parse_config J (Some (wifi_serialize_config J c)) = (WIFI_PARSE_OK, c)"
proof -
  from assms(2) obtain v where v: "wifi_serialize_config J c \<noteq> []" "jparse J (wifi_serialize_config J c) = Some v"
      "jobject J v" and m: "\<forall>(k, t) \<in> set (wifi_members c). jstr J (jmember J v k) = Some t"
    unfolding json_reads_texts_def wifi_serialize_config_def Let_def by blast
  from m have fields: "jstr_or J v ''wifi_function'' [] = (if w_mode c = WIFI_CFG_STA then ''STA'' else ''AP'')"
    "jtext J v ''wifi_ssid'' = Some (w_ssid c)" "jtext J v ''wifi_pass'' = Some (w_pass c)"
    "jtext J v ''ap_pass'' = Some (w_ap_pass c)"
    by (simp_all add: wifi_members_def jtext_def jstr_or_def)
  have ap: "w_ap_pass c \<noteq> [] \<Longrightarrow> wifi_valid_ap_pass (Some (w_ap_pass c))"
    using assms(1) by (simp add: wifi_config_ok_def wifi_valid_ap_pass_setting_def)
  have e: "\<not> wifi_valid_ap_pass (Some [])" by (simp add: wifi_valid_ap_pass_def)
  show ?thesis
  proof (cases "w_mode c")
    case WIFI_CFG_AP
    with v fields ap e assms(1) show ?thesis
      by (cases c) (auto simp: wifi_parse_config_def wifi_parse_ap_def wifi_config_ok_def WifiConfig_init_def Let_def)
  next
    case WIFI_CFG_STA
    with v fields ap e assms(1) show ?thesis
      by (cases c) (auto simp: wifi_parse_config_def wifi_parse_sta_def wifi_config_ok_def WifiConfig_init_def Let_def)
  qed
qed

section \<open>Scan results, sorted\<close>

lemma wifi_scan_sort_key: "wifi_scan_sort xs = sort_key (\<lambda>e. - e_rssi e) xs"
  unfolding wifi_scan_sort_def by (rule insertion_sort_key)

section \<open>Scan results, merged\<close>

text \<open>The strengths at which a network was heard in a sequence of hits.\<close>

definition heard :: "(string option \<times> int) list \<Rightarrow> string \<Rightarrow> int set" where
  "heard hs s = {clamp_rssi r | r. (Some s, r) \<in> set hs \<and> wifi_valid_ssid (Some s)}"

definition scan_of :: "nat \<Rightarrow> (string option \<times> int) list \<Rightarrow> WifiScanEntry list" where
  "scan_of cap hs = foldl (\<lambda>xs (s, r). wifi_scan_merge xs cap s r) [] hs"

definition networks :: "(string option \<times> int) list \<Rightarrow> string set" where
  "networks hs = {s. heard hs s \<noteq> {}}"

lemma heard_snoc:
  "heard (hs @ [(s', r)]) s = heard hs s \<union> (if s' = Some s \<and> wifi_valid_ssid s' then {clamp_rssi r} else {})"
  by (auto simp: heard_def)

lemma heard_finite [simp]: "finite (heard hs s)"
  by (induction hs rule: rev_induct) (auto simp: heard_snoc heard_def [of "[]"])

lemma networks_snoc: "networks (hs @ [(s', r)]) = networks hs \<union> (if wifi_valid_ssid s' then {the s'} else {})"
  by (cases s') (auto simp: networks_def heard_snoc wifi_valid_ssid_def)

lemma networks_Nil [simp]: "networks [] = {}"
  by (simp add: networks_def heard_def)

lemma networks_finite [simp]: "finite (networks hs)"
  by (induction hs rule: rev_induct) (auto simp: networks_snoc split: prod.splits)

definition scan_inv :: "(string option \<times> int) list \<Rightarrow> WifiScanEntry list \<Rightarrow> bool" where
  "scan_inv hs xs \<longleftrightarrow> distinct (map e_ssid xs) \<and> e_ssid ` set xs = networks hs \<and>
     (\<forall>x \<in> set xs. e_rssi x = Max (heard hs (e_ssid x)))"

lemma scan_inv_length: "scan_inv hs xs \<Longrightarrow> length xs = card (networks hs)"
  by (metis scan_inv_def distinct_card length_map set_map)

lemma scan_inv_invalid:
  assumes "scan_inv hs xs" "\<not> wifi_valid_ssid s"
  shows "scan_inv (hs @ [(s, r)]) xs"
  using assms by (simp add: scan_inv_def networks_snoc heard_snoc)

lemma scan_inv_new:
  assumes "scan_inv hs xs" "wifi_valid_ssid (Some s)" "s \<notin> networks hs"
  shows "scan_inv (hs @ [(Some s, r)]) (xs @ [\<lparr>e_ssid = s, e_rssi = clamp_rssi r\<rparr>])"
proof -
  have "heard hs s = {}" using assms(3) by (simp add: networks_def)
  moreover have "e_ssid x \<noteq> s" if "x \<in> set xs" for x using assms(1,3) that by (auto simp: scan_inv_def)
  ultimately show ?thesis using assms by (auto simp: scan_inv_def networks_snoc heard_snoc)
qed

lemma scan_inv_again:
  assumes inv: "scan_inv hs xs" and v: "wifi_valid_ssid (Some s)" and i: "i < length xs" "e_ssid (xs ! i) = s"
  shows "scan_inv (hs @ [(Some s, r)])
    (if clamp_rssi r > e_rssi (xs ! i) then xs[i := (xs ! i)\<lparr>e_rssi := clamp_rssi r\<rparr>] else xs)"
proof -
  define y where "y = (xs ! i)\<lparr>e_rssi := max (e_rssi (xs ! i)) (clamp_rssi r)\<rparr>"
  have ys: "(if clamp_rssi r > e_rssi (xs ! i) then xs[i := (xs ! i)\<lparr>e_rssi := clamp_rssi r\<rparr>] else xs) = xs[i := y]"
    using i(1) by (auto simp: y_def max_def)
  have mem: "xs ! i \<in> set xs" using i(1) by simp
  have h: "heard hs s \<noteq> {}" using inv mem i(2) by (auto simp: scan_inv_def networks_def)
  have names: "map e_ssid (xs[i := y]) = map e_ssid xs" using i by (simp add: map_update y_def list_update_same_conv)
  have others: "e_ssid x \<noteq> s" if "x \<in> set xs" "x \<noteq> xs ! i" for x
    using inv that i mem unfolding scan_inv_def by (metis (mono_tags, lifting) distinct_map inj_on_def)
  have upd: "x = y \<or> x \<in> set xs \<and> x \<noteq> xs ! i" if "x \<in> set (xs[i := y])" for x
  proof -
    from inv have "distinct xs" by (simp add: scan_inv_def distinct_map)
    then have "set (xs[i := y]) = insert y (set xs - {xs ! i})" using i(1) by (rule set_update_distinct)
    with that show ?thesis by auto
  qed
  have ymax: "e_rssi y = Max (heard (hs @ [(Some s, r)]) (e_ssid y))"
    using inv mem h v i(2) by (simp add: y_def heard_snoc scan_inv_def max.commute)
  have "e_rssi x = Max (heard (hs @ [(Some s, r)]) (e_ssid x))" if "x \<in> set (xs[i := y])" for x
    using upd [OF that] ymax others inv by (auto simp: heard_snoc scan_inv_def)
  moreover have "e_ssid ` set (xs[i := y]) = e_ssid ` set xs" using names by (metis set_map)
  moreover have "s \<in> networks hs" using h by (simp add: networks_def)
  then have "networks (hs @ [(Some s, r)]) = networks hs" using v by (auto simp: networks_snoc)
  ultimately show ?thesis unfolding ys using inv names by (simp add: scan_inv_def)
qed

lemma scan_merge_inv:
  assumes inv: "scan_inv hs xs" and room: "card (networks (hs @ [(s, r)])) \<le> cap"
  shows "scan_inv (hs @ [(s, r)]) (wifi_scan_merge xs cap s r)"
proof (cases "wifi_valid_ssid s")
  case False
  then show ?thesis using scan_inv_invalid [OF inv] by (simp add: wifi_scan_merge_def)
next
  case True
  then obtain t where s: "s = Some t" by (cases s) (simp_all add: wifi_valid_ssid_def)
  have t32: "take 32 t = t" using True by (simp add: s wifi_valid_ssid_def split: if_splits)
  have "t \<in> networks (hs @ [(s, r)])" using True by (simp add: networks_snoc s)
  then have cap: "cap \<noteq> 0" using room by (metis card_gt_0_iff empty_iff networks_finite not_le)
  show ?thesis
  proof (cases "find_idx (\<lambda>x. e_ssid x = t) xs")
    case None
    then have "t \<notin> e_ssid ` set xs" by (auto simp: find_idx_None)
    then have new: "t \<notin> networks hs" using inv by (simp add: scan_inv_def)
    then have "networks (hs @ [(s, r)]) = insert t (networks hs)" using True by (auto simp: networks_snoc s)
    then have "length xs < cap" using room new scan_inv_length [OF inv] by simp
    then show ?thesis using scan_inv_new [OF inv _ new, of r] True None cap
      by (simp add: wifi_scan_merge_def s t32 Let_def)
  next
    case (Some i)
    then have "i < length xs" "e_ssid (xs ! i) = t" by (auto dest: find_idx_SomeD)
    from scan_inv_again [OF inv _ this, of r] True Some cap show ?thesis
      by (simp add: wifi_scan_merge_def s Let_def)
  qed
qed

lemma scan_of_inv: "card (networks hs) \<le> cap \<Longrightarrow> scan_inv hs (scan_of cap hs)"
proof (induction hs rule: rev_induct)
  case Nil
  show ?case by (simp add: scan_of_def scan_inv_def)
next
  case (snoc h hs)
  obtain s r where h: "h = (s, r)" by (cases h)
  have "networks hs \<subseteq> networks (hs @ [h])" by (cases s) (auto simp: h networks_snoc)
  then have "card (networks hs) \<le> card (networks (hs @ [h]))" by (intro card_mono) (auto simp: h)
  with snoc have "scan_inv hs (scan_of cap hs)" by simp
  from scan_merge_inv [OF this] snoc.prems show ?case by (simp add: h scan_of_def)
qed

text \<open>
  As long as a scan hears no more networks than the list holds, the sorted list names
  every network with a valid name heard on any channel exactly once, at the greatest strength
  it was heard with, strongest first.\<close>

lemma wifi_scan_exact:
  assumes "card (networks hs) \<le> cap"
  shows "let xs = wifi_scan_sort (scan_of cap hs) in
    distinct (map e_ssid xs) \<and> e_ssid ` set xs = networks hs \<and>
    (\<forall>x \<in> set xs. e_rssi x = Max (heard hs (e_ssid x))) \<and> sorted (map (\<lambda>x. - e_rssi x) xs)"
proof -
  have "scan_inv hs (scan_of cap hs)" by (rule scan_of_inv [OF assms])
  moreover have "distinct (map e_ssid (sort_key (\<lambda>e. - e_rssi e) xs)) = distinct (map e_ssid xs)" for xs :: "WifiScanEntry list"
    by (metis (no_types, lifting) distinct_map distinct_sort set_sort)
  ultimately show ?thesis by (simp add: Let_def wifi_scan_sort_key scan_inv_def)
qed

section \<open>The access point picked\<close>

text \<open>The entries of the wanted network on a permitted channel, and the pool the selector draws from.\<close>

definition candidates :: "string option \<Rightarrow> WifiApInfo list \<Rightarrow> WifiApInfo list" where
  "candidates want xs = filter (\<lambda>i. want \<noteq> None \<and> want \<noteq> Some [] \<and> i_ssid i = want \<and> 1 \<le> i_channel i \<and> i_channel i \<le> 14) xs"

definition pool :: "string option \<Rightarrow> bytes option \<Rightarrow> WifiApInfo list \<Rightarrow> WifiApInfo list" where
  "pool want avoid xs =
     (let cs = candidates want xs; ok = filter (\<lambda>i. Some (i_bssid i) \<noteq> avoid) cs in if ok = [] then cs else ok)"

text \<open>The best entry of a list, the first of equals, as the running candidate.\<close>

definition best_of :: "WifiApInfo list \<Rightarrow> WifiApCandidate \<Rightarrow> bool" where
  "best_of cs b \<longleftrightarrow> (if cs = [] then \<not> ap_valid b
     else ap_valid b \<and> (\<exists>e \<in> set cs. i_bssid e = ap_bssid b \<and> i_rssi e = ap_rssi b \<and> i_channel e = ap_channel b) \<and>
       (\<forall>e \<in> set cs. i_rssi e \<le> ap_rssi b))"

definition entry_sane :: "WifiApInfo \<Rightarrow> bool" where
  "entry_sane e \<longleftrightarrow> -128 \<le> i_rssi e \<and> i_rssi e \<le> 0 \<and> length (i_bssid e) = 6"

lemma consider_best:
  assumes "best_of cs b" "entry_sane e"
  shows "best_of (cs @ candidates want [e]) (fst (wifi_consider_ap b want (i_ssid e) (i_rssi e) (Some (i_bssid e)) (i_channel e)))"
proof (cases "candidates want [e] = []")
  case True
  then have "fst (wifi_consider_ap b want (i_ssid e) (i_rssi e) (Some (i_bssid e)) (i_channel e)) = b"
    by (auto simp: candidates_def wifi_consider_ap_def split: if_splits)
  then show ?thesis using assms(1) True by simp
next
  case False
  then have c: "candidates want [e] = [e]" "want \<noteq> None" "want \<noteq> Some []" "i_ssid e = want" "1 \<le> i_channel e" "i_channel e \<le> 14"
    by (auto simp: candidates_def split: if_splits)
  have r: "clamp_rssi (i_rssi e) = i_rssi e" "take 6 (i_bssid e) = i_bssid e"
    using assms(2) by (simp_all add: entry_sane_def clamp_rssi_def)
  from c(2-6) r have k: "fst (wifi_consider_ap b want (i_ssid e) (i_rssi e) (Some (i_bssid e)) (i_channel e)) =
    (if ap_valid b \<and> i_rssi e \<le> ap_rssi b then b
     else \<lparr>ap_valid = True, ap_rssi = i_rssi e, ap_channel = i_channel e, ap_bssid = i_bssid e\<rparr>)"
    by (auto simp: wifi_consider_ap_def Let_def)
  show ?thesis
  proof (cases "ap_valid b \<and> i_rssi e \<le> ap_rssi b")
    case True
    then show ?thesis using assms(1) unfolding k c(1) by (auto simp: best_of_def split: if_splits)
  next
    case False
    then have "\<forall>x \<in> set cs. i_rssi x \<le> i_rssi e" using assms(1) by (fastforce simp: best_of_def split: if_splits)
    then show ?thesis using False unfolding k c(1) by (auto simp: best_of_def)
  qed
qed

definition sel_inv :: "string option \<Rightarrow> bytes option \<Rightarrow> WifiApInfo list \<Rightarrow> WifiApSelector \<Rightarrow> bool" where
  "sel_inv want avoid xs sel \<longleftrightarrow> best_of (candidates want xs) (s_any sel) \<and>
     best_of (filter (\<lambda>i. Some (i_bssid i) \<noteq> avoid) (candidates want xs)) (s_other sel) \<and>
     (case avoid of None \<Rightarrow> \<not> has_avoid sel | Some a \<Rightarrow> has_avoid sel \<and> s_avoid sel = a)"

lemma candidates_append [simp]: "candidates want (xs @ ys) = candidates want xs @ candidates want ys"
  by (simp add: candidates_def)

lemma best_of_Nil: "best_of [] WifiApCandidate_init"
  by (simp add: best_of_def WifiApCandidate_init_def)

lemma sel_add_inv:
  assumes inv: "sel_inv want avoid xs sel" and e: "entry_sane e" and a: "\<forall>a. avoid = Some a \<longrightarrow> length a = 6"
  shows "sel_inv want avoid (xs @ [e]) (sel_add sel want (i_ssid e) (i_rssi e) (Some (i_bssid e)) (i_channel e))"
proof (cases "want = None \<or> i_ssid e = None \<or> want \<noteq> i_ssid e")
  case True
  then have "candidates want (xs @ [e]) = candidates want xs" by (auto simp: candidates_def)
  then show ?thesis using inv True by (auto simp: sel_inv_def sel_add_def)
next
  case False
  have t6: "take 6 (i_bssid e) = i_bssid e" using e by (simp add: entry_sane_def)
  let ?c = "\<lambda>b. fst (wifi_consider_ap b want (i_ssid e) (i_rssi e) (Some (i_bssid e)) (i_channel e))"
  have any: "best_of (candidates want (xs @ [e])) (?c (s_any sel))"
    unfolding candidates_append using inv by (intro consider_best e) (simp add: sel_inv_def)
  show ?thesis
  proof (cases "Some (i_bssid e) = avoid")
    case True
    then have "filter (\<lambda>i. Some (i_bssid i) \<noteq> avoid) (candidates want [e]) = []" by (auto simp: candidates_def)
    then show ?thesis using inv any False True t6 by (auto simp: sel_inv_def sel_add_def)
  next
    case ne: False
    then have "filter (\<lambda>i. Some (i_bssid i) \<noteq> avoid) (candidates want [e]) = candidates want [e]"
      by (auto simp: candidates_def)
    then have "best_of (filter (\<lambda>i. Some (i_bssid i) \<noteq> avoid) (candidates want (xs @ [e]))) (?c (s_other sel))"
      using inv consider_best [OF _ e, of _ _ want] by (simp add: sel_inv_def)
    then show ?thesis using inv any False ne t6 by (auto simp: sel_inv_def sel_add_def Let_def split: option.splits)
  qed
qed

lemma sel_run_inv:
  assumes "list_all entry_sane xs" "\<forall>a. avoid = Some a \<longrightarrow> length a = 6"
  shows "sel_inv want avoid xs (foldl (\<lambda>sel i. sel_add sel want (i_ssid i) (i_rssi i) (Some (i_bssid i)) (i_channel i))
    (set_avoid WifiApSelector_init avoid) xs)"
  using assms(1)
proof (induction xs rule: rev_induct)
  case Nil
  show ?case using assms(2)
    by (auto simp: sel_inv_def candidates_def best_of_Nil set_avoid_def WifiApSelector_init_def split: option.splits)
next
  case (snoc e xs)
  then show ?case using sel_add_inv [OF _ _ assms(2)] by simp
qed

text \<open>
  The access point the board connects to is the strongest one of the wanted
  network, leaving out the one that just failed unless it is the only one; nothing is picked
  exactly when no access point of the network was heard on a permitted channel.\<close>

lemma wifi_pick_strongest_correct:
  assumes "list_all entry_sane xs" and "\<forall>a. avoid = Some a \<longrightarrow> length a = 6"
  shows "case wifi_pick_strongest xs want avoid of
      None \<Rightarrow> pool want avoid xs = []
    | Some k \<Rightarrow> k < length xs \<and> (\<exists>e \<in> set (pool want avoid xs). i_bssid (xs ! k) = i_bssid e \<and>
        i_rssi (xs ! k) = i_rssi e \<and> i_channel (xs ! k) = i_channel e \<and> (\<forall>e' \<in> set (pool want avoid xs). i_rssi e' \<le> i_rssi e))"
proof -
  define sel where "sel = foldl (\<lambda>sel i. sel_add sel want (i_ssid i) (i_rssi i) (Some (i_bssid i)) (i_channel i))
    (set_avoid WifiApSelector_init avoid) xs"
  have inv: "sel_inv want avoid xs sel" unfolding sel_def by (rule sel_run_inv [OF assms])
  then have b: "best_of (pool want avoid xs) (sel_pick sel)"
    by (auto simp: pool_def sel_pick_def sel_inv_def best_of_def Let_def split: if_splits)
  have sub: "set (pool want avoid xs) \<subseteq> set xs" by (auto simp: pool_def candidates_def Let_def split: if_splits)
  define P where "P i \<longleftrightarrow> i_bssid i = ap_bssid (sel_pick sel) \<and> i_rssi i = ap_rssi (sel_pick sel) \<and>
    i_channel i = ap_channel (sel_pick sel)" for i :: WifiApInfo
  have w: "wifi_pick_strongest xs want avoid = (if \<not> ap_valid (sel_pick sel) then None else find_idx P xs)"
    unfolding wifi_pick_strongest_def Let_def sel_def [symmetric] P_def [abs_def] ..
  show ?thesis
  proof (cases "pool want avoid xs = []")
    case True
    with b show ?thesis by (simp add: w best_of_def)
  next
    case False
    with b obtain e where e: "e \<in> set (pool want avoid xs)" "P e" "ap_valid (sel_pick sel)"
      "\<forall>e' \<in> set (pool want avoid xs). i_rssi e' \<le> i_rssi e" by (auto simp: best_of_def P_def)
    with sub have "find_idx P xs \<noteq> None" by (auto simp: find_idx_None)
    then obtain k where k: "find_idx P xs = Some k" by auto
    then have "k < length xs" "P (xs ! k)" by (auto dest: find_idx_SomeD)
    with e k show ?thesis by (simp add: w P_def) (rule bexI [OF _ e(1)], simp)
  qed
qed

definition sample_aps :: "WifiApInfo list" where
  "sample_aps = [\<lparr>i_ssid = Some ''home'', i_rssi = -70, i_bssid = [1, 2, 3, 4, 5, 6], i_channel = 1\<rparr>,
     \<lparr>i_ssid = Some ''home'', i_rssi = -50, i_bssid = [1, 2, 3, 4, 5, 7], i_channel = 6\<rparr>]"

end
