(* ===== verification/Improv_Serial.thy ===== *)
theory Improv_Serial
  imports Core_Dispatch Improv Lora_Tx Wifi_Config
begin

text \<open>
  WiFi setup and the start of network mode over USB: \<open>src/src/core/improv_serial.cpp\<close>, with the
  status of network mode (\<open>net_status_json\<close> of \<open>src/src/core/net_serial.cpp\<close>) and the airtime
  of a frame (\<open>lora_frame_airtime_ms\<close> of \<open>src/src/lora/lora_support.cpp\<close>).  Packets are those of
  \<open>Improv\<close>; the connect and scan tasks are steps of their own, run when the task is scheduled.
\<close>

section \<open>Addresses and airtimes\<close>

definition ip_of :: "u16 \<Rightarrow> string" where
  "ip_of node_id = dec_nat (unat NET_PREFIX_A) @ ''.'' @ dec_nat (unat NET_PREFIX_B) @ ''.'' @
     dec_nat (unat (drop_bit 8 node_id)) @ ''.'' @ dec_nat (unat (node_id AND 0xFF))"

definition lora_frame_airtime_ms :: "LoraConfig \<Rightarrow> nat \<Rightarrow> u32" where
  "lora_frame_airtime_ms c payload_len =
     airtime_ms (SpreadingFactor c) (SignalBandwidth c) (CodingRate4 c) (HEADER_LEN + payload_len)"

text \<open>The object sent to the browser, at the given time.\<close>

definition net_status_json :: "NetState \<Rightarrow> u16 \<Rightarrow> u32 \<Rightarrow> jdoc" where
  "net_status_json s node_id now =
     JObject
       [(''active'', JBoolean (s_active s)), (''node'', JNum (uint node_id)), (''ip'', JText (ip_of node_id)),
        (''tx'', JNum (uint (s_tx s))), (''rx'', JNum (uint (s_rx s))), (''drop'', JNum (uint (s_drop s))),
        (''peers'', JArray
           (map (\<lambda>p. JObject [(''ip'', JText (ip_of (node p))), (''rssi'', JNum (sint (rssi p))),
                               (''age_s'', JNum (uint ((now - seen p) div 1000)))])
                (filter (\<lambda>p. seen p \<noteq> 0) (s_peers s))))]"

section \<open>State\<close>

definition IMPROV_CONNECT_TIMEOUT_MS :: u32 where "IMPROV_CONNECT_TIMEOUT_MS = 20000"
definition IMPROV_SCAN_MAX :: nat where "IMPROV_SCAN_MAX = 20"

record ImprovState =
  s_parser :: Parser
  s_busy :: bool

definition ImprovState_init :: ImprovState where
  "ImprovState_init = \<lparr>s_parser = Parser_init, s_busy = False\<rparr>"

datatype imp_event =
    ImpWrite bytes
  | StartProvision bytes bytes
  | StartScan
  | NetChange net_event

section \<open>Sending\<close>

definition imp_send :: "bool \<Rightarrow> bytes option \<Rightarrow> imp_event list" where
  "imp_send bridge buf = (case buf of None \<Rightarrow> [] | Some b \<Rightarrow> if bridge then [] else [ImpWrite b])"

definition send_state :: "bool \<Rightarrow> u8 \<Rightarrow> imp_event list" where
  "send_state bridge state = imp_send bridge (build_state state 16)"

definition send_error :: "bool \<Rightarrow> u8 \<Rightarrow> imp_event list" where
  "send_error bridge err = imp_send bridge (build_error err 16)"

definition send_result :: "bool \<Rightarrow> u8 \<Rightarrow> string list \<Rightarrow> imp_event list" where
  "send_result bridge cmd strs = imp_send bridge (build_rpc_result cmd (map (\<lambda>s. Some (str_bytes s)) strs) MAX_PACKET)"

definition send_current_state :: "bool \<Rightarrow> string \<Rightarrow> imp_event list" where
  "send_current_state bridge url =
     (if length url = 0 then send_state bridge STATE_READY
      else send_state bridge STATE_PROVISIONED @ send_result bridge CMD_GET_CURRENT_STATE [url])"

section \<open>Tasks\<close>

text \<open>\<open>outcome\<close> is what \<open>wifi_improv_provision\<close> returned: the URL, or \<open>None\<close> for false.\<close>

definition provision_task :: "ImprovState \<Rightarrow> bool \<Rightarrow> string option \<Rightarrow> ImprovState \<times> imp_event list" where
  "provision_task i bridge outcome =
     (i\<lparr>s_busy := False\<rparr>,
      case outcome of
        Some url \<Rightarrow> send_state bridge STATE_PROVISIONED @ send_result bridge CMD_WIFI_SETTINGS [url]
      | None \<Rightarrow> send_error bridge ERROR_UNABLE_TO_CONNECT @ send_state bridge STATE_READY)"

text \<open>\<open>nets\<close> is what the scan returned, \<open>None\<close> when there was no memory for it.\<close>

definition scan_task :: "ImprovState \<Rightarrow> bool \<Rightarrow> WifiNet list option \<Rightarrow> ImprovState \<times> imp_event list" where
  "scan_task i bridge nets =
     (i\<lparr>s_busy := False\<rparr>,
      concat (map (\<lambda>n. send_result bridge CMD_GET_WIFI_NETWORKS
                        [n_ssid n, dec_int (n_rssi n), if n_secure n then ''YES'' else ''NO''])
                  (take IMPROV_SCAN_MAX (case nets of None \<Rightarrow> [] | Some ns \<Rightarrow> ns)))
      @ send_result bridge CMD_GET_WIFI_NETWORKS [])"

definition start_task :: "ImprovState \<Rightarrow> bool \<Rightarrow> ImprovState \<times> bool" where
  "start_task i created = (if created then (i\<lparr>s_busy := True\<rparr>, True) else (i\<lparr>s_busy := False\<rparr>, False))"

section \<open>Commands\<close>

record imp_env =
  sta_url :: string
  host_name :: string
  build_date :: string
  imp_mem_ok :: bool
  imp_task_ok :: bool
  imp_node :: u16
  imp_millis :: u32
  imp_config :: LoraConfig

definition net_start_answer :: "imp_env \<Rightarrow> string list" where
  "net_start_answer e =
     [ip_of (imp_node e), hex_byte (hi8 (imp_node e)) @ hex_byte (lo8 (imp_node e)), c_str VOYAGER_NET_PROTO,
      dec_nat (unat (lora_frame_airtime_ms (imp_config e) MAX_PAYLOAD)),
      dec_nat (unat (lora_frame_airtime_ms (imp_config e) (NET_HDR + 20)))]"

definition device_info :: "imp_env \<Rightarrow> string list" where
  "device_info e =
     [''Project Voyager'', build_date e, ''ESP32'', if length (host_name e) \<noteq> 0 then host_name e else ''Project Voyager'']"

definition rpc_wifi_settings :: "imp_env \<Rightarrow> ImprovState \<Rightarrow> SysState \<Rightarrow> bytes \<Rightarrow> nat \<Rightarrow> ImprovState \<times> SysState \<times> imp_event list" where
  "rpc_wifi_settings e i s payload plen =
     (let br = lora_serial s in
      if s_busy i then (i, s, send_error br ERROR_UNKNOWN)
      else
        (case (if imp_mem_ok e then parse_wifi_settings payload plen else None) of
           None \<Rightarrow> (i, s, send_error br ERROR_INVALID_RPC)
         | Some (ssid, pass) \<Rightarrow>
             let evs = send_error br ERROR_NONE @ send_state br STATE_PROVISIONING;
                 (i, ok) = start_task i (imp_task_ok e) in
             if \<not> ok then (i, s, evs @ send_error br ERROR_UNKNOWN @ send_state br STATE_READY)
             else (i, s, evs @ [StartProvision ssid pass])))"

definition rpc_net_start :: "imp_env \<Rightarrow> ImprovState \<Rightarrow> SysState \<Rightarrow> ImprovState \<times> SysState \<times> imp_event list" where
  "rpc_net_start e i s =
     (let br = lora_serial s in
      if br \<or> s_busy i then (i, s, send_error br ERROR_UNKNOWN)
      else
        let evs = send_result br CMD_VOYAGER_NET_START (net_start_answer e);
            (net, nevs, ok) = net_enter (sys_net s) br (imp_millis e) (imp_node e) in
        (i, s\<lparr>sys_net := net\<rparr>, evs @ map NetChange nevs @ (if \<not> ok then send_error br ERROR_UNKNOWN else [])))"

definition handle_rpc :: "imp_env \<Rightarrow> ImprovState \<Rightarrow> SysState \<Rightarrow> Packet \<Rightarrow> ImprovState \<times> SysState \<times> imp_event list" where
  "handle_rpc e i s p =
     (let br = lora_serial s in
      case rpc_command p of
        None \<Rightarrow> (i, s, send_error br ERROR_INVALID_RPC)
      | Some (cmd, payload, plen) \<Rightarrow>
          if cmd = CMD_GET_CURRENT_STATE then (i, s, send_current_state br (sta_url e))
          else if cmd = CMD_GET_DEVICE_INFO then (i, s, send_result br CMD_GET_DEVICE_INFO (device_info e))
          else if cmd = CMD_WIFI_SETTINGS then rpc_wifi_settings e i s payload plen
          else if cmd = CMD_VOYAGER_NET_START then rpc_net_start e i s
          else if cmd = CMD_GET_WIFI_NETWORKS then
            (if s_busy i then (i, s, send_result br CMD_GET_WIFI_NETWORKS [])
             else
               let (i, ok) = start_task i (imp_task_ok e) in
               if \<not> ok then (i, s, send_result br CMD_GET_WIFI_NETWORKS []) else (i, s, [StartScan]))
          else (i, s, send_error br ERROR_UNKNOWN_RPC))"

definition improv_feed :: "imp_env \<Rightarrow> ImprovState \<Rightarrow> SysState \<Rightarrow> u8 \<Rightarrow> ImprovState \<times> SysState \<times> imp_event list" where
  "improv_feed e i s b =
     (let (q, r) = feed (s_parser i) b; i = i\<lparr>s_parser := q\<rparr> in
      case r of
        Bad \<Rightarrow> (i, s, send_error (lora_serial s) ERROR_INVALID_RPC)
      | Got p \<Rightarrow> if pk_type p = TYPE_RPC then handle_rpc e i s p else (i, s, [])
      | More \<Rightarrow> (i, s, []))"

definition improv_reset :: "ImprovState \<Rightarrow> ImprovState" where
  "improv_reset i = i\<lparr>s_parser := parser_reset (s_parser i)\<rparr>"

section \<open>Every command is answered\<close>

lemma imp_send_Some: "imp_send False (Some b) = [ImpWrite b]"
  by (simp add: imp_send_def)

text \<open>A write is an answer to the computer when it is a whole packet.\<close>

definition is_packet :: "imp_event \<Rightarrow> bool" where
  "is_packet ev = (case ev of ImpWrite b \<Rightarrow> \<exists>t d. length d \<le> 255 \<and> b = improv_packet t d | _ \<Rightarrow> False)"

lemma state_packets [simp]:
  "send_state False x = [ImpWrite (improv_packet TYPE_CURRENT_STATE [x])]"
  "send_error False x = [ImpWrite (improv_packet TYPE_ERROR_STATE [x])]"
  "send_state True x = []" "send_error True x = []"
  by (simp_all add: send_state_def send_error_def imp_send_def build_state_def build_error_def build_eq MAX_DATA_def
      split: option.split)

lemma is_packet_improv [simp]: "length d \<le> 255 \<Longrightarrow> is_packet (ImpWrite (improv_packet t d))"
  by (auto simp: is_packet_def)

lemma length_rpc_str: "length (rpc_str (Some (str_bytes s))) \<le> 1 + length s"
  by (simp add: rpc_str_def Let_def)

lemma length_rpc_strs: "length (concat (map rpc_str (map (\<lambda>s. Some (str_bytes s)) strs))) \<le> sum_list (map (\<lambda>s. 1 + length s) strs)"
proof (induction strs)
  case (Cons s strs)
  then show ?case using length_rpc_str [of s] by simp
qed simp

lemma send_result_packet:
  assumes "sum_list (map (\<lambda>s. 1 + length s) strs) \<le> 253"
  shows "\<exists>d. length d \<le> 255 \<and> send_result False cmd strs = [ImpWrite (improv_packet TYPE_RPC_RESULT d)]"
proof -
  let ?b = "concat (map rpc_str (map (\<lambda>s. Some (str_bytes s)) strs))"
  have l: "length ?b \<le> 253" using assms length_rpc_strs [of strs] by linarith
  have "build_rpc_result cmd (map (\<lambda>s. Some (str_bytes s)) strs) MAX_PACKET =
      Some (improv_packet TYPE_RPC_RESULT (cmd # word_of_nat (length ?b) # ?b))"
    using l by (simp add: build_rpc_result_def rpc_result_loop_eq build_eq MAX_PACKET_def MAX_DATA_def)
  then show ?thesis using l by (intro exI [where x = "cmd # word_of_nat (length ?b) # ?b"])
      (simp add: send_result_def imp_send_def)
qed

lemma send_result_bridge [simp]: "send_result True cmd strs = []"
  by (simp add: send_result_def imp_send_def split: option.split)

lemma dec_byte_length: "length (dec_nat (unat (b :: u8))) \<le> 3"
proof -
  have "unat b < 10 ^ 3" by (rule less_trans [OF unat_u8_lt]) simp
  then show ?thesis by (rule dec_nat_length) simp
qed

lemma dec_u32_length: "length (dec_nat (unat (b :: u32))) \<le> 10"
proof -
  have "unat b < 10 ^ 10" by (rule less_trans [OF unat_u32_lt]) simp
  then show ?thesis by (rule dec_nat_length) simp
qed

lemma node_byte: "unat (drop_bit 8 (w :: u16)) < 256" "unat (w AND 0xFF) < 256"
proof -
  have "unat (drop_bit 8 w) = unat w div 256" unfolding drop_bit_eq_div by (simp add: unat_div)
  then show "unat (drop_bit 8 w) < 256" using unat_u16_lt [of w] by linarith
  have "w AND 0xFF = take_bit 8 w" by (simp add: take_bit_eq_mask mask_eq_exp_minus_1)
  then have "unat (w AND 0xFF) = take_bit 8 (unat w)" by (simp add: unsigned_take_bit_eq)
  then show "unat (w AND 0xFF) < 256" by (simp add: take_bit_eq_mod)
qed

lemma ip_of_length: "length (ip_of w) \<le> 15"
proof -
  have "length (dec_nat n) \<le> 3" if "n < 256" for n using that by (intro dec_nat_length) simp_all
  from this [OF node_byte(1) [of w]] this [OF node_byte(2) [of w]]
    dec_byte_length [of NET_PREFIX_A] dec_byte_length [of NET_PREFIX_B]
  show ?thesis by (simp add: ip_of_def)
qed

lemma net_start_answer_fits: "sum_list (map (\<lambda>s. 1 + length s) (net_start_answer e)) \<le> 253"
  using ip_of_length [of "imp_node e"] dec_u32_length [of "lora_frame_airtime_ms (imp_config e) MAX_PAYLOAD"]
    dec_u32_length [of "lora_frame_airtime_ms (imp_config e) (NET_HDR + 20)"]
  by (simp add: net_start_answer_def hex_byte_def c_str_def VOYAGER_NET_PROTO_def)

definition env_fits :: "imp_env \<Rightarrow> bool" where
  "env_fits e \<longleftrightarrow> length (host_name e) \<le> 33 \<and> length (sta_url e) \<le> 64 \<and> length (build_date e) \<le> 16"

lemma device_info_fits: "env_fits e \<Longrightarrow> sum_list (map (\<lambda>s. 1 + length s) (device_info e)) \<le> 253"
  by (auto simp: device_info_def env_fits_def)

definition answers :: "imp_event list \<Rightarrow> bool" where
  "answers evs \<longleftrightarrow> (\<exists>ev \<in> set evs. is_packet ev) \<and>
     (\<forall>ev \<in> set evs. case ev of ImpWrite b \<Rightarrow> is_packet ev | _ \<Rightarrow> True)"

definition starts_task :: "imp_event list \<Rightarrow> bool" where
  "starts_task evs \<longleftrightarrow> StartScan \<in> set evs \<or> (\<exists>a b. StartProvision a b \<in> set evs)"

lemma answers_simps [simp]:
  "length d \<le> 255 \<Longrightarrow> answers [ImpWrite (improv_packet t d)]"
  "length d \<le> 255 \<Longrightarrow> answers (ImpWrite (improv_packet t d) # evs) \<longleftrightarrow>
     (\<forall>ev \<in> set evs. case ev of ImpWrite b \<Rightarrow> is_packet ev | _ \<Rightarrow> True)"
  by (auto simp: answers_def)

text \<open>What a command does besides answering: \<open>s_busy\<close> is the flag of the one task there may be.\<close>

definition rpc_effects :: "ImprovState \<Rightarrow> SysState \<Rightarrow> ImprovState \<times> SysState \<times> imp_event list \<Rightarrow> bool" where
  "rpc_effects i s r = (case r of (i', s', evs) \<Rightarrow>
     (s_busy i' \<longleftrightarrow> s_busy i \<or> starts_task evs) \<and> (starts_task evs \<longrightarrow> \<not> s_busy i) \<and>
     lora_serial s' = lora_serial s \<and>
     (s_active (sys_net s') \<longleftrightarrow> s_active (sys_net s) \<or> (\<exists>n. NetChange (NetOn n) \<in> set evs)) \<and>
     (lora_serial s \<longrightarrow> s_active (sys_net s') = s_active (sys_net s)))"

lemma bridge_send [simp]: "x \<in> set (send_result br cmd strs) \<Longrightarrow> \<exists>b. x = ImpWrite b"
  by (cases br) (auto simp: send_result_def imp_send_def split: option.splits)

lemma send_no_task:
  "StartScan \<notin> set (send_state br x)" "StartScan \<notin> set (send_error br x)" "StartScan \<notin> set (send_result br c strs)"
  "StartProvision a b \<notin> set (send_state br x)" "StartProvision a b \<notin> set (send_error br x)"
  "StartProvision a b \<notin> set (send_result br c strs)"
  "NetChange n \<notin> set (send_state br x)" "NetChange n \<notin> set (send_error br x)" "NetChange n \<notin> set (send_result br c strs)"
  by (cases br; auto dest: bridge_send)+

lemmas effects_defs = rpc_effects_def starts_task_def start_task_def

lemma rpc_wifi_effects: "rpc_effects i s (rpc_wifi_settings e i s payload plen)"
  by (auto simp: rpc_wifi_settings_def effects_defs Let_def send_no_task split: option.split)

lemma rpc_net_effects: "rpc_effects i s (rpc_net_start e i s)"
  by (auto simp: rpc_net_start_def effects_defs Let_def send_no_task net_enter_def)

lemma handle_rpc_effects: "rpc_effects i s (handle_rpc e i s p)"
proof (cases "rpc_command p")
  case None
  then show ?thesis by (simp add: handle_rpc_def effects_defs send_no_task Let_def)
next
  case (Some c)
  obtain cmd payload plen where c: "c = (cmd, payload, plen)" by (cases c)
  have state: "rpc_effects i s (i, s, send_current_state br u)" "rpc_effects i s (i, s, send_result br x strs)"
    "rpc_effects i s (i, s, send_error br x)" for br u x strs
    by (auto simp: effects_defs send_current_state_def send_no_task)
  have scan: "\<not> s_busy i \<Longrightarrow> rpc_effects i s
      (let (i, ok) = start_task i b in if \<not> ok then (i, s, send_result br x []) else (i, s, [StartScan]))" for br x b
    by (auto simp: effects_defs send_no_task)
  have if_ok: "(b \<Longrightarrow> rpc_effects i s x) \<Longrightarrow> (\<not> b \<Longrightarrow> rpc_effects i s y) \<Longrightarrow> rpc_effects i s (if b then x else y)"
    for b x y by simp
  show ?thesis unfolding handle_rpc_def Let_def [of "lora_serial s"] Some c option.case prod.case
    by (intro if_ok state scan rpc_wifi_effects rpc_net_effects)
qed

lemma handle_rpc_answers:
  assumes "\<not> lora_serial s" "env_fits e" "handle_rpc e i s p = (i', s', evs)"
  shows "answers evs \<or> evs = [StartScan]"
proof (cases "rpc_command p")
  case None
  then show ?thesis using assms by (auto simp: handle_rpc_def Let_def)
next
  case (Some c)
  obtain cmd payload plen where c: "c = (cmd, payload, plen)" by (cases c)
  have url: "answers (send_current_state False (sta_url e))"
    using assms(2) send_result_packet [of "[sta_url e]" CMD_GET_CURRENT_STATE]
    by (auto simp: send_current_state_def env_fits_def)
  have dev: "answers (send_result False CMD_GET_DEVICE_INFO (device_info e))"
    using send_result_packet [OF device_info_fits [OF assms(2)], of CMD_GET_DEVICE_INFO] by auto
  have none: "answers (send_result False x [])" for x using send_result_packet [of "[]" x] by auto
  obtain d where d: "length d \<le> 255"
    "send_result False CMD_VOYAGER_NET_START (net_start_answer e) = [ImpWrite (improv_packet TYPE_RPC_RESULT d)]"
    using send_result_packet [OF net_start_answer_fits, of CMD_VOYAGER_NET_START e] by blast
  have wifi: "answers evs" if "rpc_wifi_settings e i s payload plen = (i', s', evs)"
    using that assms(1) by (auto simp: rpc_wifi_settings_def start_task_def Let_def split: if_splits option.splits)
  have net: "answers evs" if "rpc_net_start e i s = (i', s', evs)"
    using that assms(1) d by (auto simp: rpc_net_start_def Let_def split: if_splits prod.splits)
  show ?thesis using assms(1,3) url dev none wifi net
    by (auto simp: handle_rpc_def Some c start_task_def Let_def split: if_splits)
qed

text \<open>
  While the file-transfer bridge is off every command from the computer is
  answered with at least one whole packet, at once or by the scan task it starts; a connect or
  scan task is started only when none runs, and marks the handler busy; network mode is entered
  only by its own command.\<close>

lemma improv_command_answered:
  assumes "\<not> lora_serial s" and "env_fits e" and "handle_rpc e i s p = (i', s', evs)"
  shows "(answers evs \<or> evs = [StartScan]) \<and> (s_busy i' \<longleftrightarrow> s_busy i \<or> starts_task evs) \<and>
    (starts_task evs \<longrightarrow> \<not> s_busy i) \<and> lora_serial s' = lora_serial s \<and>
    (s_active (sys_net s') \<longleftrightarrow> s_active (sys_net s) \<or> (\<exists>n. NetChange (NetOn n) \<in> set evs))"
  using handle_rpc_answers [OF assms] handle_rpc_effects [of i s e p] by (simp add: assms(3) rpc_effects_def)

definition sample_imp_env :: imp_env where
  "sample_imp_env = \<lparr>sta_url = [], host_name = ''voyager'', build_date = ''Jan 01 2026'', imp_mem_ok = True, imp_task_ok = True,
     imp_node = 0x1234, imp_millis = 5, imp_config = default_config\<rparr>"

definition sample_sys :: SysState where
  "sample_sys = \<lparr>lora_serial = False, s_username = [], sys_net = NetState_init\<lparr>s_rx_q := Some []\<rparr>\<rparr>"

text \<open>Both tasks end with a whole packet and leave the handler free.\<close>

lemma tasks_end:
  "\<not> s_busy (fst (provision_task i False outcome))" "\<not> s_busy (fst (scan_task i False nets))"
  "snd (scan_task i False nets) \<noteq> [] \<and> is_packet (last (snd (scan_task i False nets)))"
proof -
  show "snd (scan_task i False nets) \<noteq> [] \<and> is_packet (last (snd (scan_task i False nets)))"
    using send_result_packet [of "[]" CMD_GET_WIFI_NETWORKS] by (auto simp: scan_task_def)
qed (simp_all add: provision_task_def scan_task_def)

end
