(* ===== verification/Serial_Port.thy ===== *)
theory Serial_Port
  imports Improv_Serial "HOL-Library.Sublist"
begin

text \<open>
  The USB port and who owns it: the LoRa-to-serial bridge (\<open>src/src/core/support_method.cpp\<close>, lines
  440-547) and, as one state machine, every handler that changes the bridge flag or network
  mode.  A turn of a task is one step; the clock and the bytes that arrive are parameters.
\<close>

section \<open>Bridge: serial to LoRa\<close>

definition SERIAL_FRAME_IDLE_MS :: u32 where "SERIAL_FRAME_IDLE_MS = 10"

text \<open>
  What the loop sees when it looks at the port: a byte, or none, and the clock.  The loop ends
  with the frame and the polls it did not need; \<open>None\<close> when the given polls do not end it.
\<close>

type_synonym poll = "u8 option \<times> u32"

fun bridge_loop :: "bytes \<Rightarrow> u32 \<Rightarrow> poll list \<Rightarrow> (bytes \<times> poll list) option" where
  "bridge_loop msg since [] = (if length msg < LORA_MAX_PAYLOAD then None else Some (msg, []))"
| "bridge_loop msg since ((c, now) # ps) =
     (if \<not> length msg < LORA_MAX_PAYLOAD then Some (msg, (c, now) # ps)
      else
        (case c of
           Some b \<Rightarrow>
             let msg = msg @ [b] in
             if b = 0x0D then Some (msg, ps) else bridge_loop msg now ps
         | None \<Rightarrow>
             if now - since \<ge> SERIAL_FRAME_IDLE_MS then Some (msg, ps) else bridge_loop msg since ps))"

text \<open>The frames \<open>serial_to_lora\<close> queues while the bridge is on, and the bytes of a frame it is still
  collecting: a frame begins when a byte is waiting, at the given clock.\<close>

lemma bridge_loop_shorter: "bridge_loop msg t ps = Some (f, rest) \<Longrightarrow> length rest \<le> length ps"
  by (induction msg t ps rule: bridge_loop.induct) (auto simp: Let_def intro: le_SucI split: if_splits option.splits)

lemma bridge_loop_progress:
  "bridge_loop [] t ((Some b, now) # ps) = Some (f, rest) \<Longrightarrow> length rest \<le> length ps"
  by (auto simp: Let_def LORA_MAX_PAYLOAD_def dest: bridge_loop_shorter split: if_splits)

text \<open>\<open>accept i\<close>: the queue to the radio takes frame \<open>i\<close> within its 100 ms; a frame it does not take is
  deleted.  Every frame comes with that outcome.  (When there is no memory for a frame the loop
  starts over without reading; the bytes are then read later.)\<close>

function bridge_frames :: "(nat \<Rightarrow> bool) \<Rightarrow> nat \<Rightarrow> poll list \<Rightarrow> (bytes \<times> bool) list \<times> bytes" where
  "bridge_frames accept i [] = ([], [])"
| "bridge_frames accept i ((None, now) # ps) = bridge_frames accept i ps"
| "bridge_frames accept i ((Some b, now) # ps) =
     (case bridge_loop [] now ((Some b, now) # ps) of
        None \<Rightarrow> ([], b # map (the \<circ> fst) (filter (\<lambda>p. fst p \<noteq> None) ps))
      | Some (f, rest) \<Rightarrow>
          let queued = accept i; (fs, left) = bridge_frames accept (i + 1) rest in ((f, queued) # fs, left))"
  by pat_completeness auto

termination bridge_frames
  by (relation "measure (\<lambda>(accept, i, ps). length ps)")
    (auto dest: bridge_loop_progress simp del: bridge_loop.simps simp: less_Suc_eq_le)

text \<open>What reaches the radio queue.\<close>

definition queued_frames :: "(bytes \<times> bool) list \<Rightarrow> bytes list" where
  "queued_frames fs = map fst (filter snd fs)"

text \<open>One message of each of the two other tasks of the bridge.\<close>

definition send_to_serial_step :: "bool \<Rightarrow> bytes \<Rightarrow> bytes list" where
  "send_to_serial_step bridge msg = (if bridge then [msg] else [])"

definition send_to_lora_step :: "Radio \<Rightarrow> (nat \<Rightarrow> lbt_env) \<Rightarrow> bool \<Rightarrow> bool \<Rightarrow> bytes \<Rightarrow> Radio" where
  "send_to_lora_step r env begin_ok bridge msg = (if bridge then fst (LoRa_send r env begin_ok msg LORA_SERIAL 0) else r)"

section \<open>Frames\<close>

definition arrived :: "poll list \<Rightarrow> bytes" where
  "arrived ps = map (the \<circ> fst) (filter (\<lambda>p. fst p \<noteq> None) ps)"

lemma arrived_simps [simp]:
  "arrived [] = []" "arrived ((None, t) # ps) = arrived ps" "arrived ((Some b, t) # ps) = b # arrived ps"
  by (simp_all add: arrived_def)

lemma bridge_loop_arrived: "bridge_loop msg t ps = Some (f, rest) \<Longrightarrow> f @ arrived rest = msg @ arrived ps"
  by (induction msg t ps rule: bridge_loop.induct) (auto simp: Let_def split: if_splits option.splits)

text \<open>The polls \<open>q\<close> end a frame: a carriage return, the 251st byte, or 10 ms without a byte.\<close>

definition last_byte_at :: "poll list \<Rightarrow> u32" where
  "last_byte_at q = snd (last (filter (\<lambda>p. fst p \<noteq> None) q))"

definition frame_end :: "poll list \<Rightarrow> bool" where
  "frame_end q \<longleftrightarrow> arrived q \<noteq> [] \<and>
     (case last q of
        (Some b, t) \<Rightarrow> b = 13 \<or> length (arrived q) = 251
      | (None, now) \<Rightarrow> 10 \<le> now - last_byte_at q)"

text \<open>The polls \<open>q\<close> are one frame: they end it, and no shorter part of them does.\<close>

definition frame_polls :: "poll list \<Rightarrow> bool" where
  "frame_polls q \<longleftrightarrow> frame_end q \<and> (\<forall>q'. strict_prefix q' q \<longrightarrow> \<not> frame_end q')"

definition unfinished :: "poll list \<Rightarrow> bool" where
  "unfinished q \<longleftrightarrow> (\<forall>q'. prefix q' q \<longrightarrow> \<not> frame_end q')"

lemma arrived_append [simp]: "arrived (p @ q) = arrived p @ arrived q"
  by (simp add: arrived_def)

lemma arrived_None: "arrived q = [] \<longleftrightarrow> filter (\<lambda>p. fst p \<noteq> None) q = []"
  by (simp add: arrived_def)

lemma last_byte_at_idle: "last_byte_at ((None, t) # q) = last_byte_at q" "last_byte_at (q @ [(None, t)]) = last_byte_at q"
  by (simp_all add: last_byte_at_def)

lemma frame_end_idle: "frame_end ((None, t) # q) = frame_end q"
  by (cases q) (auto simp: frame_end_def last_byte_at_idle split: option.split prod.split)

lemma frame_end_byte: "frame_end (q @ [(Some b, t)]) \<longleftrightarrow> b = 13 \<or> length (arrived q) = 250"
  by (auto simp: frame_end_def)

lemma frame_end_pause:
  "frame_end (q @ [(None, t)]) \<longleftrightarrow> arrived q \<noteq> [] \<and> 10 \<le> t - last_byte_at q"
  by (simp add: frame_end_def last_byte_at_def)

lemma unfinished_snoc: "unfinished (q @ [x]) \<longleftrightarrow> unfinished q \<and> \<not> frame_end (q @ [x])"
  by (auto simp: unfinished_def prefix_snoc)

lemma frame_polls_snoc: "unfinished q \<Longrightarrow> frame_end (q @ [x]) \<Longrightarrow> frame_polls (q @ [x])"
  by (auto simp: frame_polls_def unfinished_def strict_prefix_def prefix_snoc)

lemma not_frame_end_Nil: "\<not> frame_end []"
  by (simp add: frame_end_def)

lemma unfinished_idle: "unfinished ((None, t) # q) \<longleftrightarrow> unfinished q"
  unfolding unfinished_def prefix_Cons by (auto simp: frame_end_idle not_frame_end_Nil)

lemma frame_polls_idle: "frame_polls ((None, t) # q) \<longleftrightarrow> frame_polls q"
  unfolding frame_polls_def frame_end_idle strict_prefix_def prefix_Cons
  by (auto simp: frame_end_idle not_frame_end_Nil)

text \<open>The loop with the polls \<open>q\<close> behind it: all bytes of \<open>msg\<close>, no frame ended yet.\<close>

definition cut_of :: "poll list \<Rightarrow> poll list \<Rightarrow> (bytes \<times> poll list) option \<Rightarrow> bool" where
  "cut_of q ps r \<longleftrightarrow>
     (case r of
        None \<Rightarrow> unfinished (q @ ps)
      | Some (f, rest) \<Rightarrow> (\<exists>p. ps = p @ rest \<and> frame_polls (q @ p) \<and> f = arrived (q @ p)))"

lemma cut_of_Cons: "cut_of (q @ [x]) ps r \<Longrightarrow> cut_of q (x # ps) r"
  by (auto simp: cut_of_def split: option.splits)

lemma cut_of_end: "frame_polls (q @ [x]) \<Longrightarrow> cut_of q (x # ps) (Some (arrived (q @ [x]), ps))"
  unfolding cut_of_def by (auto intro!: exI [where x = "[x]"])

lemma bridge_loop_cut:
  "unfinished q \<Longrightarrow> arrived q = msg \<Longrightarrow> msg \<noteq> [] \<Longrightarrow> length msg < 251 \<Longrightarrow> last_byte_at q = since \<Longrightarrow>
   cut_of q ps (bridge_loop msg since ps)"
proof (induction ps arbitrary: q msg since)
  case Nil
  then show ?case by (simp add: LORA_MAX_PAYLOAD_def cut_of_def)
next
  case (Cons x ps)
  obtain c now where x: "x = (c, now)" by (cases x)
  show ?case
  proof (cases c)
    case None
    show ?thesis
    proof (cases "10 \<le> now - since")
      case True
      then have "frame_polls (q @ [(None, now)])"
        using Cons.prems by (intro frame_polls_snoc) (simp_all add: frame_end_pause)
      from cut_of_end [OF this, of ps] True Cons.prems(2,4) show ?thesis
        by (simp add: x None LORA_MAX_PAYLOAD_def SERIAL_FRAME_IDLE_MS_def)
    next
      case False
      have "unfinished (q @ [(None, now)])" "arrived (q @ [(None, now)]) = msg"
        "last_byte_at (q @ [(None, now)]) = since"
        using Cons.prems False by (simp_all add: unfinished_snoc frame_end_pause last_byte_at_idle)
      from Cons.IH [OF this(1,2) Cons.prems(3,4) this(3)] False Cons.prems(4) show ?thesis
        by (simp add: x None LORA_MAX_PAYLOAD_def SERIAL_FRAME_IDLE_MS_def cut_of_Cons)
    qed
  next
    case (Some b)
    show ?thesis
    proof (cases "b = 13 \<or> length msg = 250")
      case True
      then have e: "frame_polls (q @ [(Some b, now)])"
        using Cons.prems by (intro frame_polls_snoc) (simp_all add: frame_end_byte)
      have "bridge_loop msg since (x # ps) = Some (msg @ [b], ps)"
        using True Cons.prems(4) by (cases ps) (auto simp: x Some LORA_MAX_PAYLOAD_def Let_def)
      with cut_of_end [OF e, of ps] Cons.prems(2) show ?thesis by (simp add: x Some)
    next
      case False
      have "unfinished (q @ [(Some b, now)])" "arrived (q @ [(Some b, now)]) = msg @ [b]"
        "last_byte_at (q @ [(Some b, now)]) = now"
        using Cons.prems(1,2) False by (simp_all add: unfinished_snoc frame_end_byte last_byte_at_def)
      moreover have "length (msg @ [b]) < 251" using Cons.prems(4) False by simp
      ultimately have "cut_of q (x # ps) (bridge_loop (msg @ [b]) now ps)"
        unfolding x Some by (intro cut_of_Cons Cons.IH) simp_all
      with False Cons.prems(4) show ?thesis by (simp add: x Some LORA_MAX_PAYLOAD_def Let_def)
    qed
  qed
qed

lemma unfinished_Nil: "unfinished []"
  by (simp add: unfinished_def frame_end_def)

lemma bridge_loop_start: "cut_of [] ((Some b, now) # ps) (bridge_loop [] t ((Some b, now) # ps))"
proof (cases "b = 13")
  case True
  have "frame_polls ([] @ [(Some b, now)])"
    by (rule frame_polls_snoc [OF unfinished_Nil]) (use True in \<open>simp add: frame_end_def\<close>)
  from cut_of_end [OF this, of ps] True show ?thesis by (simp add: LORA_MAX_PAYLOAD_def)
next
  case False
  have q: "unfinished ([] @ [(Some b, now)])" "last_byte_at ([] @ [(Some b, now)]) = now"
    using unfinished_snoc [of "[]" "(Some b, now)"] False unfinished_Nil by (simp_all add: frame_end_def last_byte_at_def)
  have "cut_of [] ((Some b, now) # ps) (bridge_loop [b] now ps)"
    by (intro cut_of_Cons bridge_loop_cut q) simp_all
  with False show ?thesis by (simp add: LORA_MAX_PAYLOAD_def)
qed

lemma bridge_frames_cut:
  "bridge_frames accept i ps = (fs, left) \<Longrightarrow>
   \<exists>qs tail. ps = concat qs @ tail \<and> (\<forall>q \<in> set qs. frame_polls q) \<and> unfinished tail \<and>
     map fst fs = map arrived qs \<and> left = arrived tail \<and> map snd fs = map accept [i ..< i + length fs]"
proof (induction accept i ps arbitrary: fs left rule: bridge_frames.induct)
  case (1 accept i)
  then show ?case by (simp add: unfinished_Nil)
next
  case (2 accept i now ps)
  then obtain qs tail where c: "ps = concat qs @ tail" "\<forall>q \<in> set qs. frame_polls q" "unfinished tail"
    "map fst fs = map arrived qs" "left = arrived tail" "map snd fs = map accept [i ..< i + length fs]" by force
  show ?case
  proof (cases qs)
    case Nil
    with c show ?thesis by (intro exI [where x = "[]"] exI [where x = "(None, now) # tail"]) (simp add: unfinished_idle)
  next
    case (Cons q qs')
    with c show ?thesis
      by (intro exI [where x = "((None, now) # q) # qs'"] exI [where x = tail]) (simp add: frame_polls_idle)
  qed
next
  case (3 accept i b now ps)
  show ?case
  proof (cases "bridge_loop [] now ((Some b, now) # ps)")
    case None
    with bridge_loop_start [of b now ps now] have "unfinished ((Some b, now) # ps)"
      by (simp add: cut_of_def del: bridge_loop.simps)
    with None "3.prems" show ?thesis
      by (intro exI [where x = "[]"] exI [where x = "(Some b, now) # ps"])
        (auto simp: arrived_def simp del: bridge_loop.simps)
  next
    case (Some fr)
    obtain f rest where fr: "fr = (f, rest)" by (cases fr)
    obtain fs' left' where r: "bridge_frames accept (i + 1) rest = (fs', left')" by (metis surj_pair)
    have l: "bridge_loop [] now ((Some b, now) # ps) = Some (f, rest)" using Some by (simp add: fr)
    from "3.IH" [OF l refl refl r] obtain qs tail where c: "rest = concat qs @ tail" "\<forall>q \<in> set qs. frame_polls q"
      "unfinished tail" "map fst fs' = map arrived qs" "left' = arrived tail"
      "map snd fs' = map accept [i + 1 ..< i + 1 + length fs']" by blast
    from bridge_loop_start [of b now ps now] l obtain p where p: "(Some b, now) # ps = p @ rest"
      "frame_polls p" "f = arrived p" by (auto simp: cut_of_def simp del: bridge_loop.simps)
    have fs: "fs = (f, accept i) # fs'" "left = left'" using "3.prems" l r by (simp_all add: Let_def del: bridge_loop.simps)
    have "[i ..< i + length fs] = i # [i + 1 ..< i + 1 + length fs']" by (subst upt_conv_Cons) (simp_all add: fs)
    with c p fs show ?thesis by (intro exI [where x = "p # qs"] exI [where x = tail]) simp
  qed
qed

lemma frame_polls_bytes:
  assumes "frame_polls q"
  shows "arrived q \<noteq> [] \<and> length (arrived q) \<le> 251 \<and> 13 \<notin> set (butlast (arrived q))"
proof -
  have part: "unfinished q' \<Longrightarrow> length (arrived q') \<le> 250 \<and> 13 \<notin> set (arrived q')" for q'
  proof (induction q' rule: rev_induct)
    case (snoc x q')
    obtain c s where x: "x = (c, s)" by (cases x)
    from snoc show ?case by (cases c) (auto simp: x unfinished_snoc frame_end_byte)
  qed simp
  obtain x q' where q: "q = q' @ [x]"
    using assms by (cases q rule: rev_cases) (auto simp: frame_polls_def frame_end_def)
  have "unfinished q'" unfolding unfinished_def
  proof (intro allI impI)
    fix p assume "prefix p q'"
    then have "strict_prefix p q" by (auto simp: q strict_prefix_def dest: prefix_length_le)
    with assms show "\<not> frame_end p" by (simp add: frame_polls_def)
  qed
  from part [OF this] have q': "length (arrived q') \<le> 250" "13 \<notin> set (arrived q')" by auto
  obtain c s where x: "x = (c, s)" by (cases x)
  from assms have "arrived q \<noteq> []" by (simp add: frame_polls_def frame_end_def)
  with q' show ?thesis by (cases c) (auto simp: q x dest: in_set_butlastD)
qed

text \<open>
  C22 (bridge_lossless). However the bytes of a transfer arrive, the bridge cuts what it reads exactly where the
  protocol says: a frame ends with the first carriage return, with the 251st byte, or when 10 ms
  have passed since its last byte, and nowhere else. So every frame has 1 to 251 bytes with a
  carriage return at most as its last byte; the frames, whether the radio queue took them or
  not, and the bytes still being collected are together exactly the bytes that arrived, in
  order. Bytes are lost only as whole frames, and exactly those that the full queue refused.\<close>

theorem bridge_lossless:
  assumes "bridge_frames accept 0 ps = (fs, left)"
  shows "concat (map fst fs) @ left = arrived ps \<and>
    (\<exists>qs tail. ps = concat qs @ tail \<and> (\<forall>q \<in> set qs. frame_polls q) \<and> unfinished tail \<and> map fst fs = map arrived qs) \<and>
    (\<forall>f \<in> set (map fst fs). 1 \<le> length f \<and> length f \<le> 251 \<and> 13 \<notin> set (butlast f)) \<and>
    queued_frames fs = map (\<lambda>i. fst (fs ! i)) (filter accept [0 ..< length fs])"
proof -
  from bridge_frames_cut [OF assms] obtain qs tail where c: "ps = concat qs @ tail" "\<forall>q \<in> set qs. frame_polls q"
    "unfinished tail" "map fst fs = map arrived qs" "left = arrived tail" "map snd fs = map accept [0 ..< length fs]" by auto
  have "arrived (concat qs) = concat (map arrived qs)" by (induction qs) simp_all
  with c have bytes: "concat (map fst fs) @ left = arrived ps" by simp
  have f: "1 \<le> length f \<and> length f \<le> 251 \<and> 13 \<notin> set (butlast f)" if "f \<in> set (map fst fs)" for f
  proof -
    from that c(4) obtain q where "q \<in> set qs" "f = arrived q" by (metis imageE list.set_map)
    with c(2) frame_polls_bytes [of q] show ?thesis by (simp add: Suc_le_eq)
  qed
  have acc: "snd (fs ! i) = accept i" if "i < length fs" for i
    using arg_cong [OF c(6), of "\<lambda>l. l ! i"] that by simp
  have "queued_frames fs = map fst (map (\<lambda>i. fs ! i) (filter (\<lambda>i. snd (fs ! i)) [0 ..< length fs]))"
    unfolding queued_frames_def filter_map [symmetric, unfolded comp_def] by (simp add: map_nth)
  also have "filter (\<lambda>i. snd (fs ! i)) [0 ..< length fs] = filter accept [0 ..< length fs]"
    by (rule filter_cong) (use acc in auto)
  finally have q: "queued_frames fs = map (\<lambda>i. fst (fs ! i)) (filter accept [0 ..< length fs])" by simp
  show ?thesis using bytes f q c by blast
qed

theorem bridge_lossless_witness:
  "queued_frames (fst (bridge_frames (\<lambda>i. i = 0) 0 [(Some 65, 0), (None, 5), (Some 13, 6), (Some 66, 7), (None, 17), (Some 67, 18)]))
     = [[65, 13]]"
proof -
  have "bridge_frames (\<lambda>i. i = 0) 0 [(Some 65, 0), (None, 5), (Some 13, 6), (Some 66, 7), (None, 17), (Some 67, 18)] =
      ([([65, 13], True), ([66], False)], [67])"
    by (simp add: LORA_MAX_PAYLOAD_def SERIAL_FRAME_IDLE_MS_def)
  from bridge_lossless [OF this] this show ?thesis by (simp add: upt_rec)
qed

text \<open>A transfer packet that ends in a carriage return, with none inside and no pause of 10 ms, is
  exactly one frame.\<close>

fun no_pause :: "u32 \<Rightarrow> poll list \<Rightarrow> bool" where
  "no_pause since [] = True"
| "no_pause since ((Some b, now) # ps) = no_pause now ps"
| "no_pause since ((None, now) # ps) = (now - since < SERIAL_FRAME_IDLE_MS \<and> no_pause since ps)"

lemma kermit_packet_one_frame:
  assumes "no_pause t ps" "0x0D \<notin> set (arrived ps)" "length msg + length (arrived ps) < 251"
  shows "bridge_loop msg t (ps @ [(Some 0x0D, now)]) = Some (msg @ arrived ps @ [0x0D], [])"
  using assms
proof (induction t ps arbitrary: msg rule: no_pause.induct)
  case (1 t)
  then show ?case by (simp add: LORA_MAX_PAYLOAD_def)
next
  case (2 t b nw ps)
  then show ?case using "2.IH" [of "msg @ [b]"] by (simp add: LORA_MAX_PAYLOAD_def)
next
  case (3 t nw ps)
  then show ?case by (simp add: LORA_MAX_PAYLOAD_def not_le)
qed

section \<open>The owner of the port\<close>

text \<open>
  The task \<open>serial_to_lora\<close> reads the bridge flag once per turn and network mode once per batch
  (lines 490 and 525); every byte of the batch then goes to the consumer chosen at its start, also
  when the flags change meanwhile.  \<open>p_pc\<close> is where the task is.  The other tasks run between
  any two of its steps.  The two handlers that turn an owner on test the other flag first and
  assign later, without a lock: \<open>p_going_on\<close> and \<open>p_entering\<close> say that such a test has passed and
  the assignment is still to come.
\<close>

datatype serial_pc = Top | PickMode | NetDrain | ImpDrain | BridgeTurn

datatype consumer = ToBridge | ToNet | ToImprov

text \<open>What happened on the port, for the statements only: a turn with the flags it read, a byte and
  who got it, network mode entered.\<close>

datatype port_log = Turn bool bool | Read consumer u8 | NetEntered

record PortState =
  p_imp :: ImprovState
  p_sys :: SysState
  p_pc :: serial_pc
  p_going_on :: bool
  p_entering :: bool
  p_raced :: bool
  p_log :: "port_log list"

definition PortState_init :: "SysState \<Rightarrow> PortState" where
  "PortState_init s = \<lparr>p_imp = ImprovState_init, p_sys = s, p_pc = Top, p_going_on = False, p_entering = False,
     p_raced = False, p_log = []\<rparr>"

definition upd_net :: "PortState \<Rightarrow> NetState \<Rightarrow> PortState" where
  "upd_net st net = st\<lparr>p_sys := (p_sys st)\<lparr>sys_net := net\<rparr>\<rparr>"

text \<open>\<open>bool enabled = lora_serial\<close>\<close>

definition serial_look :: "PortState \<Rightarrow> PortState" where
  "serial_look st =
     (if lora_serial (p_sys st)
      then st\<lparr>p_pc := BridgeTurn, p_log := p_log st @ [Turn True (s_active (sys_net (p_sys st)))]\<rparr>
      else st\<lparr>p_pc := PickMode\<rparr>)"

text \<open>\<open>if (net_active())\<close>\<close>

definition serial_pick :: "PortState \<Rightarrow> PortState" where
  "serial_pick st =
     (let net = s_active (sys_net (p_sys st))
      in st\<lparr>p_pc := (if net then NetDrain else ImpDrain), p_log := p_log st @ [Turn False net]\<rparr>)"

definition net_byte :: "net_env \<Rightarrow> PortState \<Rightarrow> u8 \<Rightarrow> PortState" where
  "net_byte ne st b = (upd_net st (fst (net_feed (sys_net (p_sys st)) ne b)))\<lparr>p_log := p_log st @ [Read ToNet b]\<rparr>"

text \<open>A byte for setup.  When it completes the command that starts network mode and \<open>net_enter\<close> finds
  the bridge off, everything but the assignment \<open>s_active = true\<close> is done.\<close>

definition improv_byte :: "imp_env \<Rightarrow> PortState \<Rightarrow> u8 \<Rightarrow> PortState" where
  "improv_byte ie st b =
     (let (i, s, evs) = improv_feed ie (p_imp st) (p_sys st) b;
          entered = (\<exists>n. NetChange (NetOn n) \<in> set evs)
      in st\<lparr>p_imp := i,
            p_sys := s\<lparr>sys_net := (sys_net s)\<lparr>s_active := s_active (sys_net (p_sys st))\<rparr>\<rparr>,
            p_entering := entered,
            p_raced := p_raced st \<or> entered \<and> p_going_on st,
            p_log := p_log st @ Read ToImprov b # (if entered then [NetEntered] else [])\<rparr>)"

definition net_set :: "PortState \<Rightarrow> PortState" where
  "net_set st = (upd_net st ((sys_net (p_sys st))\<lparr>s_active := True\<rparr>))\<lparr>p_entering := False\<rparr>"

text \<open>A request that would turn the bridge on, as the handler decides it.\<close>

definition turns_on :: "(jdoc \<Rightarrow> string) \<Rightarrow> core_env \<Rightarrow> CoreCommand \<Rightarrow> SysState \<Rightarrow> bool" where
  "turns_on ser ce cmd s = lora_serial (fst (handle_command ser (s\<lparr>lora_serial := False\<rparr>) ce cmd))"

inductive port_step :: "PortState \<Rightarrow> PortState \<Rightarrow> bool" where
  look: "p_pc st = Top \<Longrightarrow> port_step st (serial_look st)"
| pick: "p_pc st = PickMode \<Longrightarrow> port_step st (serial_pick st)"
| net_byte: "p_pc st = NetDrain \<Longrightarrow> port_step st (net_byte ne st b)"
| net_end: "p_pc st = NetDrain \<Longrightarrow>
    port_step st ((upd_net st (fst (net_poll (sys_net (p_sys st)) now)))\<lparr>p_pc := Top\<rparr>)"
| imp_byte: "p_pc st = ImpDrain \<Longrightarrow> \<not> p_entering st \<Longrightarrow> port_step st (improv_byte ie st b)"
| net_set: "p_entering st \<Longrightarrow> port_step st (net_set st)"
| imp_end: "p_pc st = ImpDrain \<Longrightarrow> \<not> p_entering st \<Longrightarrow> port_step st (st\<lparr>p_pc := Top\<rparr>)"
| bridge_byte: "p_pc st = BridgeTurn \<Longrightarrow> port_step st (st\<lparr>p_log := p_log st @ [Read ToBridge b]\<rparr>)"
| bridge_end: "p_pc st = BridgeTurn \<Longrightarrow> port_step st (st\<lparr>p_pc := Top\<rparr>)"
| bridge_test: "\<not> p_going_on st \<Longrightarrow> turns_on ser ce cmd (p_sys st) \<Longrightarrow>
    port_step st (st\<lparr>p_going_on := True, p_raced := p_raced st \<or> p_entering st\<rparr>)"
| bridge_set: "p_going_on st \<Longrightarrow>
    port_step st (st\<lparr>p_going_on := False, p_sys := (p_sys st)\<lparr>lora_serial := True\<rparr>\<rparr>)"
| command: "\<not> p_going_on st \<Longrightarrow> \<not> turns_on ser ce cmd (p_sys st) \<Longrightarrow>
    port_step st (st\<lparr>p_sys := fst (handle_command ser (p_sys st) ce cmd)\<rparr>)"
| provisioned: "port_step st (st\<lparr>p_imp := fst (provision_task (p_imp st) br outcome)\<rparr>)"
| scanned: "port_step st (st\<lparr>p_imp := fst (scan_task (p_imp st) br nets)\<rparr>)"
| radio: "port_step st (upd_net st (fst (net_deliver (sys_net (p_sys st)) mem ip len)))"
| heard_node: "port_step st (upd_net st (net_heard (sys_net (p_sys st)) n r now))"
| writer: "port_step st (upd_net st (fst (net_writer_step (sys_net (p_sys st)))))"
| bridge_off: "port_step st (st\<lparr>p_sys := (p_sys st)\<lparr>lora_serial := False\<rparr>\<rparr>)"

text \<open>The state after a start: network mode off, the bridge as the settings say.\<close>

inductive port_reachable :: "PortState \<Rightarrow> bool" where
  boot: "port_reachable (PortState_init \<lparr>lora_serial = b, s_username = u, sys_net = net_init NetState_init created\<rparr>)"
| step: "port_reachable st \<Longrightarrow> port_step st st' \<Longrightarrow> port_reachable st'"

text \<open>Every byte of a turn goes to the consumer its flags choose.\<close>

definition chosen :: "bool \<Rightarrow> bool \<Rightarrow> consumer" where
  "chosen bridge net = (if bridge then ToBridge else if net then ToNet else ToImprov)"

fun routed :: "consumer option \<Rightarrow> port_log list \<Rightarrow> bool" where
  "routed c [] \<longleftrightarrow> True"
| "routed c (Turn bridge net # l) \<longleftrightarrow> routed (Some (chosen bridge net)) l"
| "routed c (Read d b # l) \<longleftrightarrow> c = Some d \<and> routed c l"
| "routed c (NetEntered # l) \<longleftrightarrow> routed c l"

text \<open>The setup parser and the SLIP decoder when they are given exactly the bytes routed to them.\<close>

fun parser_sees :: "Parser \<Rightarrow> port_log \<Rightarrow> Parser" where
  "parser_sees q (Read ToImprov b) = fst (feed q b)"
| "parser_sees q _ = q"

fun decoder_sees :: "SlipDecoder \<Rightarrow> port_log \<Rightarrow> SlipDecoder" where
  "decoder_sees d (Read ToNet b) = fst (slip_feed SLIP_CAP d b)"
| "decoder_sees d NetEntered = slip_reset d"
| "decoder_sees d _ = d"

section \<open>One owner\<close>

definition owner_inv :: "PortState \<Rightarrow> bool" where
  "owner_inv st \<longleftrightarrow> p_raced st \<or>
     \<not> ((lora_serial (p_sys st) \<or> p_going_on st) \<and> (s_active (sys_net (p_sys st)) \<or> p_entering st))"

text \<open>The consumer of the current turn, by the place the task is at.\<close>

fun pc_consumer :: "serial_pc \<Rightarrow> consumer option" where
  "pc_consumer BridgeTurn = Some ToBridge"
| "pc_consumer NetDrain = Some ToNet"
| "pc_consumer ImpDrain = Some ToImprov"
| "pc_consumer _ = None"

fun turn_of :: "consumer option \<Rightarrow> port_log list \<Rightarrow> consumer option" where
  "turn_of c [] = c"
| "turn_of c (Turn bridge net # l) = turn_of (Some (chosen bridge net)) l"
| "turn_of c (_ # l) = turn_of c l"

definition log_inv :: "PortState \<Rightarrow> bool" where
  "log_inv st \<longleftrightarrow> routed None (p_log st) \<and>
     (pc_consumer (p_pc st) \<noteq> None \<longrightarrow> turn_of None (p_log st) = pc_consumer (p_pc st)) \<and>
     s_parser (p_imp st) = foldl parser_sees Parser_init (p_log st) \<and>
     s_dec (sys_net (p_sys st)) = foldl decoder_sees (s_dec NetState_init) (p_log st)"

lemma routed_append: "routed c (l @ l') \<longleftrightarrow> routed c l \<and> routed (turn_of c l) l'"
  by (induction c l rule: routed.induct) auto

lemma turn_of_append: "turn_of c (l @ l') = turn_of (turn_of c l) l'"
  by (induction c l rule: turn_of.induct) auto

lemma send_counted_active: "s_active (fst (net_send_counted t e d ip l)) = s_active t"
  by (auto simp: net_send_counted_def maybe_report_busy_def split: option.splits)

lemma send_counted_dec: "s_dec (fst (net_send_counted t e d ip l)) = s_dec t"
  by (auto simp: net_send_counted_def maybe_report_busy_def split: option.splits)

lemma handle_frame_active: "s_active (fst (handle_frame t e f n)) \<Longrightarrow> s_active t"
  by (auto simp: handle_frame_def Let_def send_counted_active net_leave_def split: if_splits option.splits)

lemma handle_frame_dec: "s_dec (fst (handle_frame t e f n)) = s_dec t"
  by (auto simp: handle_frame_def Let_def send_counted_dec net_leave_def split: if_splits option.splits)

lemma net_feed_port:
  "s_active (fst (net_feed s e b)) \<Longrightarrow> s_active s"
  "s_dec (fst (net_feed s e b)) = fst (slip_feed SLIP_CAP (s_dec s) b)"
proof -
  obtain d n where d: "slip_feed SLIP_CAP (s_dec s) b = (d, n)" by (metis surj_pair)
  show "s_dec (fst (net_feed s e b)) = fst (slip_feed SLIP_CAP (s_dec s) b)"
    by (cases "n = 0") (simp_all add: net_feed_def d Let_def handle_frame_dec)
  assume a: "s_active (fst (net_feed s e b))"
  from a d have "s_active (s\<lparr>s_dec := d\<rparr>)"
    by (cases "n = 0") (simp_all add: net_feed_def Let_def handle_frame_active)
  then show "s_active s" by simp
qed

lemma other_net_port:
  "s_active (fst (net_poll s now)) \<Longrightarrow> s_active s" "s_dec (fst (net_poll s now)) = s_dec s"
  "s_active (fst (net_deliver s mem ip len)) = s_active s" "s_dec (fst (net_deliver s mem ip len)) = s_dec s"
  "s_active (net_heard s n r now) = s_active s" "s_dec (net_heard s n r now) = s_dec s"
  "s_active (fst (net_writer_step s)) = s_active s" "s_dec (fst (net_writer_step s)) = s_dec s"
  by (auto simp: net_poll_def net_leave_def net_deliver_def net_heard_def net_writer_step_def Let_def
      split: if_splits option.splits list.splits)

lemma turns_on_tested: "turns_on ser ce cmd s \<Longrightarrow> \<not> s_active (sys_net s)"
  by (cases "c_action cmd") (auto simp: turns_on_def handle_command_def save_username_def Let_def split: prod.splits if_splits)

lemma command_keeps:
  "\<not> turns_on ser ce cmd s \<Longrightarrow> lora_serial (fst (handle_command ser s ce cmd)) \<Longrightarrow> lora_serial s"
  "sys_net (fst (handle_command ser s ce cmd)) = sys_net s"
  by (cases "c_action cmd"; auto simp: turns_on_def handle_command_def save_username_def Let_def split: prod.splits if_splits)+

lemma net_enter_cases:
  "net_enter s br m nd = (s', evs, ok) \<Longrightarrow>
     (ok \<and> \<not> br \<and> evs = [NetOn nd] \<and> s' = s\<lparr>s_dec := slip_reset (s_dec s), s_last_rx := m, s_active := True\<rparr>) \<or>
     (\<not> ok \<and> evs = [] \<and> s' = s)"
  by (auto simp: net_enter_def split: if_splits)

text \<open>What a command from the computer does to the parser, the bridge flag and the decoder.\<close>

definition rpc_port :: "ImprovState \<Rightarrow> SysState \<Rightarrow> ImprovState \<times> SysState \<times> imp_event list \<Rightarrow> bool" where
  "rpc_port i s r = (case r of (i', s', evs) \<Rightarrow>
     s_parser i' = s_parser i \<and> lora_serial s' = lora_serial s \<and>
     (if \<exists>n. NetChange (NetOn n) \<in> set evs then \<not> lora_serial s \<and> s_dec (sys_net s') = slip_reset (s_dec (sys_net s))
      else s_dec (sys_net s') = s_dec (sys_net s)))"

lemma rpc_wifi_port: "rpc_port i s (rpc_wifi_settings e i s payload plen)"
  by (auto simp: rpc_wifi_settings_def rpc_port_def start_task_def Let_def send_no_task split: option.split)

lemma rpc_net_port: "rpc_port i s (rpc_net_start e i s)"
  by (auto simp: rpc_net_start_def rpc_port_def Let_def send_no_task net_enter_def)

lemma handle_rpc_port: "rpc_port i s (handle_rpc e i s p)"
proof (cases "rpc_command p")
  case None
  then show ?thesis by (simp add: handle_rpc_def rpc_port_def send_no_task Let_def)
next
  case (Some c)
  obtain cmd payload plen where c: "c = (cmd, payload, plen)" by (cases c)
  have state: "rpc_port i s (i, s, send_current_state br u)" "rpc_port i s (i, s, send_result br x strs)"
    "rpc_port i s (i, s, send_error br x)" for br u x strs
    by (auto simp: rpc_port_def send_current_state_def send_no_task)
  have scan: "rpc_port i s
      (let (i, ok) = start_task i b in if \<not> ok then (i, s, send_result br x []) else (i, s, [StartScan]))" for br x b
    by (auto simp: rpc_port_def start_task_def send_no_task)
  have if_ok: "rpc_port i s x \<Longrightarrow> rpc_port i s y \<Longrightarrow> rpc_port i s (if b then x else y)" for b x y by simp
  show ?thesis unfolding handle_rpc_def Let_def [of "lora_serial s"] Some c option.case prod.case
    by (intro if_ok state scan rpc_wifi_port rpc_net_port)
qed

lemma improv_feed_port:
  "improv_feed e i s b = (i', s', evs) \<Longrightarrow>
     s_parser i' = fst (feed (s_parser i) b) \<and> lora_serial s' = lora_serial s \<and>
     (if \<exists>n. NetChange (NetOn n) \<in> set evs then \<not> lora_serial s \<and> s_dec (sys_net s') = slip_reset (s_dec (sys_net s))
      else s_dec (sys_net s') = s_dec (sys_net s))"
proof -
  assume f: "improv_feed e i s b = (i', s', evs)"
  obtain q r where q: "feed (s_parser i) b = (q, r)" by (metis surj_pair)
  have rpc: "rpc_port (i\<lparr>s_parser := q\<rparr>) s (handle_rpc e (i\<lparr>s_parser := q\<rparr>) s p)" for p by (rule handle_rpc_port)
  show ?thesis
  proof (cases r)
    case (Got p)
    with f rpc [of p] show ?thesis
      by (auto simp: improv_feed_def q rpc_port_def Let_def split: if_splits)
  qed (use f in \<open>auto simp: improv_feed_def q Let_def send_no_task\<close>)
qed

lemma port_step_owner: "port_step st st' \<Longrightarrow> owner_inv st \<Longrightarrow> owner_inv st'"
proof (induction rule: port_step.induct)
  case (imp_byte st ie b)
  obtain i s evs where f: "improv_feed ie (p_imp st) (p_sys st) b = (i, s, evs)" by (metis prod_cases3)
  from improv_feed_port [OF f] imp_byte show ?case
    by (auto simp: owner_inv_def improv_byte_def f Let_def split: if_splits)
next
  case (bridge_test st ser ce cmd)
  then show ?case using turns_on_tested by (auto simp: owner_inv_def)
next
  case (command st ser ce cmd)
  then show ?case using command_keeps(1) [of ser ce cmd "p_sys st"] by (auto simp: owner_inv_def command_keeps(2))
next
  case (net_byte st ne b)
  then show ?case by (auto simp: owner_inv_def Serial_Port.net_byte_def upd_net_def dest: net_feed_port(1))
next
  case (net_end st now)
  then show ?case by (auto simp: owner_inv_def upd_net_def dest: other_net_port(1))
next
  case (net_set st)
  then show ?case by (auto simp: owner_inv_def Serial_Port.net_set_def upd_net_def)
next
  case (bridge_set st)
  then show ?case by (auto simp: owner_inv_def)
qed (auto simp: owner_inv_def upd_net_def serial_look_def serial_pick_def Let_def other_net_port)

lemma tasks_parser: "s_parser (fst (provision_task i br o')) = s_parser i" "s_parser (fst (scan_task i br nets)) = s_parser i"
  by (simp_all add: provision_task_def scan_task_def)

lemma port_step_log: "port_step st st' \<Longrightarrow> log_inv st \<Longrightarrow> log_inv st'"
proof (induction rule: port_step.induct)
  case (imp_byte st ie b)
  obtain i s evs where f: "improv_feed ie (p_imp st) (p_sys st) b = (i, s, evs)" by (metis prod_cases3)
  from improv_feed_port [OF f] imp_byte show ?case
    by (auto simp: log_inv_def improv_byte_def f Let_def routed_append turn_of_append split: if_splits)
next
  case (net_byte st ne b)
  then show ?case
    by (auto simp: log_inv_def Serial_Port.net_byte_def upd_net_def net_feed_port routed_append turn_of_append)
next
  case (command st ser ce cmd)
  then show ?case by (simp add: log_inv_def command_keeps)
qed (auto simp: log_inv_def upd_net_def serial_look_def serial_pick_def Serial_Port.net_set_def Let_def other_net_port
    tasks_parser routed_append turn_of_append chosen_def)


text \<open>A race is only reported when both tests lie before both assignments.\<close>

lemma raced_only_by_overlap:
  "port_step st st' \<Longrightarrow> \<not> p_raced st \<Longrightarrow> p_raced st' \<Longrightarrow> p_going_on st' \<and> p_entering st'"
  by (induction rule: port_step.induct)
    (auto simp: improv_byte_def serial_look_def serial_pick_def Serial_Port.net_byte_def Serial_Port.net_set_def
      upd_net_def Let_def split: prod.splits if_splits)


section \<open>The two switches, statement by statement\<close>

text \<open>
  The race that the property above leaves possible.  The code has no lock around the test and the
  assignment: the request that turns the bridge on (\<open>handle_operations\<close>, lines 341 and 346) and
  \<open>net_enter\<close> (\<open>src/src/core/net_serial.cpp\<close>, lines 58 and 61) run in different tasks.  Here are the four statements,
  with the results of the tests as the local state of the two tasks.
\<close>

datatype switch_stmt = BridgeTest | BridgeSet | NetTest | NetSet

record switches =
  sw_bridge :: bool
  sw_net :: bool
  bridge_go :: bool
  net_go :: bool

fun switch_run :: "switch_stmt list \<Rightarrow> switches \<Rightarrow> switches" where
  "switch_run [] w = w"
| "switch_run (BridgeTest # xs) w = switch_run xs (w\<lparr>bridge_go := \<not> sw_net w\<rparr>)"
| "switch_run (BridgeSet # xs) w = switch_run xs (if bridge_go w then w\<lparr>sw_bridge := True\<rparr> else w)"
| "switch_run (NetTest # xs) w = switch_run xs (w\<lparr>net_go := \<not> sw_bridge w\<rparr>)"
| "switch_run (NetSet # xs) w = switch_run xs (if net_go w then w\<lparr>sw_net := True\<rparr> else w)"

text \<open>Of the six interleavings of the two handlers from the idle state, exactly those in which both tests
  come before both assignments end with two owners.\<close>

lemma switch_race:
  assumes "tr \<in> shuffles [BridgeTest, BridgeSet] [NetTest, NetSet]" "\<not> sw_bridge w" "\<not> sw_net w"
  shows "sw_bridge (switch_run tr w) \<and> sw_net (switch_run tr w) \<longleftrightarrow>
    take 2 tr \<in> {[BridgeTest, NetTest], [NetTest, BridgeTest]}"
proof -
  consider "tr = [BridgeTest, BridgeSet, NetTest, NetSet]" | "tr = [BridgeTest, NetTest, BridgeSet, NetSet]"
    | "tr = [BridgeTest, NetTest, NetSet, BridgeSet]" | "tr = [NetTest, BridgeTest, BridgeSet, NetSet]"
    | "tr = [NetTest, BridgeTest, NetSet, BridgeSet]" | "tr = [NetTest, NetSet, BridgeTest, BridgeSet]"
    using assms(1) by auto
  then show ?thesis
    by cases (simp_all add: assms(2,3))
qed

end
