(* ===== verification/Storage.thy ===== *)
theory Storage
  imports Voy_Prelude
begin

text \<open>
  The configuration files: the file system lock, reading and atomic writing
  (\<open>src/src/core/support_method.cpp\<close>, lines 29-123).  The file system is a map from paths to
  contents; what the flash, the scheduler and a running update do is an environment.  A task is
  a number.
\<close>

section \<open>The lock\<close>

text \<open>A recursive mutex: its holder and how often it took it; \<open>fs_mutex\<close> is \<open>None\<close> before it is created.\<close>

record FsLock =
  fs_mounted :: bool
  fs_mutex :: "(nat \<times> nat) option option"

definition fs_lock_init :: "bool \<Rightarrow> FsLock \<Rightarrow> FsLock" where
  "fs_lock_init created l = (if fs_mutex l = None \<and> created then l\<lparr>fs_mutex := Some None\<rparr> else l)"

text \<open>FreeRTOS \<open>xSemaphoreTakeRecursive\<close> and \<open>xSemaphoreGiveRecursive\<close> by task \<open>me\<close>.  A take that waits ends
  with the lock when it is free then, and without it when another task still has it.\<close>

definition mutex_take :: "nat \<Rightarrow> (nat \<times> nat) option \<Rightarrow> (nat \<times> nat) option \<times> bool" where
  "mutex_take me m =
     (case m of
        None \<Rightarrow> (Some (me, 1), True)
      | Some (h, n) \<Rightarrow> if h = me then (Some (h, n + 1), True) else (m, False))"

definition mutex_give :: "nat \<Rightarrow> (nat \<times> nat) option \<Rightarrow> (nat \<times> nat) option" where
  "mutex_give me m =
     (case m of
        None \<Rightarrow> None
      | Some (h, n) \<Rightarrow> if h \<noteq> me then m else if n \<le> 1 then None else Some (h, n - 1))"

definition fs_lock_is_mine :: "nat \<Rightarrow> FsLock \<Rightarrow> bool" where
  "fs_lock_is_mine me l = (case fs_mutex l of None \<Rightarrow> False | Some m \<Rightarrow> map_option fst m = Some me)"

text \<open>\<open>off1\<close> and \<open>off2\<close>: \<open>web_fs_offline()\<close> before and after the wait for the lock.\<close>

definition fs_enter :: "nat \<Rightarrow> bool \<Rightarrow> bool \<Rightarrow> FsLock \<Rightarrow> FsLock \<times> bool" where
  "fs_enter me off1 off2 l =
     (if \<not> fs_mounted l then (l, False)
      else
        (case fs_mutex l of
           None \<Rightarrow> (l, \<not> off1)
         | Some m \<Rightarrow>
             let maintainer = fs_lock_is_mine me l in
             if off1 \<and> \<not> maintainer then (l, False)
             else
               let (m', took) = mutex_take me m in
               if \<not> took then (l, False)
               else if off2 \<and> \<not> maintainer then (l\<lparr>fs_mutex := Some (mutex_give me m')\<rparr>, False)
               else (l\<lparr>fs_mutex := Some m'\<rparr>, True)))"

definition fs_leave :: "nat \<Rightarrow> FsLock \<Rightarrow> FsLock" where
  "fs_leave me l = (case fs_mutex l of None \<Rightarrow> l | Some m \<Rightarrow> l\<lparr>fs_mutex := Some (mutex_give me m)\<rparr>)"

definition fs_maintenance_begin :: "nat \<Rightarrow> FsLock \<Rightarrow> FsLock \<times> bool" where
  "fs_maintenance_begin me l =
     (case fs_mutex l of
        None \<Rightarrow> (l, True)
      | Some m \<Rightarrow> let (m', took) = mutex_take me m in (l\<lparr>fs_mutex := Some m'\<rparr>, took))"

definition fs_maintenance_end :: "nat \<Rightarrow> FsLock \<Rightarrow> FsLock" where
  "fs_maintenance_end me l =
     (case fs_mutex l of
        None \<Rightarrow> l
      | Some m \<Rightarrow> if fs_lock_is_mine me l then l\<lparr>fs_mutex := Some (mutex_give me m)\<rparr> else l)"

section \<open>Files\<close>

type_synonym files = "string \<Rightarrow> string option"

record fs_env =
  ev_off1 :: bool
  ev_off2 :: bool
  ev_open :: bool
  ev_written :: nat
  ev_rename :: bool

definition read_file :: "fs_env \<Rightarrow> nat \<Rightarrow> FsLock \<times> files \<Rightarrow> string option \<Rightarrow> (FsLock \<times> files) \<times> bool \<times> string" where
  "read_file e me st path =
     (case path of
        None \<Rightarrow> (st, False, [])
      | Some p \<Rightarrow>
          let (l, fs) = st; (l, entered) = fs_enter me (ev_off1 e) (ev_off2 e) l in
          if \<not> entered then ((l, fs), False, [])
          else
            let r = (case fs p of
                       None \<Rightarrow> None
                     | Some content \<Rightarrow> if ev_open e \<and> length content \<le> 4096 then Some content else None)
            in ((fs_leave me l, fs), case r of None \<Rightarrow> (False, []) | Some out \<Rightarrow> (True, out)))"

text \<open>The changes a write makes to the flash, one at a time, and their effect.\<close>

datatype fs_op = FsStore string string | FsRename string string | FsRemove string

fun fs_apply :: "fs_op \<Rightarrow> files \<Rightarrow> files" where
  "fs_apply (FsStore p c) fs = fs(p \<mapsto> c)"
| "fs_apply (FsRename a b) fs = (case fs a of None \<Rightarrow> fs | Some c \<Rightarrow> (fs(b \<mapsto> c))(a := None))"
| "fs_apply (FsRemove p) fs = fs(p := None)"

definition tmp_path :: "string \<Rightarrow> string" where
  "tmp_path path = path @ ''.tmp''"

text \<open>\<open>ev_written\<close> is what \<open>print\<close> returned: so many characters of the content are in the file.\<close>

definition write_ops :: "fs_env \<Rightarrow> string \<Rightarrow> string \<Rightarrow> fs_op list \<times> bool" where
  "write_ops e path content =
     (let tmp = tmp_path path in
      if \<not> ev_open e then ([], False)
      else
        let ops = [FsStore tmp [], FsStore tmp (take (ev_written e) content)] in
        if ev_written e = length content \<and> ev_rename e then (ops @ [FsRename tmp path], True)
        else (ops @ [FsRemove tmp], False))"

definition write_file_atomic :: "fs_env \<Rightarrow> nat \<Rightarrow> FsLock \<times> files \<Rightarrow> string option \<Rightarrow> string \<Rightarrow> (FsLock \<times> files) \<times> bool" where
  "write_file_atomic e me st path content =
     (case path of
        None \<Rightarrow> (st, False)
      | Some p \<Rightarrow>
          let (l, fs) = st; (l, entered) = fs_enter me (ev_off1 e) (ev_off2 e) l in
          if \<not> entered then ((l, fs), False)
          else
            let (ops, ok) = write_ops e p content
            in ((fs_leave me l, fold fs_apply ops fs), ok))"

section \<open>Atomicity\<close>

lemma tmp_path_neq [simp]: "tmp_path p \<noteq> p" "p \<noteq> tmp_path p"
  by (simp_all add: tmp_path_def)

lemma write_prefixes:
  "write_ops e p c = (ops, ok) \<Longrightarrow> fold fs_apply (take n ops) fs p \<in> {fs p, Some c}"
  by (auto simp: write_ops_def Let_def take_Cons' split: if_splits)

lemma write_others:
  "write_ops e p c = (ops, ok) \<Longrightarrow> q \<noteq> p \<Longrightarrow> q \<noteq> tmp_path p \<Longrightarrow> fold fs_apply (take n ops) fs q = fs q"
  by (auto simp: write_ops_def Let_def take_Cons' split: if_splits)

lemma write_done:
  "write_ops e p c = (ops, ok) \<Longrightarrow> fold fs_apply ops fs p = (if ok then Some c else fs p)"
  by (auto simp: write_ops_def Let_def split: if_splits)

text \<open>
  C23 (write_is_atomic). Cutting the power at any moment of a write leaves the file with either its old or
  its complete new content and every other file but the temporary one untouched; the call
  reports success exactly when the new content is in place, and a failed call changes nothing.\<close>

theorem write_is_atomic:
  assumes "write_ops e path content = (ops, ok)"
  shows "(\<forall>n. fold fs_apply (take n ops) fs path \<in> {fs path, Some content} \<and>
      (\<forall>q. q \<noteq> path \<longrightarrow> q \<noteq> tmp_path path \<longrightarrow> fold fs_apply (take n ops) fs q = fs q)) \<and>
    fold fs_apply ops fs path = (if ok then Some content else fs path)"
  using write_prefixes [OF assms] write_others [OF assms] write_done [OF assms] by blast

definition sample_fs_env :: fs_env where
  "sample_fs_env = \<lparr>ev_off1 = False, ev_off2 = False, ev_open = True, ev_written = 3, ev_rename = True\<rparr>"

theorem write_is_atomic_witness:
  "fold fs_apply (take 1 (fst (write_ops sample_fs_env ''/a'' ''new''))) [''/a'' \<mapsto> ''old''] ''/a'' \<in> {Some ''old'', Some ''new''}"
  using write_is_atomic [of sample_fs_env "''/a''" "''new''" "fst (write_ops sample_fs_env ''/a'' ''new'')" True "[''/a'' \<mapsto> ''old'']"]
  by (simp add: write_ops_def sample_fs_env_def Let_def)

section \<open>The lock, properly used\<close>

lemma enter_leave:
  "fs_enter me off1 off2 l = (l', True) \<Longrightarrow> fs_mutex (fs_leave me l') = fs_mutex l \<or> (\<exists>n. fs_mutex l = Some (Some (me, n)) \<and> n = 0)"
  by (auto simp: fs_enter_def fs_leave_def mutex_take_def mutex_give_def Let_def split: if_splits option.splits prod.splits)

text \<open>A task that does not hold the lock gets it only while the file system is in service and no
  other task holds it, and a refused one leaves it as it was.\<close>

lemma enter_guard:
  assumes "fs_enter me off1 off2 l = (l', ok)" and "\<not> fs_lock_is_mine me l"
  shows "(ok \<longrightarrow> fs_mounted l \<and> \<not> off1 \<and> (fs_mutex l = None \<or> fs_mutex l = Some None \<and> \<not> off2)) \<and> (\<not> ok \<longrightarrow> l' = l)"
  using assms
  by (cases l) (auto simp: fs_enter_def fs_lock_is_mine_def mutex_take_def mutex_give_def Let_def split: if_splits option.splits prod.splits)

text \<open>Reading back what was written: the two functions in sequence.\<close>

lemma read_after_write:
  assumes "write_file_atomic e me (l, fs) (Some p) c = ((l', fs'), True)" and "length c \<le> 4096"
    and "fs_enter me (ev_off1 e') (ev_off2 e') l' = (l'', True)" and "ev_open e'"
  shows "snd (read_file e' me (l', fs') (Some p)) = (True, c)"
proof -
  from assms(1) obtain ops ok where w: "write_ops e p c = (ops, ok)" "fs' = fold fs_apply ops fs" "ok"
    by (auto simp: write_file_atomic_def Let_def split: prod.splits if_splits)
  have "fs' p = Some c" using write_done [OF w(1), of fs] w(2,3) by simp
  then show ?thesis using assms(2-4) by (simp add: read_file_def)
qed

section \<open>A file system in service\<close>

text \<open>The lock is free, the file system mounted: the state between two calls when nothing else runs.\<close>

definition calm :: "nat \<Rightarrow> FsLock \<Rightarrow> bool" where
  "calm me l \<longleftrightarrow> fs_mounted l \<and> fs_mutex l = Some None"

definition opens :: "fs_env \<Rightarrow> bool" where
  "opens e \<longleftrightarrow> \<not> ev_off1 e \<and> \<not> ev_off2 e \<and> ev_open e"

definition works :: "fs_env \<Rightarrow> string \<Rightarrow> bool" where
  "works e content \<longleftrightarrow> opens e \<and> ev_written e = length content \<and> ev_rename e"

definition stored :: "string \<Rightarrow> string \<Rightarrow> files \<Rightarrow> files" where
  "stored p c fs = fs(p \<mapsto> c, tmp_path p := None)"

lemma calm_enter_eq:
  "calm me l \<Longrightarrow> fs_enter me off1 off2 l = (if off1 \<or> off2 then (l, False) else (l\<lparr>fs_mutex := Some (Some (me, Suc 0))\<rparr>, True))"
  by (cases l) (simp add: calm_def fs_enter_def fs_lock_is_mine_def mutex_take_def mutex_give_def)

lemma calm_enter: "calm me l \<Longrightarrow> fs_enter me False False l = (l\<lparr>fs_mutex := Some (Some (me, Suc 0))\<rparr>, True)"
  by (simp add: calm_enter_eq)

lemma calm_leave: "calm me l \<Longrightarrow> fs_leave me (l\<lparr>fs_mutex := Some (Some (me, Suc 0))\<rparr>) = l"
  by (cases l) (simp add: calm_def fs_leave_def mutex_give_def)

lemma calm_read:
  assumes "calm me l" "opens e"
  shows "read_file e me (l, fs) (Some p) =
    ((l, fs), case fs p of None \<Rightarrow> (False, []) | Some c \<Rightarrow> if length c \<le> 4096 then (True, c) else (False, []))"
  using assms by (simp add: read_file_def opens_def calm_enter calm_leave Let_def split: option.split)

lemma calm_write:
  assumes "calm me l" "works e c"
  shows "write_file_atomic e me (l, fs) (Some p) c = ((l, stored p c fs), True)"
  using assms
  by (simp add: write_file_atomic_def works_def opens_def calm_enter calm_leave write_ops_def stored_def
      tmp_path_def Let_def fun_eq_iff)

lemma calm_write_any:
  assumes "calm me l" "write_file_atomic e me (l, fs) (Some p) c = ((l', fs'), ok)"
  shows "l' = l \<and> fs' p = (if ok then Some c else fs p) \<and> (\<forall>q. q \<noteq> p \<longrightarrow> q \<noteq> tmp_path p \<longrightarrow> fs' q = fs q)"
proof (cases "ev_off1 e \<or> ev_off2 e")
  case True
  then show ?thesis using assms by (simp add: write_file_atomic_def calm_enter_eq)
next
  case False
  obtain ops k where w: "write_ops e p c = (ops, k)" by fastforce
  have "l' = l" "fs' = fold fs_apply ops fs" "ok = k"
    using assms False by (simp_all add: write_file_atomic_def calm_enter_eq calm_leave w)
  then show ?thesis using write_done [OF w, of fs] write_others [OF w, of _ "length ops" fs] by simp
qed

section \<open>What the settings rely on\<close>

text \<open>
  The contract between the configuration files and the components that keep settings in them: a
  write that reports success is what the next read of that file returns, a write that reports
  failure leaves it as it was, and neither changes another file.
\<close>

locale config_store =
  fixes ready :: "'s \<Rightarrow> bool"
    and rd :: "'s \<Rightarrow> string \<Rightarrow> string option"
    and wr :: "'e \<Rightarrow> 's \<Rightarrow> string \<Rightarrow> string \<Rightarrow> 's \<times> bool"
  assumes wr_ready: "ready s \<Longrightarrow> ready (fst (wr e s p c))"
    and wr_done: "ready s \<Longrightarrow> length c \<le> 4096 \<Longrightarrow> wr e s p c = (s', True) \<Longrightarrow> rd s' p = Some c"
    and wr_failed: "ready s \<Longrightarrow> wr e s p c = (s', False) \<Longrightarrow> rd s' p = rd s p"
    and wr_other: "ready s \<Longrightarrow> wr e s p c = (s', ok) \<Longrightarrow> q \<noteq> p \<Longrightarrow> q \<noteq> tmp_path p \<Longrightarrow> rd s' q = rd s q"
begin

text \<open>A setting kept as text in the file \<open>p\<close>: after any sequence of attempts to save it, the file holds the last
  value whose save was reported as done, or what it held at first.\<close>

fun saves :: "string \<Rightarrow> 's \<Rightarrow> ('e \<times> string) list \<Rightarrow> 's \<times> string option" where
  "saves p s [] = (s, None)"
| "saves p s ((e, c) # ws) =
     (let (s, ok) = wr e s p c; (s, later) = saves p s ws
      in (s, case later of Some d \<Rightarrow> Some d | None \<Rightarrow> if ok then Some c else None))"

lemma last_save_wins:
  assumes "ready s" "\<forall>(e, c) \<in> set ws. length c \<le> 4096" "saves p s ws = (s', kept)"
  shows "ready s' \<and> rd s' p = (case kept of None \<Rightarrow> rd s p | Some c \<Rightarrow> Some c)"
  using assms
proof (induction ws arbitrary: s kept)
  case (Cons w ws)
  obtain e c where w: "w = (e, c)" by fastforce
  obtain s1 ok where 1: "wr e s p c = (s1, ok)" by fastforce
  obtain d where 2: "saves p s1 ws = (s', d)" "kept = (case d of Some d \<Rightarrow> Some d | None \<Rightarrow> if ok then Some c else None)"
    using Cons.prems(3) by (auto simp: w 1 split: prod.splits)
  have "ready s1" using wr_ready [OF Cons.prems(1), of e p c] 1 by simp
  with Cons.IH [OF _ _ 2(1)] Cons.prems(2)
  have IH: "ready s' \<and> rd s' p = (case d of None \<Rightarrow> rd s1 p | Some c \<Rightarrow> Some c)" by simp
  have "rd s1 p = (if ok then Some c else rd s p)"
    using wr_done [OF Cons.prems(1), of c e p s1] wr_failed [OF Cons.prems(1), of e p c s1] 1 Cons.prems(2) w
    by (cases ok) auto
  then show ?case using IH 2(2) by (auto split: option.splits)
qed simp

text \<open>Saving one setting does not disturb another.\<close>

lemma saves_other:
  assumes "ready s" "saves p s ws = (s', kept)" "q \<noteq> p" "q \<noteq> tmp_path p"
  shows "rd s' q = rd s q"
  using assms
proof (induction ws arbitrary: s kept)
  case (Cons w ws)
  obtain e c where w: "w = (e, c)" by fastforce
  obtain s1 ok where 1: "wr e s p c = (s1, ok)" by fastforce
  obtain d where 2: "saves p s1 ws = (s', d)"
    using Cons.prems(2) by (auto simp: w 1 split: prod.splits)
  have "ready s1" using wr_ready [OF Cons.prems(1), of e p c] 1 by simp
  then show ?case using Cons.IH [OF _ 2 Cons.prems(3,4)] wr_other [OF Cons.prems(1) 1 Cons.prems(3,4)] by simp
qed simp

end

text \<open>A read in a good moment, as the restart after a change does it.\<close>

definition good_moment :: fs_env where
  "good_moment = \<lparr>ev_off1 = False, ev_off2 = False, ev_open = True, ev_written = 0, ev_rename = True\<rparr>"

definition read_now :: "nat \<Rightarrow> FsLock \<times> files \<Rightarrow> string \<Rightarrow> string option" where
  "read_now me st p = (case read_file good_moment me st (Some p) of (st, ok, c) \<Rightarrow> if ok then Some c else None)"

lemma read_now_calm:
  "calm me l \<Longrightarrow> read_now me (l, fs) p = (case fs p of None \<Rightarrow> None | Some c \<Rightarrow> if length c \<le> 4096 then Some c else None)"
  by (simp add: read_now_def calm_read opens_def good_moment_def split: option.split)

interpretation flash: config_store "\<lambda>st. calm me (fst st)" "read_now me" "\<lambda>e st p c. write_file_atomic e me st (Some p) c"
  for me
proof unfold_locales
  fix s s' :: "FsLock \<times> files" and e p c q ok
  assume s: "calm me (fst s)"
  obtain l fs where l: "s = (l, fs)" "calm me l" using s by (cases s) auto
  show "calm me (fst (fst (write_file_atomic e me s (Some p) c)))"
    using calm_write_any [OF l(2), of e fs p c] l by (metis prod.collapse)
  assume w: "write_file_atomic e me s (Some p) c = (s', ok)"
  obtain l' fs' where s': "s' = (l', fs')" by fastforce
  note any = calm_write_any [OF l(2) w [unfolded l(1) s']]
  show "q \<noteq> p \<Longrightarrow> q \<noteq> tmp_path p \<Longrightarrow> read_now me s' q = read_now me s q"
    using any l by (simp add: s' read_now_calm)
next
  fix s s' :: "FsLock \<times> files" and e p c
  assume s: "calm me (fst s)" and w: "write_file_atomic e me s (Some p) c = (s', True)" and c: "length c \<le> 4096"
  obtain l fs l' fs' where l: "s = (l, fs)" "s' = (l', fs')" "calm me l" using s by (cases s; cases s') auto
  show "read_now me s' p = Some c" using calm_write_any [OF l(3) w [unfolded l(1,2)]] l c by (simp add: read_now_calm)
next
  fix s s' :: "FsLock \<times> files" and e p c
  assume s: "calm me (fst s)" and w: "write_file_atomic e me s (Some p) c = (s', False)"
  obtain l fs l' fs' where l: "s = (l, fs)" "s' = (l', fs')" "calm me l" using s by (cases s; cases s') auto
  show "read_now me s' p = read_now me s p" using calm_write_any [OF l(3) w [unfolded l(1,2)]] l by (simp add: read_now_calm)
qed

end
