(* ===== verification/Bluetooth.thy ===== *)
theory Bluetooth
  imports Storage Json_Api
begin

text \<open>
  The Bluetooth port: \<open>src/src/core/bt_serial.cpp\<close> and \<open>bt_serial.h\<close>, with the two tasks and the
  status message of \<open>src/src/core/support_method.cpp\<close> (lines 147-212).  Whether the support is
  compiled in (\<open>VOYAGER_BT_ENABLED\<close>) is a parameter; so are the outcomes of the Bluetooth stack.
\<close>

section \<open>State and settings\<close>

datatype BridgeSerialMode = BRIDGE_SERIAL_USB | BRIDGE_SERIAL_BT

record BtConfig =
  bt_name :: string
  bt_enabled :: bool

record BtState =
  bt_initialized :: bool
  active_serial_mode :: BridgeSerialMode

definition BtState_init :: BtState where
  "BtState_init = \<lparr>bt_initialized = False, active_serial_mode = BRIDGE_SERIAL_USB\<rparr>"

definition BT_CONFIG_PATH :: string where "BT_CONFIG_PATH = ''/config/bt_config.json''"

definition ascii_upper :: "char \<Rightarrow> char" where
  "ascii_upper c = (if 97 \<le> (of_char c :: nat) \<and> (of_char c :: nat) \<le> 122 then char_of ((of_char c :: nat) - 32) else c)"

definition mac_suffix :: "string \<Rightarrow> string" where
  "mac_suffix mac = map ascii_upper (filter (\<lambda>c. c \<noteq> CHR '':'') (drop (length mac - 5) mac))"

definition get_default_bt_name :: "string \<Rightarrow> string" where
  "get_default_bt_name mac = (if length mac \<ge> 5 then ''Voyager_'' @ mac_suffix mac else ''Voyager_ESP32'')"

text \<open>The function of the header: it is given the file's text and does not look at it.\<close>

definition bt_parse_config :: "string option \<Rightarrow> string \<Rightarrow> BtConfig" where
  "bt_parse_config json mac_str =
     \<lparr>bt_name = (if length mac_str \<ge> 5 then ''Voyager_'' @ mac_suffix mac_str else ''Voyager_ESP32''), bt_enabled = False\<rparr>"

text \<open>\<open>content\<close>: the file as \<open>read_file\<close> delivers it, \<open>None\<close> when it fails.\<close>

definition bt_config_of :: "'v json_api \<Rightarrow> string \<Rightarrow> string option \<Rightarrow> BtConfig" where
  "bt_config_of J mac content =
     (let cfg = \<lparr>bt_name = get_default_bt_name mac, bt_enabled = False\<rparr> in
      case content of
        None \<Rightarrow> cfg
      | Some s \<Rightarrow>
          (case jparse J s of
             None \<Rightarrow> cfg
           | Some doc \<Rightarrow>
               let cfg = (case jstr J (jmember J doc ''bt_name'') of
                            None \<Rightarrow> cfg
                          | Some n \<Rightarrow> if length n > 0 \<and> length n \<le> 32 then cfg\<lparr>bt_name := n\<rparr> else cfg)
               in (case jbool J (jmember J doc ''bt_enabled'') of None \<Rightarrow> cfg | Some b \<Rightarrow> cfg\<lparr>bt_enabled := b\<rparr>)))"

definition get_bt_config :: "'v json_api \<Rightarrow> string \<Rightarrow> fs_env \<Rightarrow> nat \<Rightarrow> FsLock \<times> files \<Rightarrow> (FsLock \<times> files) \<times> BtConfig" where
  "get_bt_config J mac e me st =
     (case read_file e me st (Some BT_CONFIG_PATH) of
        (st, ok, content) \<Rightarrow> (st, bt_config_of J mac (if ok then Some content else None)))"

definition bt_config_doc :: "BtConfig \<Rightarrow> jdoc" where
  "bt_config_doc cfg = JObject [(''bt_name'', JText (bt_name cfg)), (''bt_enabled'', JBoolean (bt_enabled cfg))]"

definition save_bt_config :: "'v json_api \<Rightarrow> fs_env \<Rightarrow> nat \<Rightarrow> FsLock \<times> files \<Rightarrow> BtConfig \<Rightarrow> (FsLock \<times> files) \<times> bool" where
  "save_bt_config J e me st cfg = write_file_atomic e me st (Some BT_CONFIG_PATH) (jser J (bt_config_doc cfg))"

section \<open>Starting and stopping\<close>

text \<open>\<open>re\<close> and \<open>we\<close>: what the file system does while the settings are read and written.\<close>

record bt_env =
  compiled :: bool
  begin_ok :: bool
  connected :: bool
  re :: fs_env
  we :: fs_env
  bt_task :: nat
  bt_mac :: string

definition start_bt_serial :: "'v json_api \<Rightarrow> bt_env \<Rightarrow> BtState \<Rightarrow> FsLock \<times> files \<Rightarrow> BtState \<times> (FsLock \<times> files) \<times> bool" where
  "start_bt_serial J e b st =
     (if \<not> compiled e then (b, st, False)
      else if bt_initialized b then (b, st, True)
      else
        let (st, cfg) = get_bt_config J (bt_mac e) (re e) (bt_task e) st in
        if begin_ok e then
          (b\<lparr>bt_initialized := True\<rparr>, fst (save_bt_config J (we e) (bt_task e) st (cfg\<lparr>bt_enabled := True\<rparr>)), True)
        else (b, st, False))"

definition stop_bt_serial :: "'v json_api \<Rightarrow> bt_env \<Rightarrow> BtState \<Rightarrow> FsLock \<times> files \<Rightarrow> BtState \<times> (FsLock \<times> files) \<times> bool" where
  "stop_bt_serial J e b st =
     (if \<not> compiled e \<or> \<not> bt_initialized b then (b, st, False)
      else
        let (st, cfg) = get_bt_config J (bt_mac e) (re e) (bt_task e) st in
        (b\<lparr>bt_initialized := False\<rparr>, fst (save_bt_config J (we e) (bt_task e) st (cfg\<lparr>bt_enabled := False\<rparr>)), True))"

definition bt_is_running :: "bt_env \<Rightarrow> BtState \<Rightarrow> bool" where
  "bt_is_running e b \<longleftrightarrow> compiled e \<and> bt_initialized b"

definition bt_is_connected :: "bt_env \<Rightarrow> BtState \<Rightarrow> bool" where
  "bt_is_connected e b \<longleftrightarrow> compiled e \<and> bt_initialized b \<and> connected e"

definition bt_is_available :: "bt_env \<Rightarrow> bool" where
  "bt_is_available e = compiled e"

text \<open>The port the bridge reads from and writes to.\<close>

definition active_serial :: "bt_env \<Rightarrow> BtState \<Rightarrow> BridgeSerialMode" where
  "active_serial e b =
     (if compiled e \<and> active_serial_mode b = BRIDGE_SERIAL_BT \<and> bt_initialized b then BRIDGE_SERIAL_BT else BRIDGE_SERIAL_USB)"

section \<open>Commands\<close>

datatype bt_event = BtToWs jdoc | BtAlert string | BtRestart

definition send_bt_config_to_ws :: "bt_env \<Rightarrow> BtState \<Rightarrow> BtConfig \<Rightarrow> bt_event" where
  "send_bt_config_to_ws e b cfg =
     BtToWs (JObject [(''response_type'', JText ''bt_config''), (''bt_name'', JText (bt_name cfg)),
       (''bt_enabled'', JBoolean (bt_enabled cfg)), (''bt_available'', JBoolean (bt_is_available e)),
       (''bt_running'', JBoolean (bt_is_running e b)), (''bt_connected'', JBoolean (bt_is_connected e b))])"

definition reboot_to_bt_task :: "'v json_api \<Rightarrow> bt_env \<Rightarrow> FsLock \<times> files \<Rightarrow> (FsLock \<times> files) \<times> bt_event list" where
  "reboot_to_bt_task J e st =
     (let (st, cfg) = get_bt_config J (bt_mac e) (re e) (bt_task e) st;
          (st, ok) = save_bt_config J (we e) (bt_task e) st (cfg\<lparr>bt_enabled := True\<rparr>) in
      if ok then (st, [BtAlert ''Bluetooth enabled, rebooting...'', BtRestart])
      else (st, [BtAlert ''Failed to enable Bluetooth'']))"

definition set_bt_mode_task ::
  "'v json_api \<Rightarrow> bt_env \<Rightarrow> fs_env \<Rightarrow> bool \<Rightarrow> BtState \<Rightarrow> FsLock \<times> files \<Rightarrow> BtState \<times> (FsLock \<times> files) \<times> bt_event list" where
  "set_bt_mode_task J e re2 enable b st =
     (let (b, st, evs) =
        (if enable then
           let (b, st, ok) = start_bt_serial J e b st in
           (b, st, [BtAlert (if ok then ''Bluetooth started - pair with device now'' else ''Failed to start Bluetooth'')])
         else
           let (b, st, ok) = stop_bt_serial J e b st in
           (b, st, [BtAlert (if ok then ''Bluetooth stopped'' else ''Bluetooth was not running'')]));
          (st, cfg) = get_bt_config J (bt_mac e) re2 (bt_task e) st
      in (b, st, evs @ [send_bt_config_to_ws e b cfg]))"

section \<open>Properties\<close>

text \<open>The name shown and used for pairing is never empty and has at most 32 characters.\<close>

lemma bt_name_bounds:
  shows "1 \<le> length (bt_name (bt_config_of J mac content)) \<and> length (bt_name (bt_config_of J mac content)) \<le> 32"
proof -
  have "length (mac_suffix mac) \<le> 5"
    using length_filter_le [of "\<lambda>c. c \<noteq> CHR '':''" "drop (length mac - 5) mac"] by (simp add: mac_suffix_def)
  then have d: "1 \<le> length (get_default_bt_name mac) \<and> length (get_default_bt_name mac) \<le> 32"
    by (simp add: get_default_bt_name_def)
  show ?thesis using d by (auto simp: bt_config_of_def Let_def Suc_le_eq split: option.split)
qed

text \<open>Starting or stopping Bluetooth never changes the port the bridge uses: no operation sets
  \<open>active_serial_mode\<close>.\<close>

lemma bridge_mode_kept:
  "active_serial_mode (fst (start_bt_serial J e b st)) = active_serial_mode b"
  "active_serial_mode (fst (stop_bt_serial J e b st)) = active_serial_mode b"
  by (auto simp: start_bt_serial_def stop_bt_serial_def split: prod.split)

lemma set_bt_mode_kept: "active_serial_mode (fst (set_bt_mode_task J e re2 enable b st)) = active_serial_mode b"
  by (auto simp: set_bt_mode_task_def Let_def bridge_mode_kept split: prod.split)
    (metis bridge_mode_kept fst_conv)+

text \<open>
  Whatever Bluetooth commands are given, and whether or not Bluetooth starts, the
  bridge reads and writes the USB port: the mode that would route it to Bluetooth is never set
  after boot.\<close>

lemma bridge_stays_on_usb:
  "active_serial e' (foldl (\<lambda>b (e, re2, enable, st). fst (set_bt_mode_task J e re2 enable b st)) BtState_init cmds) = BRIDGE_SERIAL_USB"
proof -
  have "active_serial_mode (foldl (\<lambda>b (e, re2, enable, st). fst (set_bt_mode_task J e re2 enable b st)) b cmds) = active_serial_mode b" for b
  proof (induction cmds arbitrary: b)
    case (Cons c cmds)
    then show ?case by (cases c) (simp add: set_bt_mode_kept)
  qed simp
  then show ?thesis by (simp add: active_serial_def BtState_init_def)
qed

lemma bt_parse_config_ignores_file: "bt_parse_config json mac = bt_parse_config None mac"
  by (simp add: bt_parse_config_def)

end
