(* ===== verification/Web_Validate.thy ===== *)
theory Web_Validate
  imports Json_Api
begin

text \<open>
  Validation of web requests: \<open>src/src/web/web_validate.h\<close> (all of it).  C strings are lists of
  characters, \<open>None\<close> the null pointer; reading at the end of one gives its NUL.  The properties
  say what each scanner accepts in terms of the path, the cookie or the token it is given.
\<close>

section \<open>Limits and message bodies\<close>

definition WS_MAX_MESSAGE :: nat where "WS_MAX_MESSAGE = 2048"
definition PASSWORD_MIN_LEN :: nat where "PASSWORD_MIN_LEN = 8"
definition PASSWORD_MAX_LEN :: nat where "PASSWORD_MAX_LEN = 63"
definition SESSION_HEX_LEN :: nat where "SESSION_HEX_LEN = 32"

lemmas web_limits = WS_MAX_MESSAGE_def PASSWORD_MIN_LEN_def PASSWORD_MAX_LEN_def SESSION_HEX_LEN_def

datatype TxCheck = TX_OK | TX_MISSING | TX_BAD_JSON | TX_TOO_LARGE

fun tx_check_status :: "TxCheck \<Rightarrow> int" where
  "tx_check_status TX_MISSING = 400"
| "tx_check_status TX_BAD_JSON = 400"
| "tx_check_status TX_TOO_LARGE = 413"
| "tx_check_status TX_OK = 0"

definition or_empty :: "string option \<Rightarrow> string" where
  "or_empty s = (case s of None \<Rightarrow> [] | Some t \<Rightarrow> t)"

definition fill_lora_msg :: "string option \<Rightarrow> string option \<Rightarrow> string option \<Rightarrow> jdoc" where
  "fill_lora_msg name mac data =
     JObject [(''name'', JText (or_empty name)), (''mac'', JText (or_empty mac)), (''data'', JText (or_empty data))]"

definition lora_msg_wrapped_len :: "'v json_api \<Rightarrow> string option \<Rightarrow> string option \<Rightarrow> string option \<Rightarrow> nat" where
  "lora_msg_wrapped_len J name mac data = length (jser J (fill_lora_msg name mac data))"

text \<open>The 202 body; \<open>out\<close> is the size of the caller's buffer, \<open>None\<close> for a null pointer.\<close>

definition tx_accepted_body :: "u32 \<Rightarrow> u32 \<Rightarrow> nat option \<Rightarrow> string option" where
  "tx_accepted_body tx queued out =
     (case out of
        None \<Rightarrow> None
      | Some out_size \<Rightarrow>
          if out_size = 0 then None
          else
            let s = ''{\"id\":'' @ dec_nat (unat tx) @ '',\"queued\":'' @ dec_nat (unat queued) @ ''}''
            in if length s \<ge> out_size then None else Some s)"

text \<open>The verdict, with the wrapped length where it was computed (\<open>wrapped_out\<close>).\<close>

definition check_lora_transmit ::
  "'v json_api \<Rightarrow> string option \<Rightarrow> string option \<Rightarrow> string option \<Rightarrow> nat \<Rightarrow> TxCheck \<times> nat option" where
  "check_lora_transmit J data name mac max_payload =
     (case data of
        None \<Rightarrow> (TX_MISSING, None)
      | Some d \<Rightarrow>
          if d = [] then (TX_MISSING, None)
          else if length d > max_payload then (TX_TOO_LARGE, None)
          else
            let wrapped = lora_msg_wrapped_len J name mac data in
            if wrapped > max_payload then (TX_TOO_LARGE, Some wrapped)
            else
              (case jparse J d of
                 None \<Rightarrow> (TX_BAD_JSON, Some wrapped)
               | Some inner \<Rightarrow> if \<not> jobject J inner then (TX_BAD_JSON, Some wrapped) else (TX_OK, Some wrapped)))"

section \<open>Names and paths\<close>

definition is_allowed_config_name :: "string option \<Rightarrow> bool" where
  "is_allowed_config_name name =
     (case name of
        None \<Rightarrow> False
      | Some n \<Rightarrow> n \<in> set [''lora_config.json'', ''long_lora_config.json'', ''short_lora_config.json'',
                           ''config_list.json'', ''lora_serial.json'', ''wifi_config.json''])"

definition is_wifi_config_name :: "string option \<Rightarrow> bool" where
  "is_wifi_config_name name \<longleftrightarrow> name = Some ''wifi_config.json''"

definition ascii_lower :: "char \<Rightarrow> char" where
  "ascii_lower c = (if 65 \<le> (of_char c :: nat) \<and> (of_char c :: nat) \<le> 90 then char_of ((of_char c :: nat) - 65 + 97) else c)"

definition c_hd :: "string \<Rightarrow> char" where
  "c_hd s = (case s of [] \<Rightarrow> CHR 0x00 | c # cs \<Rightarrow> c)"

fun ieq_n :: "string \<Rightarrow> string \<Rightarrow> nat \<Rightarrow> bool" where
  "ieq_n a b 0 = True"
| "ieq_n a b (Suc n) = (if ascii_lower (c_hd a) \<noteq> ascii_lower (c_hd b) then False else ieq_n (tl a) (tl b) n)"

definition slash :: "char \<Rightarrow> bool" where
  "slash c \<longleftrightarrow> c = CHR ''/'' \<or> c = CHR 0x5C"

definition seg_char :: "char \<Rightarrow> bool" where
  "seg_char c \<longleftrightarrow> \<not> slash c \<and> c \<noteq> CHR ''?''"

text \<open>The loop of \<open>path_is_blocked\<close>, \<open>p\<close> the rest of the path.\<close>

function path_scan :: "bool \<Rightarrow> string \<Rightarrow> bool" where
  "path_scan first_real p =
     (if p = [] then False
      else
        let s = dropWhile slash p in
        if s = [] then False
        else
          let seg = takeWhile seg_char s; q = dropWhile seg_char s in
          if seg = ''.'' then path_scan first_real q
          else if seg = ''..'' then True
          else if first_real \<and> length seg = 6 \<and> ieq_n seg ''config'' 6 then True
          else if q \<noteq> [] \<and> hd q = CHR ''?'' then False
          else path_scan False q)"
  by pat_completeness auto

lemma dropWhile_shorter: "length (dropWhile P xs) \<le> length xs"
  by (rule length_dropWhile_le)

lemma seg_progress:
  assumes "s = dropWhile slash p" "s \<noteq> []" "takeWhile seg_char s = [] \<Longrightarrow> dropWhile seg_char s = [] \<or> hd (dropWhile seg_char s) \<noteq> CHR ''?''"
  shows "length (dropWhile seg_char s) < length p"
proof -
  have "length s \<le> length p" using assms(1) dropWhile_shorter by simp
  moreover have "seg_char (hd s)"
  proof (rule ccontr)
    assume n: "\<not> seg_char (hd s)"
    with assms(2) have "takeWhile seg_char s = []" "dropWhile seg_char s = s" by (cases s, simp_all)+
    with assms(2,3) have "hd s \<noteq> CHR ''?''" by auto
    moreover have "\<not> slash (hd s)" using assms(1,2) hd_dropWhile by blast
    ultimately show False using n by (simp add: seg_char_def)
  qed
  moreover have "length (dropWhile seg_char s) < length s" using assms(2) calculation(2)
    by (cases s) (auto simp: le_imp_less_Suc dropWhile_shorter)
  ultimately show ?thesis by simp
qed

termination path_scan
proof (relation "measure (\<lambda>(f, p). length p)", goal_cases)
  case (2 f p s seg q)
  have "length (dropWhile seg_char s) < length p" by (rule seg_progress) (use 2 in auto)
  with 2 show ?case by simp
next
  case (3 f p s seg q)
  have "length (dropWhile seg_char s) < length p" by (rule seg_progress) (use 3 in auto)
  with 3 show ?case by simp
qed simp

declare path_scan.simps [simp del]

definition path_is_blocked :: "string option \<Rightarrow> bool" where
  "path_is_blocked url = (case url of None \<Rightarrow> True | Some u \<Rightarrow> path_scan True u)"

text \<open>The part of a URL before its query string; the scanners below take its length \<open>n\<close> first.\<close>

definition path_part :: "string \<Rightarrow> string" where
  "path_part u = takeWhile (\<lambda>c. c \<noteq> CHR ''?'') u"

definition is_page_request :: "string option \<Rightarrow> bool" where
  "is_page_request url =
     (case url of
        None \<Rightarrow> False
      | Some u \<Rightarrow>
          if c_hd u \<noteq> CHR ''/'' then False
          else
            let n = length (path_part u) in
            if n = 1 then True
            else if n = 7 \<and> ieq_n u ''/update'' 7 then True
            else n > 5 \<and> ieq_n (drop (n - 5) u) ''.html'' 5)"

fun seg_start :: "string \<Rightarrow> nat \<Rightarrow> nat" where
  "seg_start u 0 = 0"
| "seg_start u (Suc k) = (if \<not> slash (u ! k) then seg_start u k else Suc k)"

fun dot_scan :: "string \<Rightarrow> nat \<Rightarrow> nat \<Rightarrow> nat \<Rightarrow> bool" where
  "dot_scan u n seg 0 = False"
| "dot_scan u n seg (Suc k) =
     (if \<not> Suc k > seg + 1 then False
      else if u ! k = CHR ''.'' then
        (if k = n - 1 then False else \<not> (n - k = 5 \<and> ieq_n (drop k u) ''.html'' 5))
      else dot_scan u n seg k)"

definition is_missing_asset :: "string option \<Rightarrow> bool" where
  "is_missing_asset url =
     (case url of
        None \<Rightarrow> False
      | Some u \<Rightarrow>
          let n = length (path_part u); seg = seg_start u n in dot_scan u n seg n)"

definition allowed_while_fs_offline :: "string option \<Rightarrow> bool" where
  "allowed_while_fs_offline url =
     (case url of
        None \<Rightarrow> False
      | Some u \<Rightarrow> path_part u \<in> set [''/update'', ''/update_flash'', ''/update_littlefs'', ''/hostname'', ''/api/auth/status''])"

text \<open>\<open>JsonDocument::remove\<close>, and the secrets of \<open>wifi_config.json\<close>.\<close>

fun jremove :: "string \<Rightarrow> (string \<times> jdoc) list \<Rightarrow> (string \<times> jdoc) list" where
  "jremove k [] = []"
| "jremove k (m # ms) = (if fst m = k then ms else m # jremove k ms)"

definition redact_wifi_config :: "jdoc \<Rightarrow> jdoc option" where
  "redact_wifi_config doc =
     (case doc of JObject ms \<Rightarrow> Some (JObject (jremove ''ap_pass'' (jremove ''wifi_pass'' ms))) | _ \<Rightarrow> None)"

definition origin_allowed :: "string option \<Rightarrow> string option \<Rightarrow> bool" where
  "origin_allowed origin host =
     (if origin = None \<or> origin = Some [] then True
      else if host = None \<or> host = Some [] then False
      else
        let o' = the origin; h = the host;
            a = (if ieq_n o' ''http://'' 7 \<and> length o' > 7 then Some (drop 7 o')
                 else if ieq_n o' ''https://'' 8 \<and> length o' > 8 then Some (drop 8 o')
                 else None) in
        (case a of
           None \<Rightarrow> False
         | Some a \<Rightarrow>
             let alen = (if length a > 0 \<and> a ! (length a - 1) = CHR ''/'' then length a - 1 else length a) in
             if alen \<noteq> length h then False else ieq_n a h alen))"

section \<open>WebSocket frames\<close>

definition ws_frame_start_ok :: "bool \<Rightarrow> u8 \<Rightarrow> u64 \<Rightarrow> nat \<Rightarrow> bool" where
  "ws_frame_start_ok final opcode total_len max_len \<longleftrightarrow>
     final \<and> opcode = 1 \<and> total_len > 0 \<and> unat total_len \<le> max_len"

definition ws_chunk_in_order :: "u64 \<Rightarrow> u64 \<Rightarrow> u64 \<Rightarrow> u64 \<Rightarrow> u32 \<Rightarrow> bool" where
  "ws_chunk_in_order received expected_total index total_len chunk_len \<longleftrightarrow>
     index = received \<and> total_len = expected_total \<and> chunk_len > 0 \<and>
     received + ucast chunk_len \<le> expected_total"

section \<open>Passwords, tokens and cookies\<close>

definition password_valid :: "string option \<Rightarrow> bool" where
  "password_valid p =
     (case p of None \<Rightarrow> False | Some s \<Rightarrow> length s \<ge> PASSWORD_MIN_LEN \<and> length s \<le> PASSWORD_MAX_LEN)"

definition is_hex_char :: "char \<Rightarrow> bool" where
  "is_hex_char c \<longleftrightarrow> c \<in> set ''0123456789abcdef''"

definition is_session_token :: "string option \<Rightarrow> nat \<Rightarrow> bool" where
  "is_session_token t n =
     (case t of None \<Rightarrow> False | Some s \<Rightarrow> n = SESSION_HEX_LEN \<and> list_all is_hex_char (take n s))"

definition trim_end :: "string \<Rightarrow> string" where
  "trim_end s = rev (dropWhile (\<lambda>c. c = CHR '' '') (rev s))"

definition cookie_skip :: "char \<Rightarrow> bool" where
  "cookie_skip c \<longleftrightarrow> c = CHR '' '' \<or> c = CHR '';'' \<or> c = CHR 0x09"

function cookie_scan :: "string \<Rightarrow> nat \<Rightarrow> string \<Rightarrow> string option" where
  "cookie_scan name out_size p =
     (if p = [] then None
      else
        let k0 = dropWhile cookie_skip p in
        if k0 = [] then None
        else
          let k = trim_end (takeWhile (\<lambda>c. c \<noteq> CHR ''='' \<and> c \<noteq> CHR '';'') k0);
              q = dropWhile (\<lambda>c. c \<noteq> CHR ''='' \<and> c \<noteq> CHR '';'') k0 in
          if c_hd q \<noteq> CHR ''='' then cookie_scan name out_size q
          else
            let v = trim_end (takeWhile (\<lambda>c. c \<noteq> CHR '';'') (tl q));
                r = dropWhile (\<lambda>c. c \<noteq> CHR '';'') (tl q) in
            if k = name then (if length v + 1 > out_size then None else Some v)
            else cookie_scan name out_size r)"
  by pat_completeness auto

lemma cookie_key_progress:
  assumes "k0 = dropWhile cookie_skip p" "k0 \<noteq> []"
    and "c_hd (dropWhile (\<lambda>c. c \<noteq> CHR ''='' \<and> c \<noteq> CHR '';'') k0) \<noteq> CHR ''=''"
  shows "length (dropWhile (\<lambda>c. c \<noteq> CHR ''='' \<and> c \<noteq> CHR '';'') k0) < length p"
proof -
  obtain c cs where k0: "k0 = c # cs" using assms(2) by (cases k0) auto
  have "\<not> cookie_skip c" using assms(1,2) hd_dropWhile [of cookie_skip p] by (metis k0 list.sel(1))
  then have "c \<noteq> CHR '';''" by (auto simp: cookie_skip_def)
  moreover have "c \<noteq> CHR ''=''" using assms(3) by (auto simp: k0 c_hd_def)
  ultimately have "length (dropWhile (\<lambda>c. c \<noteq> CHR ''='' \<and> c \<noteq> CHR '';'') k0) < length k0"
    by (simp add: k0 le_imp_less_Suc dropWhile_shorter)
  also have "length k0 \<le> length p" by (simp add: assms(1) dropWhile_shorter)
  finally show ?thesis .
qed

lemma cookie_value_progress:
  assumes "k0 = dropWhile cookie_skip p" "k0 \<noteq> []"
    and "q = dropWhile (\<lambda>c. c \<noteq> CHR ''='' \<and> c \<noteq> CHR '';'') k0" "c_hd q = CHR ''=''"
  shows "length (dropWhile (\<lambda>c. c \<noteq> CHR '';'') (tl q)) < length p"
proof -
  have "q \<noteq> []" using assms(4) by (auto simp: c_hd_def)
  then have "length (dropWhile (\<lambda>c. c \<noteq> CHR '';'') (tl q)) < length q"
    using dropWhile_shorter [of "\<lambda>c. c \<noteq> CHR '';''" "tl q"] by (cases q) auto
  also have "\<dots> \<le> length k0" by (simp add: assms(3) dropWhile_shorter)
  also have "\<dots> \<le> length p" by (simp add: assms(1) dropWhile_shorter)
  finally show ?thesis .
qed

termination cookie_scan
proof (relation "measure (\<lambda>(n, s, p). length p)", goal_cases)
  case (2 n s p k0 k q)
  then show ?case using cookie_key_progress [of k0 p] by simp
next
  case (3 n s p k0 k q v r)
  then show ?case using cookie_value_progress [of k0 p q] by simp
qed simp

declare cookie_scan.simps [simp del]

definition cookie_get :: "string option \<Rightarrow> string option \<Rightarrow> nat option \<Rightarrow> string option" where
  "cookie_get header name out =
     (case (header, name, out) of
        (Some h, Some n, Some out_size) \<Rightarrow> if out_size = 0 then None else cookie_scan n out_size h
      | _ \<Rightarrow> None)"

definition ct_equal :: "bytes \<Rightarrow> bytes \<Rightarrow> nat \<Rightarrow> bool" where
  "ct_equal a b n = (fold (\<lambda>i d. d OR (a ! i XOR b ! i)) [0..<n] 0 = 0)"

section \<open>Updates, queues, ids and logs\<close>

definition OTA_KEEP_FILES :: "string list" where
  "OTA_KEEP_FILES = [''/config/wifi_config.json'', ''/config/lora_config.json'',
     ''/config/user_data.json'', ''/config/lora_serial.json'']"

definition OTA_KEEP_COUNT :: nat where "OTA_KEEP_COUNT = length OTA_KEEP_FILES"
definition OTA_KEEP_MAX_BYTES :: nat where "OTA_KEEP_MAX_BYTES = 2048"

definition ota_keep_size_ok :: "bool \<Rightarrow> nat \<Rightarrow> bool" where
  "ota_keep_size_ok present sz \<longleftrightarrow> present \<and> sz > 0 \<and> sz \<le> OTA_KEEP_MAX_BYTES"

definition out_queue_admit :: "bool \<Rightarrow> nat \<Rightarrow> nat \<Rightarrow> bool" where
  "out_queue_admit to_ws spaces_free reserved =
     (if spaces_free = 0 then False else to_ws \<or> spaces_free > reserved)"

definition tx_id_after :: "u32 \<Rightarrow> u32" where
  "tx_id_after cur = (let n = cur + 1 in if n = 0 then 1 else n)"

definition log_char :: "char \<Rightarrow> char" where
  "log_char c = (if 0x20 \<le> (of_char c :: nat) \<and> (of_char c :: nat) < 0x7f then c else CHR ''?'')"

fun sanitize_loop :: "string \<Rightarrow> nat \<Rightarrow> nat \<Rightarrow> string" where
  "sanitize_loop [] j out_size = []"
| "sanitize_loop (c # cs) j out_size = (if j + 1 < out_size then log_char c # sanitize_loop cs (Suc j) out_size else [])"

text \<open>The text written before the NUL; \<open>None\<close> when the buffer has no room even for the NUL.\<close>

definition sanitize_for_log :: "string option \<Rightarrow> nat \<Rightarrow> string option" where
  "sanitize_for_log inp out_size =
     (if out_size = 0 then None
      else Some (case inp of None \<Rightarrow> [] | Some s \<Rightarrow> sanitize_loop s 0 out_size))"

section \<open>Case-insensitive comparison\<close>

definition lower :: "string \<Rightarrow> string" where
  "lower s = map ascii_lower s"

lemma length_lower [simp]: "length (lower s) = length s"
  by (simp add: lower_def)

lemma lower_Nil [simp]: "lower [] = []"
  by (simp add: lower_def)

lemma lower_append [simp]: "lower (s @ t) = lower s @ lower t"
  by (simp add: lower_def)

lemma lower_nul: "ascii_lower c = CHR 0x00 \<longleftrightarrow> c = CHR 0x00"
proof -
  have "(of_char (char_of ((of_char c :: nat) - 65 + 97)) :: nat) \<noteq> 0" if "65 \<le> (of_char c :: nat)" "(of_char c :: nat) \<le> 90"
    using that by simp
  moreover have "(of_char (CHR 0x00) :: nat) = 0" by simp
  ultimately have "(char_of ((of_char c :: nat) - 65 + 97)) \<noteq> CHR 0x00"
    if "65 \<le> (of_char c :: nat)" "(of_char c :: nat) \<le> 90"
    using that by metis
  then show ?thesis by (auto simp: ascii_lower_def)
qed

lemma ieq_n_take:
  "n \<le> length a \<Longrightarrow> n \<le> length b \<Longrightarrow> ieq_n a b n \<longleftrightarrow> lower (take n a) = lower (take n b)"
proof (induction n arbitrary: a b)
  case (Suc n)
  then show ?case by (cases a; cases b) (auto simp: c_hd_def lower_def)
qed (simp add: lower_def)

text \<open>The comparison never reads past the NUL of a string shorter than the constant it is compared with.\<close>

lemma ieq_n_prefix:
  assumes "CHR 0x00 \<notin> set b"
  shows "ieq_n a b (length b) \<longleftrightarrow> length b \<le> length a \<and> lower (take (length b) a) = lower b"
  using assms
proof (induction b arbitrary: a)
  case (Cons c b)
  have "ascii_lower (CHR 0x00) = CHR 0x00" by (simp add: lower_nul)
  moreover have "ascii_lower c \<noteq> CHR 0x00" using Cons.prems by (auto simp: lower_nul)
  ultimately show ?case using Cons by (cases a) (auto simp: c_hd_def lower_def)
qed (simp add: lower_def)

section \<open>Blocked paths\<close>

fun split_by :: "('a \<Rightarrow> bool) \<Rightarrow> 'a list \<Rightarrow> 'a list list" where
  "split_by P [] = [[]]"
| "split_by P (x # xs) = (if P x then [] # split_by P xs else (x # hd (split_by P xs)) # tl (split_by P xs))"

text \<open>The segments of a path that name something: the part before the query string, split at
  either slash, less the empty segments and the dots.\<close>

definition real_segments :: "string \<Rightarrow> string list" where
  "real_segments u = filter (\<lambda>s. s \<noteq> [] \<and> s \<noteq> ''.'') (split_by slash (path_part u))"

lemma split_by_nonempty [simp]: "split_by P xs \<noteq> []"
  by (cases xs) auto

lemma split_by_span:
  "split_by P xs = takeWhile (\<lambda>x. \<not> P x) xs # (case dropWhile (\<lambda>x. \<not> P x) xs of [] \<Rightarrow> [] | y # ys \<Rightarrow> split_by P ys)"
  by (induction xs) auto

lemma not_question_slash: "slash c \<Longrightarrow> c \<noteq> CHR ''?''"
  by (auto simp: slash_def)

lemma real_segments_slash: "slash c \<Longrightarrow> real_segments (c # p) = real_segments p"
  by (simp add: real_segments_def path_part_def not_question_slash)

lemma real_segments_skip: "real_segments (dropWhile slash p) = real_segments p"
  by (induction p) (auto simp: real_segments_slash)

lemma seg_char_takeWhile:
  "takeWhile (\<lambda>x. \<not> slash x) (path_part s) = takeWhile seg_char s"
  "dropWhile (\<lambda>x. \<not> slash x) (path_part s) = path_part (dropWhile seg_char s)"
  by (induction s) (auto simp: path_part_def seg_char_def not_question_slash)

lemma path_part_after:
  "path_part (dropWhile seg_char s) =
     (case dropWhile seg_char s of [] \<Rightarrow> [] | c # r \<Rightarrow> if c = CHR ''?'' then [] else c # path_part r)"
  by (cases "dropWhile seg_char s") (simp_all add: path_part_def del: dropWhile_eq_Nil_conv)

lemma dropWhile_seg_hd: "dropWhile seg_char s = c # r \<Longrightarrow> c \<noteq> CHR ''?'' \<Longrightarrow> slash c"
  by (metis hd_dropWhile list.distinct(1) list.sel(1) seg_char_def)

lemma real_segments_step:
  "real_segments s =
     (let seg = takeWhile seg_char s in if seg = [] \<or> seg = ''.'' then [] else [seg]) @ real_segments (dropWhile seg_char s)"
proof (cases "dropWhile seg_char s")
  case Nil
  then have "path_part (dropWhile seg_char s) = []" by (simp add: path_part_def del: dropWhile_eq_Nil_conv)
  then show ?thesis
    by (simp add: real_segments_def split_by_span [of slash "path_part s"] seg_char_takeWhile Let_def)
next
  case (Cons c r)
  show ?thesis
  proof (cases "c = CHR ''?''")
    case True
    with Cons show ?thesis
      by (simp add: real_segments_def split_by_span [of slash "path_part s"] seg_char_takeWhile path_part_after)
        (simp add: path_part_def Let_def)
  next
    case False
    with Cons have c: "slash c" by (rule dropWhile_seg_hd)
    with Cons False have "real_segments (dropWhile seg_char s) = real_segments r" by (simp add: real_segments_slash)
    moreover have "path_part (c # r) = c # path_part r" using False by (simp add: path_part_def)
    ultimately show ?thesis using Cons False
      by (simp add: real_segments_def [of s] real_segments_def [of r] split_by_span [of slash "path_part s"]
          seg_char_takeWhile path_part_after Let_def)
  qed
qed

lemma path_scan_step:
  assumes "p \<noteq> []" "dropWhile slash p \<noteq> []"
  shows "path_scan f p =
    (let seg = takeWhile seg_char (dropWhile slash p); q = dropWhile seg_char (dropWhile slash p) in
     if seg = ''.'' then path_scan f q else if seg = ''..'' then True
     else if f \<and> length seg = 6 \<and> ieq_n seg ''config'' 6 then True
     else if q \<noteq> [] \<and> hd q = CHR ''?'' then False else path_scan False q)"
  by (subst path_scan.simps) (simp only: assms Let_def if_False)

lemma config_segment: "length seg = 6 \<and> ieq_n seg ''config'' 6 \<longleftrightarrow> lower seg = ''config''"
proof -
  have l: "lower ''config'' = ''config''" by (simp add: lower_def ascii_lower_def)
  have "ieq_n seg ''config'' 6 \<longleftrightarrow> 6 \<le> length seg \<and> lower (take 6 seg) = ''config''"
    using ieq_n_prefix [of "''config''" seg] unfolding l by (simp del: ieq_n.simps add: eval_nat_numeral)
  moreover have "length seg = 6" if "lower seg = ''config''" using that length_lower [of seg] by simp
  ultimately show ?thesis by auto
qed

text \<open>No segment where one should begin: the query string follows.\<close>

lemma no_segment:
  assumes "s = dropWhile slash p" "s \<noteq> []" "takeWhile seg_char s = []"
  shows "dropWhile seg_char s \<noteq> [] \<and> hd (dropWhile seg_char s) = CHR ''?''"
proof -
  have "\<not> slash (hd s)" using assms(1,2) hd_dropWhile by blast
  then show ?thesis using assms(2,3) by (cases s) (auto simp: seg_char_def split: if_splits)
qed

lemma query_no_segments: "q \<noteq> [] \<Longrightarrow> hd q = CHR ''?'' \<Longrightarrow> real_segments q = []"
  by (cases q) (simp_all add: real_segments_def path_part_def)

lemma path_scan_iff:
  "path_scan f p \<longleftrightarrow> ''..'' \<in> set (real_segments p) \<or>
     f \<and> (\<exists>s rest. real_segments p = s # rest \<and> lower s = ''config'')"
proof (induction f p rule: path_scan.induct)
  case (1 f p)
  define s where "s = dropWhile slash p"
  define seg where "seg = takeWhile seg_char s"
  define q where "q = dropWhile seg_char s"
  have rs: "real_segments p = (if seg = [] \<or> seg = ''.'' then [] else [seg]) @ real_segments q"
    using real_segments_step [of s] real_segments_skip [of p] by (simp add: s_def seg_def q_def Let_def)
  note IH = 1 [OF _ s_def _ seg_def q_def]
  show ?case
  proof (cases "p = [] \<or> s = []")
    case True
    have "real_segments s = real_segments p" unfolding s_def by (rule real_segments_skip)
    with True have "real_segments p = []" by (auto simp: real_segments_def path_part_def)
    with True show ?thesis by (subst path_scan.simps) (auto simp: s_def)
  next
    case False
    let ?cfg = "f \<and> lower seg = ''config''"
    have step: "path_scan f p = (if seg = ''.'' then path_scan f q else if seg = ''..'' then True
        else if ?cfg then True else if q \<noteq> [] \<and> hd q = CHR ''?'' then False else path_scan False q)"
      using False path_scan_step [of p f] config_segment [of seg]
      by (simp only: s_def seg_def q_def Let_def de_Morgan_disj simp_thms)
    have no_seg: "seg = [] \<Longrightarrow> q \<noteq> [] \<and> hd q = CHR ''?''"
      using no_segment [OF s_def] False by (simp add: seg_def q_def)
    have cfg: "f \<and> length seg = 6 \<and> ieq_n seg ''config'' 6 \<longleftrightarrow> ?cfg"
      using config_segment [of seg] by blast
    have dots: "lower ''..'' \<noteq> ''config''" "lower ''.'' \<noteq> ''config''" "lower [] \<noteq> ''config''"
      by (simp_all add: lower_def)
    consider "seg = ''.''" | "seg = ''..''" | "seg \<noteq> ''.''" "seg \<noteq> ''..''" "?cfg"
      | "seg \<noteq> ''.''" "seg \<noteq> ''..''" "\<not> ?cfg" "q \<noteq> [] \<and> hd q = CHR ''?''"
      | "seg \<noteq> ''.''" "seg \<noteq> ''..''" "\<not> ?cfg" "\<not> (q \<noteq> [] \<and> hd q = CHR ''?'')" "seg \<noteq> []"
      using no_seg by blast
    then show ?thesis
    proof cases
      case 1
      then show ?thesis using IH(1) False by (simp add: step rs)
    next
      case 4
      then have "real_segments q = []" using query_no_segments by blast
      then show ?thesis unfolding step using 4 by (simp add: rs dots)
    next
      case 5
      then have "path_scan False q \<longleftrightarrow> ''..'' \<in> set (real_segments q)"
        using IH(2) False by (simp add: cfg)
      then show ?thesis unfolding step if_not_P [OF 5(3)] using 5 by (auto simp: rs)
    next
      case 2
      then show ?thesis by (simp add: step rs)
    next
      case 3
      then have "seg \<noteq> []" using dots by auto
      then show ?thesis unfolding step using 3 by (simp add: rs)
    qed
  qed
qed

text \<open>
  C18 (path_is_blocked_iff). A request path is refused exactly when one of its segments is \<open>..\<close> or its first
  real segment is \<open>config\<close> in any case, however many slashes or backslashes, dot segments and
  whatever query string surround it.\<close>

theorem path_is_blocked_iff:
  "path_is_blocked (Some u) \<longleftrightarrow>
     ''..'' \<in> set (real_segments u) \<or> (\<exists>s rest. real_segments u = s # rest \<and> lower s = ''config'')"
  by (simp add: path_is_blocked_def path_scan_iff)

section \<open>Origins\<close>

lemma http_origin_iff:
  assumes "CHR 0x00 \<notin> set pre"
  shows "ieq_n o' pre (length pre) \<and> length o' > length pre \<longleftrightarrow>
    (\<exists>a. lower (take (length pre) o') = lower pre \<and> a = drop (length pre) o' \<and> a \<noteq> [])"
  using ieq_n_prefix [OF assms, of o'] by auto

definition origin_host :: "string \<Rightarrow> string" where
  "origin_host a = (if a \<noteq> [] \<and> last a = CHR ''/'' then butlast a else a)"

text \<open>The origin is of the given host: its scheme is http or https, in any case, and the rest, less
  one final slash, is the host in any case.\<close>

definition same_origin :: "string \<Rightarrow> string \<Rightarrow> bool" where
  "same_origin o' h \<longleftrightarrow>
     (\<exists>pre a. (lower pre = ''http://'' \<or> lower pre = ''https://'') \<and> o' = pre @ a \<and> lower (origin_host a) = lower h)"

lemma host_match:
  "(let alen = (if length a > 0 \<and> a ! (length a - 1) = CHR ''/'' then length a - 1 else length a) in
      if alen \<noteq> length h then False else ieq_n a h alen) \<longleftrightarrow> lower (origin_host a) = lower h"
proof -
  define alen where "alen = (if length a > 0 \<and> a ! (length a - 1) = CHR ''/'' then length a - 1 else length a)"
  have o1: "origin_host a = take alen a" "alen \<le> length a"
    by (auto simp: origin_host_def alen_def last_conv_nth butlast_conv_take)
  have l: "(let alen = alen in if alen \<noteq> length h then False else ieq_n a h alen) \<longleftrightarrow> alen = length h \<and> ieq_n a h alen"
    by (simp add: Let_def)
  have "alen = length h \<and> ieq_n a h alen \<longleftrightarrow> alen = length h \<and> lower (take alen a) = lower h"
    using ieq_n_take [of alen a h] o1(2) by auto
  also have "\<dots> \<longleftrightarrow> lower (take alen a) = lower h"
    using o1(2) length_lower [of "take alen a"] length_lower [of h] by (metis length_take min.absorb2)
  finally show ?thesis unfolding alen_def [symmetric] l o1(1) .
qed

lemma lower_prefixes:
  "lower ''http://'' = ''http://''" "lower ''https://'' = ''https://''"
  by (simp_all add: lower_def ascii_lower_def)

text \<open>The two schemes exclude each other at the fifth character.\<close>

lemma ieq_http:
  "ieq_n o' ''http://'' 7 \<longleftrightarrow> 7 \<le> length o' \<and> lower (take 7 o') = ''http://''"
  "ieq_n o' ''https://'' 8 \<longleftrightarrow> 8 \<le> length o' \<and> lower (take 8 o') = ''https://''"
  using ieq_n_prefix [of "''http://''" o'] ieq_n_prefix [of "''https://''" o']
  unfolding lower_prefixes by (simp_all del: ieq_n.simps add: eval_nat_numeral)

lemma schemes_exclusive: "lower (take 8 o') = ''https://'' \<Longrightarrow> lower (take 7 o') \<noteq> ''http://''"
  by (cases o'; cases "tl o'"; cases "tl (tl o')"; cases "tl (tl (tl o'))"; cases "tl (tl (tl (tl o')))")
    (auto simp: lower_def)

lemma same_origin_iff:
  assumes "h \<noteq> []"
  shows "same_origin o' h \<longleftrightarrow>
    7 < length o' \<and> lower (take 7 o') = ''http://'' \<and> lower (origin_host (drop 7 o')) = lower h \<or>
    8 < length o' \<and> lower (take 8 o') = ''https://'' \<and> lower (origin_host (drop 8 o')) = lower h"
  (is "_ \<longleftrightarrow> ?r")
proof
  assume "same_origin o' h"
  then obtain pre a where p: "lower pre = ''http://'' \<or> lower pre = ''https://''" "o' = pre @ a"
    "lower (origin_host a) = lower h" by (auto simp: same_origin_def)
  from p(3) assms have "a \<noteq> []" by (auto simp: origin_host_def lower_def)
  moreover have "length pre = 7 \<and> lower pre = ''http://'' \<or> length pre = 8 \<and> lower pre = ''https://''"
    unfolding length_lower [of pre, symmetric] using p(1) by (auto simp del: length_lower)
  ultimately show ?r using p by auto
next
  assume ?r
  then show "same_origin o' h" unfolding same_origin_def by (metis append_take_drop_id)
qed

text \<open>
  C19 (origin_allowed_iff). A request that carries an Origin header is let through exactly when the origin is
  http or https on the very host (and port) the request was addressed to; in particular
  \<open>null\<close>, other schemes and other hosts are refused.\<close>

theorem origin_allowed_iff:
  assumes "orig \<noteq> []" and "h \<noteq> []"
  shows "origin_allowed (Some orig) (Some h) \<longleftrightarrow> same_origin orig h"
proof -
  define a where "a = (if ieq_n orig ''http://'' 7 \<and> length orig > 7 then Some (drop 7 orig)
    else if ieq_n orig ''https://'' 8 \<and> length orig > 8 then Some (drop 8 orig) else None)"
  have "origin_allowed (Some orig) (Some h) \<longleftrightarrow> (case a of None \<Rightarrow> False | Some a \<Rightarrow> lower (origin_host a) = lower h)"
    using assms unfolding origin_allowed_def option.sel host_match Let_def [of orig] Let_def [of h] a_def [symmetric]
    by (simp only: Let_def [of a] option.inject option.distinct simp_thms if_False)
  also have "\<dots> \<longleftrightarrow> same_origin orig h"
    unfolding a_def same_origin_iff [OF assms(2)] ieq_http using schemes_exclusive [of orig] by (auto split: if_splits)
  finally show ?thesis .
qed

theorem origin_allowed_iff_witness:
  "origin_allowed (Some ''HTTP://voyager.local/'') (Some ''Voyager.local'') \<and>
   \<not> origin_allowed (Some ''null'') (Some ''voyager.local'')"
proof -
  have "same_origin ''HTTP://voyager.local/'' ''Voyager.local''"
    by (simp add: same_origin_iff origin_host_def lower_def ascii_lower_def char_of_def bit_iff_odd)
  moreover have "\<not> same_origin ''null'' ''voyager.local''" by (simp add: same_origin_iff)
  ultimately show ?thesis by (simp add: origin_allowed_iff)
qed

section \<open>Cookies\<close>

text \<open>A name as it may stand in a cookie, and a value that comes back as it was set.\<close>

definition cookie_name_ok :: "string \<Rightarrow> bool" where
  "cookie_name_ok k \<longleftrightarrow> k \<noteq> [] \<and> (\<forall>c \<in> set k. c \<noteq> CHR ''='' \<and> c \<noteq> CHR '';'' \<and> c \<noteq> CHR '' '' \<and> c \<noteq> CHR 0x09)"

definition cookie_value_ok :: "string \<Rightarrow> bool" where
  "cookie_value_ok v \<longleftrightarrow> (\<forall>c \<in> set v. c \<noteq> CHR '';'' \<and> c \<noteq> CHR '' '')"

text \<open>The Cookie header a browser sends.\<close>

fun cookie_header :: "(string \<times> string) list \<Rightarrow> string" where
  "cookie_header [] = []"
| "cookie_header [(k, v)] = k @ ''='' @ v"
| "cookie_header ((k, v) # m # ms) = k @ ''='' @ v @ ''; '' @ cookie_header (m # ms)"

lemma trim_end_id: "(\<forall>c \<in> set s. c \<noteq> CHR '' '') \<Longrightarrow> trim_end s = s"
  by (cases s rule: rev_cases) (auto simp: trim_end_def)

lemma cookie_scan_first:
  assumes "cookie_name_ok k" "cookie_value_ok v" "r = [] \<or> hd r = CHR '';''"
  shows "cookie_scan name n (k @ CHR ''='' # v @ r) =
    (if k = name then (if length v + 1 > n then None else Some v) else cookie_scan name n r)"
proof -
  obtain c cs where k: "k = c # cs" using assms(1) by (cases k) (auto simp: cookie_name_ok_def)
  have skip: "dropWhile cookie_skip (k @ CHR ''='' # v @ r) = k @ CHR ''='' # v @ r"
    using assms(1) by (simp add: k cookie_name_ok_def cookie_skip_def)
  have tw: "takeWhile (\<lambda>c. c \<noteq> CHR ''='' \<and> c \<noteq> CHR '';'') (k @ CHR ''='' # v @ r) = k"
    and dw: "dropWhile (\<lambda>c. c \<noteq> CHR ''='' \<and> c \<noteq> CHR '';'') (k @ CHR ''='' # v @ r) = CHR ''='' # v @ r"
    using assms(1) by (auto simp: cookie_name_ok_def takeWhile_append2 dropWhile_append2)
  have tv: "takeWhile (\<lambda>c. c \<noteq> CHR '';'') (v @ r) = v" and dv: "dropWhile (\<lambda>c. c \<noteq> CHR '';'') (v @ r) = r"
    using assms(2,3) by (cases r; auto simp: cookie_value_ok_def takeWhile_append2 dropWhile_append2)+
  have "trim_end k = k" "trim_end v = v"
    using assms(1,2) by (auto simp: cookie_name_ok_def cookie_value_ok_def intro!: trim_end_id)
  then show ?thesis
    by (subst cookie_scan.simps) (simp add: skip tw dw tv dv Let_def c_hd_def)
qed

lemma cookie_scan_skip: "cookie_scan name n ('';'' @ '' '' @ p) = cookie_scan name n p"
proof (cases p)
  case Nil
  then show ?thesis by (simp add: cookie_scan.simps [of name n "''; ''"] cookie_scan.simps [of name n "[]"] cookie_skip_def)
next
  case (Cons c cs)
  then show ?thesis
    by (subst (1 2) cookie_scan.simps) (simp add: cookie_skip_def)
qed

lemma cookie_scan_header:
  assumes "list_all (\<lambda>(k, v). cookie_name_ok k \<and> cookie_value_ok v) cs"
  shows "cookie_scan name n (cookie_header cs) =
    (case map_of cs name of None \<Rightarrow> None | Some v \<Rightarrow> if length v + 1 > n then None else Some v)"
  using assms
proof (induction cs rule: cookie_header.induct)
  case 1
  show ?case by (simp add: cookie_scan.simps)
next
  case (2 k v)
  then show ?case using cookie_scan_first [of k v "[]" name n] by (simp add: cookie_scan.simps [of _ _ "[]"])
next
  case (3 k v m ms)
  then show ?case
    using cookie_scan_first [of k v "''; '' @ cookie_header (m # ms)" name n]
      cookie_scan_skip [of name n "cookie_header (m # ms)"] by simp
qed

text \<open>
  Of the cookies in a header the one asked for is found wherever it stands, with
  exactly its value, the first if several have the name; a value that does not fit the
  caller's buffer with its NUL is not delivered.\<close>

lemma cookie_get_header:
  assumes "list_all (\<lambda>(k, v). cookie_name_ok k \<and> cookie_value_ok v) cs" and "0 < n"
  shows "cookie_get (Some (cookie_header cs)) (Some name) (Some n) =
    (case map_of cs name of None \<Rightarrow> None | Some v \<Rightarrow> if length v + 1 > n then None else Some v)"
  using assms by (simp add: cookie_get_def cookie_scan_header)

section \<open>Tokens, ids, logs and secrets\<close>

lemma ct_fold: "fold (\<lambda>i d. d OR (a ! i XOR b ! i)) xs d = 0 \<longleftrightarrow> (d :: u8) = 0 \<and> (\<forall>i \<in> set xs. a ! i = b ! i)"
proof (induction xs arbitrary: d)
  case (Cons i xs)
  have "d OR (a ! i XOR b ! i) = 0 \<longleftrightarrow> d = 0 \<and> a ! i = b ! i" by (metis or_eq_0_iff xor_self_eq bit.xor_left_self xor.right_neutral)
  then show ?case by (auto simp: Cons)
qed simp

text \<open>The constant-time comparison is equality of the first \<open>n\<close> bytes.\<close>

lemma ct_equal_iff: "n \<le> length a \<Longrightarrow> n \<le> length b \<Longrightarrow> ct_equal a b n \<longleftrightarrow> take n a = take n b"
  by (auto simp: ct_equal_def ct_fold list_eq_iff_nth_eq)

lemma tx_id_after_nonzero: "tx_id_after cur \<noteq> 0"
  by (simp add: tx_id_after_def Let_def)

lemma sanitize_loop_bound: "length (sanitize_loop s j n) + j \<le> max j (n - 1)"
  by (induction s j n rule: sanitize_loop.induct) auto

lemma log_char_printable: "0x20 \<le> (of_char (log_char c) :: nat) \<and> (of_char (log_char c) :: nat) < 0x7f"
  by (simp add: log_char_def)

lemma sanitize_loop_printable: "list_all (\<lambda>c. 0x20 \<le> (of_char c :: nat) \<and> (of_char c :: nat) < 0x7f) (sanitize_loop s j n)"
  by (induction s j n rule: sanitize_loop.induct) (simp_all add: log_char_printable)

lemma sanitize_fits: "sanitize_for_log s n = Some t \<Longrightarrow> length t < n"
  using sanitize_loop_bound [of "the s" 0 n] by (auto simp: sanitize_for_log_def split: if_splits option.splits)

lemma jremove_not_in: "distinct (map fst ms) \<Longrightarrow> k \<notin> fst ` set (jremove k ms)"
  by (induction ms) (auto simp: image_iff)

lemma jremove_subset: "set (jremove k ms) \<subseteq> set ms"
  by (induction ms) auto

lemma jremove_distinct: "distinct (map fst ms) \<Longrightarrow> distinct (map fst (jremove k ms))"
proof (induction ms)
  case (Cons m ms)
  have "fst ` set (jremove k ms) \<subseteq> fst ` set ms" using jremove_subset by (rule image_mono)
  with Cons show ?case by auto
qed simp

text \<open>An object (whose member names are distinct, as the JSON library keeps them) loses both secrets and nothing else.\<close>

lemma redact_no_secrets:
  assumes "distinct (map fst ms)"
  shows "\<exists>ms'. redact_wifi_config (JObject ms) = Some (JObject ms') \<and> ''wifi_pass'' \<notin> fst ` set ms' \<and>
    ''ap_pass'' \<notin> fst ` set ms' \<and> set ms' \<subseteq> set ms"
proof -
  have "''ap_pass'' \<notin> fst ` set (jremove ''ap_pass'' (jremove ''wifi_pass'' ms))"
    using assms by (intro jremove_not_in jremove_distinct)
  moreover have "''wifi_pass'' \<notin> fst ` set (jremove ''ap_pass'' (jremove ''wifi_pass'' ms))"
    using jremove_not_in [OF assms, of "''wifi_pass''"] jremove_subset [of "''ap_pass''" "jremove ''wifi_pass'' ms"] by blast
  moreover have "set (jremove ''ap_pass'' (jremove ''wifi_pass'' ms)) \<subseteq> set ms"
    using jremove_subset by (blast intro: order_trans)
  ultimately show ?thesis by (simp add: redact_wifi_config_def)
qed

end
