(* ===== verification/Auth.thy ===== *)
theory Auth
  imports Web_Validate
begin

text \<open>
  The administrator's password and the browser sessions: \<open>src/src/web/auth.cpp\<close>.  The state is
  the four static variables and the stored string of the settings partition; MD5, the random
  numbers, the outcome of the storage calls and the HTTP Digest check of the web server
  library are parameters.
\<close>

section \<open>State\<close>

definition AUTH_MAX_SESSIONS :: nat where "AUTH_MAX_SESSIONS = 4"
definition AUTH_USER :: string where "AUTH_USER = ''admin''"
definition AUTH_REALM :: string where "AUTH_REALM = ''Voyager''"

text \<open>\<open>g_ha1\<close> and the sessions are C strings in arrays of 33 bytes; an empty one means none.\<close>

record AuthState =
  g_ha1 :: string
  g_loaded :: bool
  g_sessions :: "string list"
  g_next_slot :: nat

definition AuthState_init :: AuthState where
  "AuthState_init = \<lparr>g_ha1 = [], g_loaded = False, g_sessions = replicate AUTH_MAX_SESSIONS [], g_next_slot = 0\<rparr>"

text \<open>
  What the settings partition does: whether it opens, the string under the key (with the
  length \<open>getString\<close> returned), and what \<open>putString\<close> returned.
\<close>

record nvs_env =
  nvs_begin :: bool
  nvs_key :: "(string \<times> nat) option"
  nvs_put :: nat

datatype nvs_op = PutHa1 string | RemoveHa1

definition clear_sessions_locked :: "AuthState \<Rightarrow> AuthState" where
  "clear_sessions_locked a = a\<lparr>g_sessions := replicate AUTH_MAX_SESSIONS [], g_next_slot := 0\<rparr>"

definition auth_init :: "nvs_env \<Rightarrow> AuthState \<Rightarrow> AuthState" where
  "auth_init e a =
     (let buf = (if nvs_begin e then
                   (case nvs_key e of
                      None \<Rightarrow> []
                    | Some (s, n) \<Rightarrow> if n \<noteq> 33 \<and> length s \<noteq> 32 then [] else s)
                 else []);
          buf = (if length buf \<noteq> 32 then [] else buf)
      in a\<lparr>g_ha1 := buf, g_loaded := True\<rparr>)"

definition ensure_loaded :: "nvs_env \<Rightarrow> AuthState \<Rightarrow> AuthState" where
  "ensure_loaded e a = (if \<not> g_loaded a then auth_init e a else a)"

definition copy_ha1 :: "nvs_env \<Rightarrow> AuthState \<Rightarrow> AuthState \<times> string" where
  "copy_ha1 e a = (let a = ensure_loaded e a in (a, g_ha1 a))"

definition auth_is_set :: "nvs_env \<Rightarrow> AuthState \<Rightarrow> AuthState \<times> bool" where
  "auth_is_set e a = (let a = ensure_loaded e a in (a, g_ha1 a \<noteq> []))"

text \<open>Setting the password: the stored value is the digest \<open>HA1\<close>; memory follows only a successful store.\<close>

definition auth_set :: "(string \<Rightarrow> string) \<Rightarrow> nvs_env \<Rightarrow> AuthState \<Rightarrow> string option \<Rightarrow> AuthState \<times> nvs_op list \<times> bool" where
  "auth_set md e a password =
     (if \<not> password_valid password then (a, [], False)
      else
        let ha1 = md (AUTH_USER @ '':'' @ AUTH_REALM @ '':'' @ the password);
            ops = (if nvs_begin e then [PutHa1 ha1] else []);
            ok = (nvs_begin e \<and> nvs_put e = 32) in
        (if ok then clear_sessions_locked (a\<lparr>g_ha1 := ha1, g_loaded := True\<rparr>) else a, ops, ok))"

definition auth_clear :: "nvs_env \<Rightarrow> AuthState \<Rightarrow> AuthState \<times> nvs_op list" where
  "auth_clear e a =
     (clear_sessions_locked (a\<lparr>g_ha1 := [], g_loaded := True\<rparr>), if nvs_begin e then [RemoveHa1] else [])"

section \<open>Sessions\<close>

definition hex_digit :: "u32 \<Rightarrow> char" where
  "hex_digit r = ''0123456789abcdef'' ! unat (r AND 0xF)"

fun hex_word :: "nat \<Rightarrow> u32 \<Rightarrow> string" where
  "hex_word 0 r = []"
| "hex_word (Suc n) r = hex_digit r # hex_word n (drop_bit 4 r)"

text \<open>A token is 32 hexadecimal digits of the four random words \<open>r\<close>.\<close>

definition session_token :: "u32 list \<Rightarrow> string" where
  "session_token r = concat (map (\<lambda>w. hex_word 8 (r ! w)) [0..<4])"

definition auth_session_create :: "u32 list \<Rightarrow> nvs_env \<Rightarrow> AuthState \<Rightarrow> AuthState \<times> string option" where
  "auth_session_create r e a =
     (let (a, set) = auth_is_set e a in
      if \<not> set then (a, None)
      else
        let out = session_token r in
        (a\<lparr>g_sessions := (g_sessions a)[g_next_slot a := out],
           g_next_slot := (g_next_slot a + 1) mod AUTH_MAX_SESSIONS\<rparr>, Some out))"

definition slot_matches :: "AuthState \<Rightarrow> string \<Rightarrow> nat \<Rightarrow> bool" where
  "slot_matches a token i \<longleftrightarrow>
     g_sessions a ! i \<noteq> [] \<and> ct_equal (str_bytes (g_sessions a ! i)) (str_bytes token) 32"

definition session_valid :: "AuthState \<Rightarrow> string \<Rightarrow> bool" where
  "session_valid a token =
     (if \<not> is_session_token (Some token) (length token) then False
      else list_ex (slot_matches a token) [0..<AUTH_MAX_SESSIONS])"

definition auth_session_revoke :: "AuthState \<Rightarrow> string option \<Rightarrow> AuthState" where
  "auth_session_revoke a token =
     (case token of
        None \<Rightarrow> a
      | Some t \<Rightarrow>
          if length t \<noteq> 32 then a
          else a\<lparr>g_sessions := map (\<lambda>i. if slot_matches a t i then [] else g_sessions a ! i) [0..<AUTH_MAX_SESSIONS]\<rparr>)"

section \<open>Requests\<close>

text \<open>
  A request as the check sees it: its Cookie and Authorization headers and the library's
  \<open>authenticate(user, hash, realm, passwordIsHash)\<close> on it.
\<close>

record auth_request =
  rq_cookie :: "string option"
  rq_authorization :: "string option"
  rq_authenticate :: "string \<Rightarrow> string \<Rightarrow> string \<Rightarrow> bool \<Rightarrow> bool"

definition AUTH_SESSION_COOKIE :: string where "AUTH_SESSION_COOKIE = ''vsid''"

definition equals_ignore_case :: "string \<Rightarrow> string \<Rightarrow> bool" where
  "equals_ignore_case s t \<longleftrightarrow> lower s = lower t"

definition auth_check :: "nvs_env \<Rightarrow> AuthState \<Rightarrow> auth_request option \<Rightarrow> AuthState \<times> bool" where
  "auth_check e a request =
     (case request of
        None \<Rightarrow> (a, False)
      | Some rq \<Rightarrow>
          let (a, set) = auth_is_set e a in
          if \<not> set then (a, False)
          else if (case rq_cookie rq of
                     None \<Rightarrow> False
                   | Some h \<Rightarrow> (case cookie_get (Some h) (Some AUTH_SESSION_COOKIE) (Some 40) of
                                 None \<Rightarrow> False
                               | Some tok \<Rightarrow> session_valid a tok)) then (a, True)
          else
            (case rq_authorization rq of
               None \<Rightarrow> (a, False)
             | Some v \<Rightarrow>
                 if length v < 7 \<or> \<not> equals_ignore_case (take 6 v) ''Digest'' then (a, False)
                 else
                   let (a, ha1) = copy_ha1 e a in
                   (a, ha1 \<noteq> [] \<and> rq_authenticate rq AUTH_USER ha1 AUTH_REALM True)))"

datatype auth_reply = SetupRequired403 | Challenge string

definition auth_require :: "nvs_env \<Rightarrow> AuthState \<Rightarrow> auth_request option \<Rightarrow> AuthState \<times> bool \<times> auth_reply list" where
  "auth_require e a request =
     (let (a, set) = auth_is_set e a in
      if \<not> set then (a, False, [SetupRequired403])
      else
        let (a, ok) = auth_check e a request in
        if ok then (a, True, []) else (a, False, [Challenge AUTH_REALM]))"

section \<open>Tokens\<close>

lemma hex_digit_ok: "is_hex_char (hex_digit r)"
proof -
  have "unat (r AND 0xF) < 16"
  proof -
    have "r AND 0xF = take_bit 4 r" by (simp add: take_bit_eq_mask mask_eq_exp_minus_1)
    then have "unat (r AND 0xF) = take_bit 4 (unat r)" by (simp add: unsigned_take_bit_eq)
    then show ?thesis by (simp add: take_bit_eq_mod)
  qed
  moreover have "length ''0123456789abcdef'' = 16" by simp
  ultimately show ?thesis unfolding is_hex_char_def hex_digit_def by (intro nth_mem) (simp only:)
qed

lemma hex_word_ok: "length (hex_word n r) = n" "list_all is_hex_char (hex_word n r)"
  by (induction n arbitrary: r) (simp_all add: hex_digit_ok)

lemma session_token_ok: "length (session_token r) = 32" "list_all is_hex_char (session_token r)"
  by (simp_all add: session_token_def hex_word_ok upt_rec)

lemma session_token_is_token: "is_session_token (Some (session_token r)) 32"
  using session_token_ok [of r] by (simp add: is_session_token_def web_limits)

lemma str_bytes_inject: "str_bytes s = str_bytes t \<longleftrightarrow> s = t"
proof
  assume "str_bytes s = str_bytes t"
  then have "map chr_of (str_bytes s) = map chr_of (str_bytes t)" by simp
  then show "s = t" by (simp add: str_bytes_def comp_def)
qed simp

lemma ct_equal_strings: "length s = 32 \<Longrightarrow> length t = 32 \<Longrightarrow> ct_equal (str_bytes s) (str_bytes t) 32 \<longleftrightarrow> s = t"
  by (subst ct_equal_iff) (simp_all add: str_bytes_inject)

section \<open>The session table as a window over the sessions issued\<close>

text \<open>
  The abstract view: the sessions issued since the last change of password, newest first, each
  with whether it is still good.  \<open>slots\<close> is the table that has been written in that order.
\<close>

type_synonym session_log = "(string \<times> bool) list"

fun slots :: "session_log \<Rightarrow> string list" where
  "slots [] = replicate 4 []"
| "slots ((t, b) # lg) = (slots lg)[length lg mod 4 := if b then t else []]"

definition session_inv :: "AuthState \<Rightarrow> session_log \<Rightarrow> bool" where
  "session_inv a lg \<longleftrightarrow> g_sessions a = slots lg \<and> g_next_slot a = length lg mod 4 \<and> g_loaded a \<and>
     list_all (\<lambda>(t, b). length t = 32) lg"

datatype auth_op =
    NewSession "u32 list"
  | Revoke string
  | SetPassword nvs_env string
  | FactoryReset nvs_env

text \<open>The state is loaded, so the settings partition is not read again: its contents do not matter.\<close>

definition no_nvs :: nvs_env where "no_nvs = \<lparr>nvs_begin = False, nvs_key = None, nvs_put = 0\<rparr>"

fun auth_step :: "(string \<Rightarrow> string) \<Rightarrow> AuthState \<Rightarrow> auth_op \<Rightarrow> AuthState" where
  "auth_step md a (NewSession r) = fst (auth_session_create r no_nvs a)"
| "auth_step md a (Revoke t) = auth_session_revoke a (Some t)"
| "auth_step md a (SetPassword e p) = fst (auth_set md e a (Some p))"
| "auth_step md a (FactoryReset e) = fst (auth_clear e a)"

text \<open>What the operations mean: \<open>has\<close> is whether there is a password.\<close>

fun session_spec :: "bool \<times> session_log \<Rightarrow> auth_op \<Rightarrow> bool \<times> session_log" where
  "session_spec (has, lg) (NewSession r) = (has, if has then (session_token r, True) # lg else lg)"
| "session_spec (has, lg) (Revoke t) = (has, map (\<lambda>(s, b). (s, b \<and> s \<noteq> t)) lg)"
| "session_spec (has, lg) (SetPassword e p) =
     (if 8 \<le> length p \<and> length p \<le> 63 \<and> nvs_begin e \<and> nvs_put e = 32 then (True, []) else (has, lg))"
| "session_spec (has, lg) (FactoryReset e) = (False, [])"

lemma length_slots [simp]: "length (slots lg) = 4"
  by (induction lg rule: slots.induct) simp_all

lemma slots_lengths: "list_all (\<lambda>(t, b). length t = 32) lg \<Longrightarrow> \<forall>s \<in> set (slots lg). s = [] \<or> length s = 32"
proof (induction lg rule: slots.induct)
  case (2 t b lg)
  then show ?case using set_update_subset_insert [of "slots lg" "length lg mod 4" "if b then t else []"] by auto
qed simp

lemma slots_revoke:
  assumes "length t = 32"
  shows "slots (map (\<lambda>(s, b). (s, b \<and> s \<noteq> t)) lg) = map (\<lambda>s. if s = t then [] else s) (slots lg)"
proof (induction lg rule: slots.induct)
  case 1
  show ?case by simp
next
  case (2 s b lg)
  show ?case by (simp add: 2 map_update)
qed

lemma four_updates:
  assumes "length xs = 4"
  shows "set (xs[n mod 4 := d, Suc n mod 4 := c, Suc (Suc n) mod 4 := b, Suc (Suc (Suc n)) mod 4 := a]) = {a, b, c, d}"
proof -
  from assms obtain p q r s where xs: "xs = [p, q, r, s]"
    by (auto simp: length_Suc_conv numeral_eq_Suc)
  consider "n mod 4 = 0" | "n mod 4 = 1" | "n mod 4 = 2" | "n mod 4 = 3" by linarith
  then show ?thesis by cases (auto simp: xs mod_Suc)
qed

lemma slots_Cons: "slots (p # lg) = (slots lg)[length lg mod 4 := if snd p then fst p else []]"
  by (cases p) simp

text \<open>The table holds exactly the good ones among the last four sessions issued.\<close>

lemma set_slots:
  assumes "t \<noteq> []"
  shows "t \<in> set (slots lg) \<longleftrightarrow> (t, True) \<in> set (take 4 lg)"
proof (cases "length lg \<ge> 4")
  case True
  then obtain a b c d rest where l: "lg = a # b # c # d # rest" by (auto simp: length_4_conv)
  have "slots lg = (slots rest)[length rest mod 4 := if snd d then fst d else [],
      Suc (length rest) mod 4 := if snd c then fst c else [], Suc (Suc (length rest)) mod 4 := if snd b then fst b else [],
      Suc (Suc (Suc (length rest))) mod 4 := if snd a then fst a else []]"
    by (cases a; cases b; cases c; cases d) (simp add: l)
  then have "set (slots lg) = {if snd a then fst a else [], if snd b then fst b else [],
      if snd c then fst c else [], if snd d then fst d else []}"
    by (simp only: four_updates [OF length_slots])
  then show ?thesis using assms by (cases a; cases b; cases c; cases d) (auto simp: l)
next
  case False
  then have "length lg < 4" by simp
  then consider "lg = []" | a where "lg = [a]" | a b where "lg = [a, b]" | a b c where "lg = [a, b, c]"
    by (cases lg; cases "tl lg"; cases "tl (tl lg)"; cases "tl (tl (tl lg))") auto
  moreover have "replicate 4 ([] :: string) = [[], [], [], []]" by (simp add: numeral_eq_Suc)
  ultimately show ?thesis using assms
    by cases (auto simp add: slots_Cons prod_eq_iff simp del: slots.simps(2))
qed

lemma session_valid_inv:
  assumes "session_inv a lg"
  shows "session_valid a t \<longleftrightarrow> is_session_token (Some t) (length t) \<and> (t, True) \<in> set (take 4 lg)"
proof (cases "is_session_token (Some t) (length t)")
  case True
  then have lt: "length t = 32" by (simp add: is_session_token_def web_limits)
  have s: "\<forall>s \<in> set (slots lg). s = [] \<or> length s = 32" by (intro slots_lengths) (use assms in \<open>simp add: session_inv_def\<close>)
  have m: "slot_matches a t i \<longleftrightarrow> slots lg ! i = t" if "i < 4" for i
  proof -
    have "slots lg ! i \<in> set (slots lg)" using that by simp
    with s have "slots lg ! i = [] \<or> length (slots lg ! i) = 32" by blast
    then show ?thesis using assms lt ct_equal_strings [of "slots lg ! i" t]
      by (auto simp: slot_matches_def session_inv_def)
  qed
  have "session_valid a t \<longleftrightarrow> (\<exists>i < 4. slots lg ! i = t)"
    using True m by (auto simp: session_valid_def AUTH_MAX_SESSIONS_def list_ex_iff)
  also have "\<dots> \<longleftrightarrow> t \<in> set (slots lg)" by (simp add: in_set_conv_nth)
  also have "\<dots> \<longleftrightarrow> (t, True) \<in> set (take 4 lg)" using lt by (intro set_slots) auto
  finally show ?thesis using True by simp
qed (simp add: session_valid_def)

lemma auth_step_refines:
  assumes "session_inv a lg" "\<And>x. length (md x) = 32"
  shows "session_inv (auth_step md a op) (snd (session_spec (g_ha1 a \<noteq> [], lg) op)) \<and>
    (g_ha1 (auth_step md a op) \<noteq> []) = fst (session_spec (g_ha1 a \<noteq> [], lg) op)"
proof (cases op)
  case (NewSession r)
  then show ?thesis using assms(1) session_token_ok [of r]
    by (auto simp: session_inv_def auth_session_create_def auth_is_set_def ensure_loaded_def Let_def
        AUTH_MAX_SESSIONS_def mod_Suc_eq)
next
  case (Revoke t)
  show ?thesis
  proof (cases "length t = 32")
    case True
    have s: "\<forall>s \<in> set (slots lg). s = [] \<or> length s = 32" by (intro slots_lengths) (use assms in \<open>simp add: session_inv_def\<close>)
    have m: "(if slot_matches a t i then [] else g_sessions a ! i) = (if slots lg ! i = t then [] else slots lg ! i)"
      if "i < 4" for i
    proof -
      have "slots lg ! i \<in> set (slots lg)" using that by simp
      with s have "slots lg ! i = [] \<or> length (slots lg ! i) = 32" by blast
      then show ?thesis using assms True ct_equal_strings [of "slots lg ! i" t]
        by (auto simp: slot_matches_def session_inv_def)
    qed
    have "map (\<lambda>i. if slot_matches a t i then [] else g_sessions a ! i) [0..<4] =
        map (\<lambda>s. if s = t then [] else s) (slots lg)"
      by (rule nth_equalityI) (simp, simp only: length_map length_upt nth_map nth_upt add_0 diff_zero m length_slots)
    then show ?thesis using assms(1) True
      by (auto simp: Revoke auth_session_revoke_def session_inv_def slots_revoke AUTH_MAX_SESSIONS_def list_all_iff)
  next
    case False
    have "map (\<lambda>(s, b). (s, b \<and> s \<noteq> t)) lg = lg"
      using assms(1) False by (intro map_idI) (auto simp: session_inv_def list_all_iff)
    with False assms(1) show ?thesis by (simp add: Revoke auth_session_revoke_def)
  qed
next
  case (SetPassword e p)
  have "md x \<noteq> []" for x using assms(2) [of x] by auto
  with SetPassword assms(1) show ?thesis
    by (auto simp: auth_set_def password_valid_def web_limits clear_sessions_locked_def session_inv_def AUTH_MAX_SESSIONS_def
        Let_def)
next
  case (FactoryReset e)
  with assms(1) show ?thesis
    by (simp add: auth_clear_def clear_sessions_locked_def session_inv_def AUTH_MAX_SESSIONS_def)
qed

lemma auth_run_refines:
  assumes "session_inv a lg" "\<And>x. length (md x) = 32"
  shows "session_inv (foldl (auth_step md) a ops) (snd (foldl session_spec (g_ha1 a \<noteq> [], lg) ops)) \<and>
    (g_ha1 (foldl (auth_step md) a ops) \<noteq> []) = fst (foldl session_spec (g_ha1 a \<noteq> [], lg) ops)"
  using assms(1)
proof (induction ops arbitrary: a lg)
  case (Cons op ops)
  note step = auth_step_refines [where md = md, OF Cons.prems assms(2), of op]
  show ?case using Cons.IH [of "auth_step md a op" "snd (session_spec (g_ha1 a \<noteq> [], lg) op)"] step by simp
qed simp

text \<open>
  C20 (session_table_window). Whatever sequence of logins, logouts, password changes (stored or not) and factory
  resets the board goes through, a cookie is accepted exactly when it is one of the last four
  tokens issued since the password was last set or removed and has not been revoked since:
  never an old password's session, never an evicted one, never a forged one.\<close>

theorem session_table_window:
  assumes "\<And>x. length (md x) = 32" and "g_loaded a" and "g_sessions a = replicate 4 []" and "g_next_slot a = 0"
  shows "session_valid (foldl (auth_step md) a ops) t \<longleftrightarrow>
    is_session_token (Some t) (length t) \<and> (t, True) \<in> set (take 4 (snd (foldl session_spec (g_ha1 a \<noteq> [], []) ops)))"
proof -
  have "session_inv a []" using assms by (simp add: session_inv_def)
  from auth_run_refines [where md = md, OF this assms(1)] show ?thesis by (simp add: session_valid_inv)
qed

definition sample_auth :: AuthState where
  "sample_auth = \<lparr>g_ha1 = [], g_loaded = True, g_sessions = replicate 4 [], g_next_slot = 0\<rparr>"

definition sample_nvs :: nvs_env where "sample_nvs = \<lparr>nvs_begin = True, nvs_key = None, nvs_put = 32\<rparr>"

theorem session_table_window_witness:
  "\<not> session_valid (foldl (auth_step (\<lambda>x. replicate 32 (CHR ''a''))) sample_auth
      [SetPassword sample_nvs ''password'', NewSession [1, 2, 3, 4], FactoryReset sample_nvs]) (session_token [1, 2, 3, 4])"
  by (subst session_table_window) (simp_all add: sample_auth_def sample_nvs_def)

text \<open>Without a password no request is signed in, whatever cookie or header it carries, and the
  refusal of a request is answered exactly once.\<close>

lemma auth_check_needs_password: "g_loaded a \<Longrightarrow> g_ha1 a = [] \<Longrightarrow> \<not> snd (auth_check e a rq)"
  by (auto simp: auth_check_def auth_is_set_def ensure_loaded_def Let_def split: option.splits)

lemma auth_require_answers: "auth_require e a rq = (a', ok, rs) \<Longrightarrow> ok \<longleftrightarrow> rs = []"
  by (auto simp: auth_require_def split: if_splits prod.splits)

end
