(* ===== verification/System.thy ===== *)
theory System
  imports Serial_Port Bluetooth Auth
begin

text \<open>
  The rest of the system layer: the log, alerts, the SOS key, telemetry, the factory reset and
  the constants of the start-up (\<open>src/src/core/support_method.cpp\<close>, \<open>tasks.cpp\<close> and \<open>main.cpp\<close>).  Events are what
  these functions have other parts do, in order.
\<close>

section \<open>Log\<close>

record LogState =
  debug_task :: bool
  debug_msg :: "string list option"
  s_debug_dropped :: u32

definition DEBUG_QUEUE_DEPTH :: nat where "DEBUG_QUEUE_DEPTH = 20"
definition SEND_QUEUE_DEPTH :: nat where "SEND_QUEUE_DEPTH = 20"
definition WIFI_WAIT_MS :: u32 where "WIFI_WAIT_MS = 45000"

definition debug_count_drop :: "LogState \<Rightarrow> LogState" where
  "debug_count_drop s = s\<lparr>s_debug_dropped := s_debug_dropped s + 1\<rparr>"

definition serial_print :: "bool \<Rightarrow> bool \<Rightarrow> bool \<Rightarrow> LogState \<Rightarrow> string \<Rightarrow> LogState" where
  "serial_print debugging in_isr mem_ok s msg =
     (if \<not> debugging then s
      else if in_isr then s
      else if \<not> debug_task s \<or> debug_msg s = None then s
      else if \<not> mem_ok then debug_count_drop s
      else if length (the (debug_msg s)) < DEBUG_QUEUE_DEPTH then s\<lparr>debug_msg := Some (the (debug_msg s) @ [msg])\<rparr>
      else debug_count_drop s)"

datatype log_event = UartLine string | DebugEvent jdoc

text \<open>One turn of the logger on a line it took; \<open>port_busy\<close> is \<open>lora_serial || net_active()\<close>.\<close>

definition debugger_print_step :: "bool \<Rightarrow> bool \<Rightarrow> u32 \<Rightarrow> u32 \<Rightarrow> LogState \<Rightarrow> LogState \<times> log_event list" where
  "debugger_print_step debugging port_busy sse_clients now s =
     (case debug_msg s of
        Some (m # ms) \<Rightarrow>
          let dropped = s_debug_dropped s; s = s\<lparr>debug_msg := Some ms, s_debug_dropped := 0\<rparr>;
              note = ''('' @ dec_nat (unat dropped) @ '' debug lines dropped)'' in
          (s, (if dropped > 0 \<and> debugging \<and> \<not> port_busy then [UartLine note] else [])
              @ (if debugging \<and> \<not> port_busy then [UartLine m] else [])
              @ (if debugging \<and> sse_clients > 0
                 then [DebugEvent (JObject [(''millis'', JNum (uint now)), (''data'', JText m)])] else []))
      | _ \<Rightarrow> (s, []))"

section \<open>Messages and telemetry\<close>

definition show_alert :: "string \<Rightarrow> jdoc" where
  "show_alert msg = JObject [(''response_type'', JText ''alert''), (''alert_msg'', JText msg)]"

datatype sos_event = SosAlert string | SosQueue jdoc

text \<open>\<open>queue\<close> is the radio queue, \<open>None\<close> when there is none; the second result is its new contents.\<close>

definition send_sos :: "(jdoc \<Rightarrow> string) \<Rightarrow> SysState \<Rightarrow> core_env \<Rightarrow> QueueParam list option \<Rightarrow> QueueParam list option \<times> sos_event list" where
  "send_sos ser s e queue =
     (let doc = JObject [(''name'', JText (get_username s e)), (''mac'', JText (mac_address e)),
                (''data'', JText (ser (JObject [(''pack_type'', JText ''action''), (''data'', JText ''sos'')])))] in
      if \<not> alloc_mem e then (queue, [SosAlert ''failed: no memory''])
      else
        (case queue of
           None \<Rightarrow> (None, [SosAlert ''failed: queue full''])
         | Some q \<Rightarrow>
             if length q < SEND_QUEUE_DEPTH
             then (Some (q @ [\<lparr>q_type = LORA_MSG, q_message = str_bytes (ser doc), q_id = 0\<rparr>]), [SosQueue doc, SosAlert ''sent''])
             else (Some q, [SosAlert ''failed: queue full''])))"

text \<open>The WiFi telemetry event; \<open>None\<close> when nobody listens.\<close>

record wifi_status =
  sta_connected :: bool
  sta_rssi :: int
  sta_bssid :: "bytes option"
  sta_channel :: int
  ap_mode :: bool
  ap_stations :: nat

definition get_wifi_rssi :: "u32 \<Rightarrow> wifi_status \<Rightarrow> jdoc option" where
  "get_wifi_rssi clients w =
     (if \<not> clients > 0 then None
      else Some (JObject
        (if sta_connected w then
           [(''mode'', JText ''STA''), (''rssi'', JNum (sta_rssi w)), (''bssid'', JText (wifi_format_bssid (sta_bssid w))),
            (''ch'', JNum (sta_channel w))]
         else if ap_mode w then [(''mode'', JText ''AP''), (''clients'', JNum (int (ap_stations w)))]
         else [(''mode'', JText ''OFF'')])))"

definition get_heap_info :: "u32 \<Rightarrow> u32 \<Rightarrow> u32 \<Rightarrow> jdoc option" where
  "get_heap_info clients free_heap heap_size =
     (if \<not> clients > 0 then None
      else Some (JObject [(''free_heap'', JNum (uint free_heap)), (''heap_size'', JNum (uint heap_size))]))"

text \<open>The notification LED: one blink per wake-up, back to the level it had.\<close>

datatype led_event = LedWrite bool | LedDelay

definition async_led_notifier_step :: "bool \<Rightarrow> led_event list" where
  "async_led_notifier_step level = [LedWrite (\<not> level), LedDelay, LedWrite level, LedDelay]"

section \<open>Factory reset\<close>

definition restore_default :: "fs_env \<Rightarrow> fs_env \<Rightarrow> nat \<Rightarrow> FsLock \<times> files \<Rightarrow> string \<Rightarrow> string \<Rightarrow> (FsLock \<times> files) \<times> bool" where
  "restore_default e1 e2 me st target source =
     (case read_file e1 me st (Some source) of
        (st, ok, content) \<Rightarrow>
          if \<not> ok \<or> length content = 0 then (st, False)
          else write_file_atomic e2 me st (Some target) content)"

definition WIFI_BUILT_IN :: string where
  "WIFI_BUILT_IN = ''{\"wifi_function\":\"AP\",\"wifi_ssid\":\"\",\"wifi_pass\":\"\",\"ap_pass\":\"\"}''"

text \<open>The radio settings when there is no default: the file is removed, under the lock.\<close>

definition remove_lora_config :: "bool \<Rightarrow> bool \<Rightarrow> nat \<Rightarrow> FsLock \<times> files \<Rightarrow> (FsLock \<times> files) \<times> bool" where
  "remove_lora_config off remove_ok me st =
     (let (l, fs) = st; (l, got) = fs_maintenance_begin me l in
      if \<not> got then ((l, fs), True)
      else
        let (fs, ok) = (if fs_mounted l \<and> \<not> off \<and> fs ''/config/lora_config.json'' \<noteq> None
                        then (if remove_ok then (fs(''/config/lora_config.json'' := None), True) else (fs, False))
                        else (fs, True))
        in ((fs_maintenance_end me l, fs), ok))"

record reset_env =
  r_fs :: "nat \<Rightarrow> fs_env"
  r_off :: bool
  r_remove_ok :: bool
  r_task :: nat
  r_nvs :: nvs_env

datatype reset_event = ResetAlert string | ResetOled | ResetNvs nvs_op | ResetLogFailed | ResetRestart

definition reset_files :: "reset_env \<Rightarrow> FsLock \<times> files \<Rightarrow> (FsLock \<times> files) \<times> bool" where
  "reset_files e st =
     (let me = r_task e;
          (st, wifi) = restore_default (r_fs e 0) (r_fs e 1) me st ''/config/wifi_config.json'' ''/config/wifi_default.json'';
          (st, ok1) = (if \<not> wifi then write_file_atomic (r_fs e 2) me st (Some ''/config/wifi_config.json'') WIFI_BUILT_IN
                       else (st, True));
          (st, lora) = restore_default (r_fs e 3) (r_fs e 4) me st ''/config/lora_config.json'' ''/config/lora_default.json'';
          (st, ok2) = (if \<not> lora then remove_lora_config (r_off e) (r_remove_ok e) me st else (st, True));
          (st, ok3) = write_file_atomic (r_fs e 5) me st (Some ''/config/user_data.json'') ''{\"username\":\"\"}'';
          (st, ok4) = write_file_atomic (r_fs e 6) me st (Some ''/config/lora_serial.json'') ''{\"lora_serial\":false}''
      in (st, ok1 \<and> ok2 \<and> ok3 \<and> ok4))"

definition reset_device ::
  "reset_env \<Rightarrow> FsLock \<times> files \<Rightarrow> SysState \<Rightarrow> AuthState \<Rightarrow> (FsLock \<times> files) \<times> SysState \<times> AuthState \<times> reset_event list" where
  "reset_device e st s a =
     (let (st, ok) = reset_files e st; (a, nvs) = auth_clear (r_nvs e) a in
      (st, s\<lparr>lora_serial := False\<rparr>, a,
       [ResetAlert ''Device reset successfully'', ResetOled] @ map ResetNvs nvs
       @ (if \<not> ok then [ResetLogFailed] else []) @ [ResetRestart]))"

section \<open>The log and the port\<close>

text \<open>The logger leaves the USB port alone while the bridge or network mode owns it.\<close>

lemma log_respects_port:
  "\<forall>ev \<in> set (snd (debugger_print_step debugging True clients now s)). \<exists>d. ev = DebugEvent d"
  by (auto simp: debugger_print_step_def Let_def split: option.split list.split)

text \<open>Nothing is lost silently: a line is queued, or counted as dropped, in a debug build with the logger running.\<close>

lemma log_accounted:
  assumes "debug_task s" "debug_msg s = Some q" "s' = serial_print True False mem s m"
  shows "debug_msg s' = Some (q @ [m]) \<and> s_debug_dropped s' = s_debug_dropped s \<or>
    debug_msg s' = Some q \<and> s_debug_dropped s' = s_debug_dropped s + 1"
  using assms by (simp add: serial_print_def debug_count_drop_def)

section \<open>The factory reset does what it says\<close>

text \<open>The default settings a file holds, when it is usable as one.\<close>

definition default_in :: "files \<Rightarrow> string \<Rightarrow> string option" where
  "default_in fs p = (case fs p of None \<Rightarrow> None | Some c \<Rightarrow> if c \<noteq> [] \<and> length c \<le> 4096 then Some c else None)"

lemma calm_no_default:
  assumes "calm me l" "opens e1" "default_in fs source = None"
  shows "restore_default e1 e2 me (l, fs) target source = ((l, fs), False)"
  using assms by (cases "fs source") (auto simp: restore_default_def calm_read default_in_def split: if_splits)

lemma calm_restore:
  assumes "calm me l" "opens e1" "default_in fs source = Some c" "works e2 c"
  shows "restore_default e1 e2 me (l, fs) target source = ((l, stored target c fs), True)"
  using assms by (cases "fs source") (auto simp: restore_default_def calm_read calm_write default_in_def split: if_splits)

lemma calm_remove:
  assumes "calm me l"
  shows "remove_lora_config False True me (l, fs) = ((l, fs(''/config/lora_config.json'' := None)), True)"
  using assms
  by (cases l) (auto simp: remove_lora_config_def fs_maintenance_begin_def fs_maintenance_end_def fs_lock_is_mine_def
      mutex_take_def mutex_give_def calm_def Let_def fun_eq_iff)

lemmas reset_calm = calm_no_default calm_restore calm_write calm_remove

lemma cleared_invalid: "\<not> session_valid (clear_sessions_locked a) t"
  by (auto simp: session_valid_def slot_matches_def clear_sessions_locked_def AUTH_MAX_SESSIONS_def list_ex_iff)

text \<open>What the reset leaves on the file system.\<close>

definition reset_result :: "files \<Rightarrow> files" where
  "reset_result fs =
     (let fs1 = stored ''/config/wifi_config.json''
            (case default_in fs ''/config/wifi_default.json'' of None \<Rightarrow> WIFI_BUILT_IN | Some c \<Rightarrow> c) fs;
          fs2 = (case default_in fs ''/config/lora_default.json'' of
                   None \<Rightarrow> fs1(''/config/lora_config.json'' := None)
                 | Some c \<Rightarrow> stored ''/config/lora_config.json'' c fs1)
      in stored ''/config/lora_serial.json'' ''{\"lora_serial\":false}''
           (stored ''/config/user_data.json'' ''{\"username\":\"\"}'' fs2))"

text \<open>Every call of the reset works on the content it has to write.\<close>

definition all_work :: "reset_env \<Rightarrow> files \<Rightarrow> bool" where
  "all_work e fs \<longleftrightarrow>
     opens (r_fs e 0) \<and> opens (r_fs e 3) \<and> \<not> r_off e \<and> r_remove_ok e
     \<and> (case default_in fs ''/config/wifi_default.json'' of
          None \<Rightarrow> works (r_fs e 2) WIFI_BUILT_IN | Some c \<Rightarrow> works (r_fs e 1) c)
     \<and> (case default_in fs ''/config/lora_default.json'' of None \<Rightarrow> True | Some c \<Rightarrow> works (r_fs e 4) c)
     \<and> works (r_fs e 5) ''{\"username\":\"\"}'' \<and> works (r_fs e 6) ''{\"lora_serial\":false}''"

lemma default_in_stored [simp]:
  "p \<noteq> q \<Longrightarrow> p \<noteq> tmp_path q \<Longrightarrow> default_in (stored q c fs) p = default_in fs p"
  by (simp add: default_in_def stored_def)

lemma reset_files_calm:
  assumes "calm (r_task e) l" "all_work e fs"
  shows "reset_files e (l, fs) = ((l, reset_result fs), True)"
  using assms
  by (simp add: reset_files_def all_work_def reset_calm reset_result_def tmp_path_def Let_def split: option.splits)

lemma reset_result_files:
  "reset_result fs ''/config/wifi_config.json'' =
     Some (case default_in fs ''/config/wifi_default.json'' of None \<Rightarrow> WIFI_BUILT_IN | Some c \<Rightarrow> c)"
  "reset_result fs ''/config/lora_config.json'' = default_in fs ''/config/lora_default.json''"
  "reset_result fs ''/config/user_data.json'' = Some ''{\"username\":\"\"}''"
  "reset_result fs ''/config/lora_serial.json'' = Some ''{\"lora_serial\":false}''"
  by (simp_all add: reset_result_def stored_def tmp_path_def Let_def split: option.split)

lemma reset_result_keeps:
  assumes "\<forall>q \<in> {''/config/wifi_config.json'', ''/config/lora_config.json'', ''/config/user_data.json'',
      ''/config/lora_serial.json''}. p \<noteq> q \<and> p \<noteq> tmp_path q"
  shows "reset_result fs p = fs p"
  using assms by (simp add: reset_result_def stored_def Let_def split: option.split)

text \<open>The settings partition after the calls of a reset: what is stored under the password's key.
  \<open>remove_ok\<close>: the call that removes the key works (its result is not looked at).\<close>

definition nvs_apply :: "bool \<Rightarrow> nvs_op \<Rightarrow> (string \<times> nat) option \<Rightarrow> (string \<times> nat) option" where
  "nvs_apply remove_ok op key =
     (case op of PutHa1 h \<Rightarrow> Some (h, 33) | RemoveHa1 \<Rightarrow> if remove_ok then None else key)"

fun key_after :: "bool \<Rightarrow> reset_event list \<Rightarrow> (string \<times> nat) option \<Rightarrow> (string \<times> nat) option" where
  "key_after ok [] key = key"
| "key_after ok (ResetNvs op # evs) key = key_after ok evs (nvs_apply ok op key)"
| "key_after ok (_ # evs) key = key_after ok evs key"

lemma key_after_append: "key_after ok (xs @ ys) key = key_after ok ys (key_after ok xs key)"
  by (induction ok xs key rule: key_after.induct) auto

text \<open>Whether the board asks for a password after the next start, when the partition opens then or not.\<close>

definition password_after :: "(string \<times> nat) option \<Rightarrow> bool \<Rightarrow> bool" where
  "password_after key prefs_ok =
     snd (auth_is_set \<lparr>nvs_begin = prefs_ok, nvs_key = key, nvs_put = 0\<rparr> AuthState_init)"

lemma password_after_None: "\<not> password_after None prefs_ok"
  by (simp add: password_after_def auth_is_set_def ensure_loaded_def auth_init_def AuthState_init_def Let_def)

lemma reset_key:
  assumes "reset_device e st s a = (st', s', a', evs)"
  shows "key_after ok evs key =
    (if nvs_begin (r_nvs e) \<and> ok then None else key)"
proof -
  obtain st1 ok1 where r: "reset_files e st = (st1, ok1)" by fastforce
  show ?thesis using assms
    by (auto simp: reset_device_def r auth_clear_def Let_def nvs_apply_def key_after_append)
qed


text \<open>When the partition cannot be opened, or the removal fails, nobody notices: the password is back
  after the restart.\<close>

lemma reset_keeps_password:
  assumes "reset_device e st s a = (st', s', a', evs)" and "length h = 32"
    and "\<not> nvs_begin (r_nvs e) \<or> \<not> ok"
  shows "last evs = ResetRestart \<and> password_after (key_after ok evs (Some (h, 33))) True"
proof -
  have "last evs = ResetRestart" using assms(1) by (auto simp: reset_device_def Let_def split: prod.splits)
  moreover have "password_after (Some (h, 33)) True" using assms(2)
    by (auto simp: password_after_def auth_is_set_def ensure_loaded_def auth_init_def AuthState_init_def Let_def)
  ultimately show ?thesis using reset_key [OF assms(1), of ok "Some (h, 33)"] assms(3) by auto
qed

text \<open>A board with a session, a password and a WiFi default of its own, on a working file system.\<close>

definition sample_reset :: "nat \<Rightarrow> fs_env" where
  "sample_reset i = \<lparr>ev_off1 = False, ev_off2 = False, ev_open = True, ev_written = [0, 2, 62, 0, 0, 15, 21] ! i, ev_rename = True\<rparr>"

definition sample_reset_env :: reset_env where
  "sample_reset_env = \<lparr>r_fs = sample_reset, r_off = False, r_remove_ok = True, r_task = 1, r_nvs = \<lparr>nvs_begin = True, nvs_key = Some (replicate 32 (CHR ''a''), 33), nvs_put = 0\<rparr>\<rparr>"

definition sample_bridge :: SysState where
  "sample_bridge = \<lparr>lora_serial = True, s_username = [], sys_net = NetState_init\<rparr>"


end
