(* ===== verification/Web_Sockets.thy ===== *)
theory Web_Sockets
  imports Core_Dispatch Auth
begin

text \<open>
  The WebSocket and the event stream: \<open>src/src/web/web_sockets.cpp\<close>.  The queues are lists
  (\<open>None\<close> before they are created); a step of a task or of a callback is one function.  A
  send that waits for room is modelled at the moment it ends: it appends when there is room
  then, and gives up when there is none.
\<close>

section \<open>State\<close>

definition WS_RX_QUEUE_LEN :: nat where "WS_RX_QUEUE_LEN = 8"
definition WS_OUT_QUEUE_LEN :: nat where "WS_OUT_QUEUE_LEN = 32"
definition WS_OUT_RESERVED :: nat where "WS_OUT_RESERVED = 8"
definition WS_CLEANUP_MS :: u32 where "WS_CLEANUP_MS = 1000"
definition WS_DROP_REPORT_MS :: u32 where "WS_DROP_REPORT_MS = 1000"

record OutMsg =
  to_ws :: bool
  o_data :: string
  o_topic :: string

record WsAssembly =
  a_total :: u32
  a_received :: u32
  a_buf :: bytes

text \<open>\<open>ws_rx_queue\<close> holds the messages as the callback queued them, without their NUL.\<close>

record WsState =
  ws_client_count :: u32
  sse_client_count :: u32
  ws_rx_queue :: "bytes list option"
  ws_out_queue :: "OutMsg list option"
  out_dropped_ws :: u32
  out_dropped_sse :: u32

definition WsState_init :: WsState where
  "WsState_init = \<lparr>ws_client_count = 0, sse_client_count = 0, ws_rx_queue = None, ws_out_queue = None,
     out_dropped_ws = 0, out_dropped_sse = 0\<rparr>"

section \<open>The handshake gate\<close>

datatype GateResult = GATE_OK | GATE_SETUP | GATE_ORIGIN | GATE_UNAUTH

record gate_request =
  gr_get :: bool
  gr_url :: string
  gr_origin :: "string option"
  gr_host :: string
  gr_auth :: auth_request

definition gate_check :: "nvs_env \<Rightarrow> AuthState \<Rightarrow> gate_request \<Rightarrow> AuthState \<times> GateResult" where
  "gate_check e a r =
     (if \<not> origin_allowed (gr_origin r) (Some (gr_host r)) then (a, GATE_ORIGIN)
      else
        let (a, set) = auth_is_set e a in
        if \<not> set then (a, GATE_SETUP)
        else
          let (a, ok) = auth_check e a (Some (gr_auth r)) in
          if \<not> ok then (a, GATE_UNAUTH) else (a, GATE_OK))"

text \<open>Whether the gate takes the request (and refuses it) before the stream handlers see it.\<close>

definition gate_canHandle :: "nvs_env \<Rightarrow> AuthState \<Rightarrow> gate_request \<Rightarrow> AuthState \<times> bool" where
  "gate_canHandle e a r =
     (if \<not> gr_get r then (a, False)
      else if \<not> (gr_url r = ''/ws'' \<or> gr_url r = ''/rawEvents'') then (a, False)
      else
        let (a, g) = gate_check e a r in (a, g \<noteq> GATE_OK))"

datatype gate_reply = Send403 string | RequestAuthentication string | Send500

definition gate_handleRequest :: "nvs_env \<Rightarrow> AuthState \<Rightarrow> gate_request \<Rightarrow> AuthState \<times> gate_reply" where
  "gate_handleRequest e a r =
     (let (a, g) = gate_check e a r in
      (a, case g of
            GATE_ORIGIN \<Rightarrow> Send403 ''origin''
          | GATE_SETUP \<Rightarrow> Send403 ''setup_required''
          | GATE_UNAUTH \<Rightarrow> RequestAuthentication AUTH_REALM
          | GATE_OK \<Rightarrow> Send500))"

section \<open>Inbound messages\<close>

text \<open>One turn of the worker task on a message it took from the queue.\<close>

definition ws_rx_worker_msg ::
  "'v json_api \<Rightarrow> bool \<Rightarrow> core_env \<Rightarrow> SysState \<Rightarrow> bytes \<Rightarrow> SysState \<times> core_event list" where
  "ws_rx_worker_msg J fs_offline e s msg =
     (if fs_offline then (s, [])
      else
        (case jparse J (c_str msg) of
           None \<Rightarrow> (s, [])
         | Some doc \<Rightarrow> if \<not> jobject J doc then (s, []) else handle_operations J s e doc))"

definition ws_rx_worker_step ::
  "'v json_api \<Rightarrow> bool \<Rightarrow> core_env \<Rightarrow> WsState \<Rightarrow> SysState \<Rightarrow> WsState \<times> SysState \<times> core_event list" where
  "ws_rx_worker_step J fs_offline e w s =
     (case ws_rx_queue w of
        Some (m # ms) \<Rightarrow>
          let (s, evs) = ws_rx_worker_msg J fs_offline e s m in (w\<lparr>ws_rx_queue := Some ms\<rparr>, s, evs)
      | _ \<Rightarrow> (w, s, []))"

definition ws_deliver :: "WsState \<Rightarrow> bytes \<Rightarrow> WsState" where
  "ws_deliver w msg =
     (case ws_rx_queue w of
        None \<Rightarrow> w
      | Some q \<Rightarrow> if length q < WS_RX_QUEUE_LEN then w\<lparr>ws_rx_queue := Some (q @ [msg])\<rparr> else w)"

text \<open>What the library says of a chunk (\<open>AwsFrameInfo\<close>), and \<open>malloc\<close>: the contents of a fresh
  block of the given size, or \<open>None\<close>.\<close>

record AwsFrameInfo =
  fr_final :: bool
  fr_opcode :: u8
  fr_len :: u64
  fr_index :: u64

type_synonym allocator = "nat \<Rightarrow> bytes option"

datatype ws_event = CloseClient nat

definition overwrite :: "bytes \<Rightarrow> nat \<Rightarrow> bytes \<Rightarrow> bytes" where
  "overwrite buf off data = take off buf @ data @ drop (off + length data) buf"

text \<open>A chunk of the frame being reassembled (lines 169-187).\<close>

definition ws_chunk :: "WsState \<Rightarrow> WsAssembly option \<Rightarrow> AwsFrameInfo \<Rightarrow> bytes \<Rightarrow> WsState \<times> WsAssembly option" where
  "ws_chunk w asm info data =
     (case asm of
        None \<Rightarrow> (w, None)
      | Some a \<Rightarrow>
          let len = word_of_nat (length data) in
          if \<not> ws_chunk_in_order (ucast (a_received a)) (ucast (a_total a)) (fr_index info) (fr_len info) len then (w, None)
          else
            let a = a\<lparr>a_buf := overwrite (a_buf a) (unat (a_received a)) data, a_received := a_received a + len\<rparr> in
            if a_received a < a_total a then (w, Some a)
            else (ws_deliver w (take (unat (a_total a)) (a_buf a)), None))"

text \<open>\<open>asm\<close> is the client's \<open>_tempObject\<close>.\<close>

definition ws_handle_data ::
  "allocator \<Rightarrow> WsState \<Rightarrow> WsAssembly option \<Rightarrow> AwsFrameInfo option \<Rightarrow> bytes \<Rightarrow> WsState \<times> WsAssembly option \<times> ws_event list" where
  "ws_handle_data mem w asm info data =
     (case info of
        None \<Rightarrow> (w, asm, [])
      | Some info \<Rightarrow>
          if fr_index info = 0 then
            if \<not> ws_frame_start_ok (fr_final info) (fr_opcode info) (fr_len info) WS_MAX_MESSAGE then
              (w, None, if unat (fr_len info) > WS_MAX_MESSAGE then [CloseClient 1009] else [])
            else if length data = unat (fr_len info) then
              (case mem (length data + 1) of
                 None \<Rightarrow> (w, None, [])
               | Some blk \<Rightarrow> (ws_deliver w (take (length data) (overwrite blk 0 data)), None, []))
            else
              (case mem (unat (fr_len info) + 1) of
                 None \<Rightarrow> (w, None, [])
               | Some blk \<Rightarrow>
                   let (w, asm) = ws_chunk w (Some \<lparr>a_total = ucast (fr_len info), a_received = 0, a_buf = blk\<rparr>) info data
                   in (w, asm, []))
          else
            let (w, asm) = ws_chunk w asm info data in (w, asm, []))"

datatype AwsEvent =
    WS_EVT_CONNECT
  | WS_EVT_DISCONNECT
  | WS_EVT_DATA "AwsFrameInfo option" bytes
  | WS_EVT_ERROR
  | WS_EVT_PONG

definition onEvent :: "allocator \<Rightarrow> WsState \<Rightarrow> WsAssembly option \<Rightarrow> AwsEvent \<Rightarrow> WsState \<times> WsAssembly option \<times> ws_event list" where
  "onEvent mem w asm ev =
     (case ev of
        WS_EVT_CONNECT \<Rightarrow> (w\<lparr>ws_client_count := ws_client_count w + 1\<rparr>, asm, [])
      | WS_EVT_DISCONNECT \<Rightarrow>
          (if ws_client_count w > 0 then w\<lparr>ws_client_count := ws_client_count w - 1\<rparr> else w, None, [])
      | WS_EVT_DATA info data \<Rightarrow> ws_handle_data mem w asm info data
      | WS_EVT_ERROR \<Rightarrow> (w, asm, [])
      | WS_EVT_PONG \<Rightarrow> (w, asm, []))"

definition onRawEvents :: "WsState \<Rightarrow> WsState" where
  "onRawEvents w = w\<lparr>sse_client_count := sse_client_count w + 1\<rparr>"

definition onRawEventsDisconnect :: "WsState \<Rightarrow> WsState" where
  "onRawEventsDisconnect w =
     (if sse_client_count w > 0 then w\<lparr>sse_client_count := sse_client_count w - 1\<rparr> else w)"

section \<open>Outbound messages\<close>

definition count_drop :: "WsState \<Rightarrow> bool \<Rightarrow> WsState" where
  "count_drop w ws =
     (if ws then w\<lparr>out_dropped_ws := out_dropped_ws w + 1\<rparr> else w\<lparr>out_dropped_sse := out_dropped_sse w + 1\<rparr>)"

definition enqueue_out :: "bool \<Rightarrow> WsState \<Rightarrow> bool \<Rightarrow> string \<Rightarrow> string \<Rightarrow> WsState" where
  "enqueue_out mem_ok w ws data topic =
     (case ws_out_queue w of
        None \<Rightarrow> w
      | Some q \<Rightarrow>
          if (if ws then ws_client_count w = 0 else sse_client_count w = 0) then w
          else if \<not> ws \<and> \<not> out_queue_admit False (WS_OUT_QUEUE_LEN - length q) WS_OUT_RESERVED then count_drop w ws
          else if \<not> mem_ok then count_drop w ws
          else
            let m = \<lparr>to_ws = ws, o_data = data, o_topic = (if \<not> ws then topic else [])\<rparr> in
            if length q < WS_OUT_QUEUE_LEN then w\<lparr>ws_out_queue := Some (q @ [m])\<rparr> else count_drop w ws)"

definition send_to_ws :: "bool \<Rightarrow> WsState \<Rightarrow> string \<Rightarrow> WsState" where
  "send_to_ws mem_ok w message = enqueue_out mem_ok w True message []"

definition send_to_events :: "bool \<Rightarrow> WsState \<Rightarrow> string \<Rightarrow> string \<Rightarrow> WsState" where
  "send_to_events mem_ok w data topic = enqueue_out mem_ok w False data topic"

text \<open>The sender task: its timers and what it has reported, and one turn at the given time.\<close>

record SenderState =
  last_cleanup :: u32
  last_report :: u32
  reported_ws :: u32
  reported_sse :: u32

datatype out_event =
    TextAll string
  | EventsSend string string
  | CleanupClients
  | ReportDropped u32 u32

definition sender_take :: "WsState \<Rightarrow> WsState \<times> out_event list" where
  "sender_take w =
     (case ws_out_queue w of
        Some (m # q) \<Rightarrow>
          (w\<lparr>ws_out_queue := Some q\<rparr>,
           if to_ws m then (if ws_client_count w > 0 then [TextAll (o_data m)] else [])
           else (if sse_client_count w > 0 then [EventsSend (o_data m) (o_topic m)] else []))
      | _ \<Rightarrow> (w, []))"

definition ws_sender_step :: "u32 \<Rightarrow> WsState \<Rightarrow> SenderState \<Rightarrow> WsState \<times> SenderState \<times> out_event list" where
  "ws_sender_step now w t =
     (let (w, evs) = sender_take w;
          (t, evs) = (if now - last_cleanup t \<ge> WS_CLEANUP_MS then (t\<lparr>last_cleanup := now\<rparr>, evs @ [CleanupClients]) else (t, evs));
          (t, evs) =
            (if now - last_report t \<ge> WS_DROP_REPORT_MS then
               let t = t\<lparr>last_report := now\<rparr> in
               if out_dropped_ws w \<noteq> reported_ws t \<or> out_dropped_sse w \<noteq> reported_sse t
               then (t\<lparr>reported_ws := out_dropped_ws w, reported_sse := out_dropped_sse w\<rparr>,
                     evs @ [ReportDropped (out_dropped_ws w) (out_dropped_sse w)])
               else (t, evs)
             else (t, evs))
      in (w, t, evs))"

text \<open>Start-up: the queues are created once; the outcome of creating them and the tasks is given.
  The result says whether the handlers were registered.\<close>

definition initWebSocket :: "bool \<Rightarrow> bool \<Rightarrow> bool \<Rightarrow> WsState \<Rightarrow> WsState \<times> bool" where
  "initWebSocket rx_ok out_ok tasks_ok w =
     (let w = (if ws_rx_queue w = None \<and> rx_ok then w\<lparr>ws_rx_queue := Some []\<rparr> else w);
          w = (if ws_out_queue w = None \<and> out_ok then w\<lparr>ws_out_queue := Some []\<rparr> else w) in
      (w, ws_rx_queue w \<noteq> None \<and> ws_out_queue w \<noteq> None \<and> tasks_ok))"

section \<open>Buffers\<close>

lemma length_overwrite: "off + length data \<le> length buf \<Longrightarrow> length (overwrite buf off data) = length buf"
  by (simp add: overwrite_def)

lemma take_overwrite:
  "off \<le> length buf \<Longrightarrow> take (off + length data) (overwrite buf off data) = take off buf @ data"
  by (simp add: overwrite_def)

text \<open>An assembly in progress: a block of one byte more than the frame, not yet full.  An
  \<open>overwrite\<close> outside the block would lengthen it.\<close>

definition asm_ok :: "WsAssembly option \<Rightarrow> bool" where
  "asm_ok asm = (case asm of
     None \<Rightarrow> True
   | Some a \<Rightarrow> unat (a_total a) \<le> WS_MAX_MESSAGE \<and> unat (a_received a) < unat (a_total a) \<and>
       length (a_buf a) = unat (a_total a) + 1)"

definition rx_queue_ok :: "WsState \<Rightarrow> bool" where
  "rx_queue_ok w = (case ws_rx_queue w of
     None \<Rightarrow> True
   | Some q \<Rightarrow> length q \<le> WS_RX_QUEUE_LEN \<and> list_all (\<lambda>m. 1 \<le> length m \<and> length m \<le> WS_MAX_MESSAGE) q)"

definition malloc_ok :: "allocator \<Rightarrow> bool" where
  "malloc_ok mem \<longleftrightarrow> (\<forall>n blk. mem n = Some blk \<longrightarrow> length blk = n)"

lemma deliver_ok:
  "rx_queue_ok w \<Longrightarrow> 1 \<le> length m \<Longrightarrow> length m \<le> WS_MAX_MESSAGE \<Longrightarrow> rx_queue_ok (ws_deliver w m)"
  by (auto simp: ws_deliver_def rx_queue_ok_def split: option.splits)

lemma chunk_sum:
  fixes r t :: u32
  assumes "unat t \<le> 2048" "unat r \<le> unat t" "n < 4294967296"
    and "ucast r + ucast (word_of_nat n :: u32) \<le> (ucast t :: u64)"
  shows "unat r + n \<le> unat t" "unat (r + word_of_nat n) = unat r + n"
proof -
  have c: "unat (ucast x :: u64) = unat x" for x :: u32
  proof -
    have "unat x < 2 ^ 64" by (rule less_trans [OF unat_u32_lt]) simp
    then show ?thesis by (simp add: unsigned_ucast_eq take_bit_nat_eq_self)
  qed
  have n: "unat (word_of_nat n :: u32) = n" using assms(3) by simp
  have "unat (ucast r + ucast (word_of_nat n :: u32) :: u64) = unat r + n"
    using assms(1-3) by (subst unat_add_lem [THEN iffD1]) (simp_all add: c n)
  with assms(4) show le: "unat r + n \<le> unat t" by (simp add: word_le_nat_alt c)
  have "unat (word_of_nat n :: u32) + unat r < 2 ^ LENGTH(32)" using le assms(1) n by simp
  then show "unat (r + word_of_nat n) = unat r + n" using n
    by (subst unat_add_lem [THEN iffD1]) simp_all
qed

lemma ws_chunk_ok:
  assumes "asm_ok asm" "rx_queue_ok w" "length data < 4294967296"
  shows "rx_queue_ok (fst (ws_chunk w asm info data)) \<and> asm_ok (snd (ws_chunk w asm info data))"
proof (cases asm)
  case None
  then show ?thesis using assms by (simp add: ws_chunk_def asm_ok_def)
next
  case (Some a)
  note a = assms(1) [unfolded Some asm_ok_def option.case]
  show ?thesis
  proof (cases "ws_chunk_in_order (ucast (a_received a)) (ucast (a_total a)) (fr_index info) (fr_len info) (word_of_nat (length data))")
    case False
    then show ?thesis using assms(2) by (simp add: Some ws_chunk_def asm_ok_def)
  next
    case True
    then have "ucast (a_received a) + ucast (word_of_nat (length data) :: u32) \<le> (ucast (a_total a) :: u64)"
      by (simp add: ws_chunk_in_order_def)
    note s = chunk_sum [OF _ _ assms(3) this]
    have le: "unat (a_received a) + length data \<le> unat (a_total a)"
      and sum: "unat (a_received a + word_of_nat (length data)) = unat (a_received a) + length data"
      using s a by (simp_all add: web_limits)
    have len: "length (overwrite (a_buf a) (unat (a_received a)) data) = unat (a_total a) + 1"
      using le a by (simp add: length_overwrite)
    show ?thesis
    proof (cases "a_received a + word_of_nat (length data) < a_total a")
      case more: True
      then have "unat (a_received a + word_of_nat (length data)) < unat (a_total a)" by (simp add: word_less_nat_alt)
      with more True a len assms(2) show ?thesis by (simp add: Some ws_chunk_def asm_ok_def Let_def)
    next
      case more: False
      have "rx_queue_ok (ws_deliver w (take (unat (a_total a)) (overwrite (a_buf a) (unat (a_received a)) data)))"
        using a len by (intro deliver_ok assms(2)) simp_all
      with more True show ?thesis by (simp add: Some ws_chunk_def asm_ok_def Let_def)
    qed
  qed
qed

lemma ws_handle_data_ok:
  assumes "malloc_ok mem" "asm_ok asm" "rx_queue_ok w" "length data < 4294967296"
  shows "case ws_handle_data mem w asm info data of (w', asm', evs) \<Rightarrow> rx_queue_ok w' \<and> asm_ok asm'"
proof (cases info)
  case None
  then show ?thesis using assms by (simp add: ws_handle_data_def)
next
  case (Some i)
  show ?thesis
  proof (cases "fr_index i = 0 \<and> ws_frame_start_ok (fr_final i) (fr_opcode i) (fr_len i) WS_MAX_MESSAGE")
    case True
    then have l: "0 < unat (fr_len i)" "unat (fr_len i) \<le> 2048" by (auto simp: ws_frame_start_ok_def web_limits unat_gt_0)
    have c: "unat (ucast (fr_len i) :: u32) = unat (fr_len i)" using l
      by (simp add: unsigned_ucast_eq take_bit_nat_eq_self)
    show ?thesis
    proof (cases "length data = unat (fr_len i)")
      case whole: True
      have "rx_queue_ok (ws_deliver w (take (length data) (overwrite blk 0 data)))" for blk
        using l whole assms(3) by (intro deliver_ok) (simp_all add: overwrite_def web_limits)
      with whole True assms(3) show ?thesis by (auto simp: ws_handle_data_def Some asm_ok_def split: option.splits)
    next
      case part: False
      show ?thesis
      proof (cases "mem (unat (fr_len i) + 1)")
        case None
        then show ?thesis using part True assms(3) by (simp add: ws_handle_data_def Some asm_ok_def)
      next
        case (Some blk)
        then have "length blk = unat (fr_len i) + 1" using assms(1) by (simp add: malloc_ok_def)
        then have "asm_ok (Some \<lparr>a_total = ucast (fr_len i), a_received = 0, a_buf = blk\<rparr>)"
          using l c by (simp add: asm_ok_def web_limits)
        from ws_chunk_ok [OF this assms(3,4), of i] Some part True \<open>info = Some i\<close> show ?thesis
          by (auto simp add: ws_handle_data_def split: prod.splits)
      qed
    qed
  next
    case False
    then show ?thesis using ws_chunk_ok [OF assms(2-4), of i] assms(3)
      by (auto simp: ws_handle_data_def Some asm_ok_def split: prod.splits if_splits)
  qed
qed

fun ws_run :: "allocator \<Rightarrow> WsState \<Rightarrow> WsAssembly option \<Rightarrow> (AwsFrameInfo option \<times> bytes) list \<Rightarrow> WsState \<times> WsAssembly option \<times> ws_event list" where
  "ws_run mem w asm [] = (w, asm, [])"
| "ws_run mem w asm ((info, data) # cs) =
     (let (w, asm, evs) = ws_handle_data mem w asm info data; (w, asm, evs') = ws_run mem w asm cs in (w, asm, evs @ evs'))"

lemma ws_run_ok:
  assumes "malloc_ok mem" "asm_ok asm" "rx_queue_ok w" "list_all (\<lambda>(i, d). length d < 4294967296) cs"
  shows "case ws_run mem w asm cs of (w', asm', evs) \<Rightarrow> rx_queue_ok w' \<and> asm_ok asm'"
  using assms(2-4)
proof (induction cs arbitrary: w asm)
  case (Cons c cs)
  obtain i d where c: "c = (i, d)" by (cases c)
  obtain w' asm' evs where h: "ws_handle_data mem w asm i d = (w', asm', evs)" by (metis surj_pair)
  have "length d < 4294967296" using Cons.prems(3) by (simp add: c)
  from ws_handle_data_ok [OF assms(1) Cons.prems(1,2) this, of i]
  have "rx_queue_ok w'" "asm_ok asm'" by (simp_all add: h)
  with Cons.IH [of asm' w'] Cons.prems(3) show ?case by (simp add: c h split: prod.splits)
qed simp

text \<open>
  Whatever chunks arrive and whatever the library says of them (any lengths, any order,
  any offsets), every byte is written inside the block allocated for its frame, and the queue
  to the worker holds at most eight messages, each of 1 to 2048 bytes.\<close>

lemma ws_chunks_safe:
  assumes "malloc_ok mem" and "asm_ok asm" and "rx_queue_ok w"
    and "list_all (\<lambda>(i, d). length d < 4294967296) cs"
  shows "case ws_run mem w asm cs of (w', asm', evs) \<Rightarrow> rx_queue_ok w' \<and> asm_ok asm'"
  by (rule ws_run_ok [OF assms])

definition sample_ws :: WsState where
  "sample_ws = WsState_init\<lparr>ws_rx_queue := Some []\<rparr>"

definition zero_malloc :: allocator where
  "zero_malloc n = Some (replicate n 0)"

section \<open>Reassembly\<close>

text \<open>The chunks the library hands over for a text frame that arrives in the pieces \<open>cs\<close>.\<close>

fun chunk_events :: "nat \<Rightarrow> nat \<Rightarrow> bytes list \<Rightarrow> (AwsFrameInfo option \<times> bytes) list" where
  "chunk_events tot off [] = []"
| "chunk_events tot off (c # cs) =
     (Some \<lparr>fr_final = True, fr_opcode = 1, fr_len = word_of_nat tot, fr_index = word_of_nat off\<rparr>, c) #
     chunk_events tot (off + length c) cs"

lemma unat_of_nat_u64_small: "n \<le> 2048 \<Longrightarrow> unat (word_of_nat n :: u64) = n"
  by (simp add: unat_of_nat)

lemma in_order_here:
  assumes "off + n \<le> tot" "tot \<le> 2048" "0 < n"
  shows "ws_chunk_in_order (ucast (word_of_nat off :: u32)) (ucast (word_of_nat tot :: u32)) (word_of_nat off) (word_of_nat tot) (word_of_nat n)"
proof -
  have u: "ucast (word_of_nat k :: u32) = (word_of_nat k :: u64)" if "k \<le> 2048" for k
    using that unfolding word_unat_eq_iff by (simp add: unsigned_ucast_eq unat_of_nat take_bit_nat_eq_self)
  have "(word_of_nat n :: u32) > 0" using assms by (simp add: word_less_nat_alt)
  moreover have "(word_of_nat off + word_of_nat n :: u64) \<le> word_of_nat tot"
  proof -
    have "(word_of_nat off + word_of_nat n :: u64) = word_of_nat (off + n)" by simp
    then show ?thesis using assms unat_of_nat_u64_small [of "off + n"] unat_of_nat_u64_small [of tot]
      by (simp add: word_le_nat_alt)
  qed
  ultimately show ?thesis using assms by (simp add: ws_chunk_in_order_def u)
qed

lemma ws_chunk_here:
  assumes "length pre = off" "off + length c \<le> tot" "tot \<le> 2048" "c \<noteq> []" "length buf = tot + 1" "take off buf = pre"
  shows "ws_chunk w (Some \<lparr>a_total = word_of_nat tot, a_received = word_of_nat off, a_buf = buf\<rparr>)
      \<lparr>fr_final = True, fr_opcode = 1, fr_len = word_of_nat tot, fr_index = word_of_nat off\<rparr> c =
    (if off + length c < tot then
       (w, Some \<lparr>a_total = word_of_nat tot, a_received = word_of_nat (off + length c), a_buf = overwrite buf off c\<rparr>)
     else (ws_deliver w (pre @ c), None))"
proof -
  have o1: "ws_chunk_in_order (ucast (word_of_nat off :: u32)) (ucast (word_of_nat tot :: u32)) (word_of_nat off)
      (word_of_nat tot) (word_of_nat (length c))"
    using assms by (intro in_order_here) auto
  have u: "unat (word_of_nat k :: u32) = k" if "k \<le> 2048" for k using that by (simp add: unat_of_nat)
  have lt: "(word_of_nat off + word_of_nat (length c) :: u32) < word_of_nat tot \<longleftrightarrow> off + length c < tot"
  proof -
    have "(word_of_nat off + word_of_nat (length c) :: u32) = word_of_nat (off + length c)" by simp
    then show ?thesis using assms u [of "off + length c"] u [of tot] by (simp add: word_less_nat_alt)
  qed
  have tk: "take (off + length c) (overwrite buf off c) = pre @ c" using assms take_overwrite [of off buf c] by simp
  show ?thesis
  proof (cases "off + length c < tot")
    case True
    then show ?thesis using o1 lt assms u [of off] by (simp add: ws_chunk_def Let_def)
  next
    case False
    then have "off + length c = tot" using assms by simp
    then show ?thesis using o1 lt assms u [of off] u [of tot] tk False by (simp add: ws_chunk_def Let_def)
  qed
qed

lemma ws_run_chunks:
  assumes "length pre = off" "off + length (concat cs) = tot" "off < tot" "0 < off" "tot \<le> 2048" "list_all (\<lambda>c. c \<noteq> []) cs"
    "length buf = tot + 1" "take off buf = pre"
  shows "ws_run mem w (Some \<lparr>a_total = word_of_nat tot, a_received = word_of_nat off, a_buf = buf\<rparr>) (chunk_events tot off cs) =
    (ws_deliver w (pre @ concat cs), None, [])"
  using assms
proof (induction cs arbitrary: pre off buf)
  case (Cons c cs)
  have nz: "(word_of_nat off :: u64) \<noteq> 0"
  proof
    assume "(word_of_nat off :: u64) = 0"
    then have "unat (word_of_nat off :: u64) = 0" by simp
    then show False using Cons.prems unat_of_nat_u64_small [of off] by simp
  qed
  have le: "off + length c \<le> tot" "c \<noteq> []" using Cons.prems by auto
  note here = ws_chunk_here [OF Cons.prems(1) le(1) Cons.prems(5) le(2) Cons.prems(7,8), of w]
  show ?case
  proof (cases "off + length c < tot")
    case True
    have tk: "take (off + length c) (overwrite buf off c) = pre @ c"
      using Cons.prems take_overwrite [of off buf c] by simp
    have ln: "length (overwrite buf off c) = tot + 1" using le Cons.prems by (simp add: length_overwrite)
    have "ws_run mem w (Some \<lparr>a_total = word_of_nat tot, a_received = word_of_nat (off + length c), a_buf = overwrite buf off c\<rparr>)
        (chunk_events tot (off + length c) cs) = (ws_deliver w ((pre @ c) @ concat cs), None, [])"
      using Cons.prems tk ln True by (intro Cons.IH) auto
    then show ?thesis using here True nz by (simp add: ws_handle_data_def Let_def)
  next
    case False
    then have "cs = []" using Cons.prems by (cases cs) auto
    then show ?thesis using here False nz by (simp add: ws_handle_data_def)
  qed
qed simp

lemma ws_one_message:
  assumes "\<And>n. \<exists>blk. mem n = Some blk \<and> length blk = n"
    and "concat cs = m" and "list_all (\<lambda>c. c \<noteq> []) cs" and "1 \<le> length m" and "length m \<le> 2048"
  shows "ws_run mem w asm (chunk_events (length m) 0 cs) = (ws_deliver w m, None, [])"
proof -
  obtain c cs' where cs: "cs = c # cs'" using assms(2,4) by (cases cs) auto
  have u: "unat (word_of_nat (length m) :: u64) = length m" using assms(5) by (rule unat_of_nat_u64_small)
  have start: "ws_frame_start_ok True 1 (word_of_nat (length m)) WS_MAX_MESSAGE"
  proof -
    have "(word_of_nat (length m) :: u64) > 0" unfolding word_less_nat_alt u using assms(4) by (cases m) simp_all
    with u assms(5) show ?thesis by (simp add: ws_frame_start_ok_def web_limits)
  qed
  have c: "c \<noteq> []" "length c \<le> length m" using assms(2,3) by (auto simp: cs)
  have uc: "(ucast (word_of_nat (length m) :: u64) :: u32) = word_of_nat (length m)"
    using assms(5) unfolding word_unat_eq_iff by (simp add: unsigned_ucast_eq unat_of_nat take_bit_nat_eq_self)
  obtain blk where blk: "mem (length m + 1) = Some blk" "length blk = length m + 1" using assms(1) by blast
  obtain blk' where blk': "mem (length c + 1) = Some blk'" "length blk' = length c + 1" using assms(1) by blast
  show ?thesis
  proof (cases "length c = length m")
    case True
    then have "cs' = []" using assms(2,3) by (cases cs') (auto simp: cs)
    then have "m = c" using assms(2) by (simp add: cs)
    with True u start blk' \<open>cs' = []\<close> show ?thesis
      by (simp add: cs ws_handle_data_def overwrite_def)
  next
    case False
    then have lt: "length c < length m" using c by simp
    have h0: "ws_chunk w (Some \<lparr>a_total = word_of_nat (length m), a_received = word_of_nat 0, a_buf = blk\<rparr>)
        \<lparr>fr_final = True, fr_opcode = 1, fr_len = word_of_nat (length m), fr_index = word_of_nat 0\<rparr> c =
      (w, Some \<lparr>a_total = word_of_nat (length m), a_received = word_of_nat (length c), a_buf = overwrite blk 0 c\<rparr>)"
      using ws_chunk_here [of "[]" 0 c "length m" blk w] lt c blk assms(5) by simp
    have r: "ws_run mem w (Some \<lparr>a_total = word_of_nat (length m), a_received = word_of_nat (length c), a_buf = overwrite blk 0 c\<rparr>)
        (chunk_events (length m) (length c) cs') = (ws_deliver w (c @ concat cs'), None, [])"
    proof (rule ws_run_chunks)
      show "length c + length (concat cs') = length m" using assms(2) by (simp add: cs) (metis length_append)
      show "length (overwrite blk 0 c) = length m + 1" using lt blk by (simp add: length_overwrite)
      show "take (length c) (overwrite blk 0 c) = c" by (simp add: overwrite_def)
    qed (use lt c assms(3,5) cs in auto)
    have "c @ concat cs' = m" using assms(2) by (simp add: cs)
    with r h0 u uc start lt blk show ?thesis by (simp add: cs ws_handle_data_def Let_def)
  qed
qed

lemma ws_run_append:
  "ws_run mem w asm (xs @ ys) =
     (case ws_run mem w asm xs of (w', asm', evs) \<Rightarrow>
       (case ws_run mem w' asm' ys of (w'', asm'', evs') \<Rightarrow> (w'', asm'', evs @ evs')))"
  by (induction xs arbitrary: w asm) (auto simp: Let_def split: prod.splits)

text \<open>The chunks of several messages of one client, each given in the pieces it arrives in.\<close>

definition frames_arrive :: "bytes list list \<Rightarrow> (AwsFrameInfo option \<times> bytes) list" where
  "frames_arrive ms = concat (map (\<lambda>cs. chunk_events (length (concat cs)) 0 cs) ms)"

text \<open>
  C26 (ws_message_reassembled). Text messages of 1 to 2048 bytes, each cut into whatever network segments, reach the
  worker's queue byte for byte, in order and each once, until the queue holds eight; those that
  find it full are dropped as a whole, and nothing else changes. It does not matter what an
  earlier unfinished message left behind; the reassembly is empty afterwards and the client is
  not closed. Before the queue is created every message is dropped.\<close>

theorem ws_message_reassembled:
  assumes "\<And>n. \<exists>blk. mem n = Some blk \<and> length blk = n"
    and "\<forall>cs \<in> set ms. (\<forall>c \<in> set cs. c \<noteq> []) \<and> 1 \<le> length (concat cs) \<and> length (concat cs) \<le> 2048"
    and "ms \<noteq> []"
  shows "(\<forall>q. ws_rx_queue w = Some q \<and> length q \<le> 8 \<longrightarrow>
      ws_run mem w asm (frames_arrive ms) = (w\<lparr>ws_rx_queue := Some (take 8 (q @ map concat ms))\<rparr>, None, [])) \<and>
    (ws_rx_queue w = None \<longrightarrow> ws_run mem w asm (frames_arrive ms) = (w, None, []))"
proof -
  have run: "ws_run mem w asm (frames_arrive ms) = (foldl ws_deliver w (map concat ms), if ms = [] then asm else None, [])"
    if "\<forall>cs \<in> set ms. (\<forall>c \<in> set cs. c \<noteq> []) \<and> 1 \<le> length (concat cs) \<and> length (concat cs) \<le> 2048" for w asm ms
    using that
  proof (induction ms arbitrary: w asm)
    case (Cons cs ms)
    have "ws_run mem w asm (chunk_events (length (concat cs)) 0 cs) = (ws_deliver w (concat cs), None, [])"
      using Cons.prems by (intro ws_one_message assms(1)) (auto simp: list_all_iff)
    with Cons.IH [of "ws_deliver w (concat cs)" None] Cons.prems show ?case
      by (simp add: frames_arrive_def ws_run_append)
  qed (simp add: frames_arrive_def)
  have queue: "foldl ws_deliver w xs = w\<lparr>ws_rx_queue := Some (take 8 (q @ xs))\<rparr>"
    if "ws_rx_queue w = Some q" "length q \<le> 8" for q xs w
    using that
  proof (induction xs arbitrary: q w)
    case (Cons x xs)
    show ?case
    proof (cases "length q < 8")
      case True
      then have "ws_deliver w x = w\<lparr>ws_rx_queue := Some (q @ [x])\<rparr>"
        using Cons.prems by (simp add: ws_deliver_def WS_RX_QUEUE_LEN_def)
      with True Cons.IH [of "w\<lparr>ws_rx_queue := Some (q @ [x])\<rparr>" "q @ [x]"] show ?thesis by simp
    next
      case False
      with Cons.prems have "ws_deliver w x = w" "length q = 8" by (simp_all add: ws_deliver_def WS_RX_QUEUE_LEN_def)
      with Cons.IH [of w q] Cons.prems show ?thesis by simp
    qed
  qed (cases w, simp)
  have none: "foldl ws_deliver w xs = w" if "ws_rx_queue w = None" for w xs
    using that by (induction xs) (simp_all add: ws_deliver_def)
  show ?thesis using run [OF assms(2), of w asm] queue none assms(3) by simp
qed

theorem ws_message_reassembled_witness:
  "ws_run zero_malloc sample_ws None (frames_arrive [[[123], [32, 125]], [[91, 93]]]) =
     (sample_ws\<lparr>ws_rx_queue := Some [[123, 32, 125], [91, 93]]\<rparr>, None, [])"
  using ws_message_reassembled [of zero_malloc "[[[123], [32, 125]], [[91, 93]]]" sample_ws None]
  by (simp add: zero_malloc_def sample_ws_def)

section \<open>The outbound queue\<close>

datatype out_op =
    Send bool bool string string
  | SenderTurn u32 SenderState
  | WsClients u32
  | SseClients u32

fun out_step :: "WsState \<Rightarrow> out_op \<Rightarrow> WsState" where
  "out_step w (Send mem_ok ws d tp) = enqueue_out mem_ok w ws d tp"
| "out_step w (SenderTurn now t) = fst (ws_sender_step now w t)"
| "out_step w (WsClients n) = w\<lparr>ws_client_count := n\<rparr>"
| "out_step w (SseClients n) = w\<lparr>sse_client_count := n\<rparr>"

definition out_inv :: "WsState \<Rightarrow> bool" where
  "out_inv w = (case ws_out_queue w of
     None \<Rightarrow> True
   | Some q \<Rightarrow> length q \<le> WS_OUT_QUEUE_LEN \<and> length (filter (\<lambda>m. \<not> to_ws m) q) \<le> WS_OUT_QUEUE_LEN - WS_OUT_RESERVED)"

lemmas ws_queue_defs = WS_OUT_QUEUE_LEN_def WS_OUT_RESERVED_def

lemma out_inv_cong: "ws_out_queue w' = ws_out_queue w \<Longrightarrow> out_inv w' = out_inv w"
  by (simp add: out_inv_def)

lemma enqueue_queue:
  "ws_out_queue (enqueue_out mem_ok w ws d tp) = ws_out_queue w \<or>
   (\<exists>q m. ws_out_queue w = Some q \<and> ws_out_queue (enqueue_out mem_ok w ws d tp) = Some (q @ [m]) \<and>
      to_ws m = ws \<and> o_data m = d \<and> length q < WS_OUT_QUEUE_LEN \<and>
      (\<not> ws \<longrightarrow> length q < WS_OUT_QUEUE_LEN - WS_OUT_RESERVED))"
  by (cases ws) (auto simp: enqueue_out_def count_drop_def Let_def out_queue_admit_def ws_queue_defs split: option.splits)

lemma enqueue_inv: "out_inv w \<Longrightarrow> out_inv (enqueue_out mem_ok w ws d tp)"
proof -
  assume inv: "out_inv w"
  show ?thesis
    using enqueue_queue [of mem_ok w ws d tp]
  proof (elim disjE exE conjE)
    assume "ws_out_queue (enqueue_out mem_ok w ws d tp) = ws_out_queue w"
    then show ?thesis using inv out_inv_cong by blast
  next
    fix q m
    assume q: "ws_out_queue w = Some q" "ws_out_queue (enqueue_out mem_ok w ws d tp) = Some (q @ [m])" "to_ws m = ws"
      "length q < WS_OUT_QUEUE_LEN" "\<not> ws \<longrightarrow> length q < WS_OUT_QUEUE_LEN - WS_OUT_RESERVED"
    have "length (filter (\<lambda>m. \<not> to_ws m) q) \<le> length q" by simp
    moreover have "\<not> ws \<Longrightarrow> length q < 24" using q(5) by (simp add: ws_queue_defs)
    ultimately have "\<not> ws \<Longrightarrow> length (filter (\<lambda>m. \<not> to_ws m) q) < 24" by linarith
    then show ?thesis using inv q by (cases ws) (auto simp add: out_inv_def ws_queue_defs)
  qed
qed

lemma sender_take_inv: "out_inv w \<Longrightarrow> out_inv (fst (sender_take w))"
  by (auto simp: sender_take_def out_inv_def split: option.splits list.splits if_splits)

lemma sender_step_state: "fst (ws_sender_step now w t) = fst (sender_take w)"
  by (simp add: ws_sender_step_def Let_def split: prod.split)

lemma out_step_inv: "out_inv w \<Longrightarrow> out_inv (out_step w oper)"
  by (cases oper) (simp_all add: enqueue_inv sender_step_state sender_take_inv, simp_all add: out_inv_def)

lemma out_run_inv: "out_inv w \<Longrightarrow> out_inv (foldl out_step w opers)"
  by (induction opers arbitrary: w) (simp_all add: out_step_inv)

text \<open>
  However many log lines and telemetry events are produced, whatever the order of
  senders, sender task and clients coming and going, a reply to a browser is queued unless at
  least \<open>WS_OUT_RESERVED\<close> other replies are already waiting: events never take the last eight
  of the 32 slots.\<close>

lemma ws_reply_not_crowded_out:
  assumes "ws_out_queue w0 = Some []" and "w = foldl out_step w0 opers" and "ws_client_count w > 0"
    and "ws_out_queue w = Some q" and "length (filter to_ws q) < WS_OUT_RESERVED"
  shows "\<exists>m. ws_out_queue (send_to_ws True w msg) = Some (q @ [m]) \<and> to_ws m \<and> o_data m = msg"
proof -
  have "out_inv w0" using assms(1) by (simp add: out_inv_def)
  then have "out_inv w" unfolding assms(2) by (rule out_run_inv)
  then have "length (filter (\<lambda>m. \<not> to_ws m) q) \<le> 24" using assms(4) by (simp add: out_inv_def ws_queue_defs)
  then have "length q < 32" using assms(5) sum_length_filter_compl [of to_ws q] by (simp add: ws_queue_defs)
  then show ?thesis using assms(3,4) by (simp add: send_to_ws_def enqueue_out_def Let_def ws_queue_defs)
qed

text \<open>A stream request that the gate lets through is signed in, and comes from the board's own pages.\<close>

lemma gate_lets_through:
  assumes "gate_canHandle e a r = (a', False)" and "gr_get r" and "gr_url r = ''/ws'' \<or> gr_url r = ''/rawEvents''"
  shows "origin_allowed (gr_origin r) (Some (gr_host r)) \<and> snd (auth_check e (fst (auth_is_set e a)) (Some (gr_auth r)))"
  using assms by (auto simp: gate_canHandle_def gate_check_def Let_def split: prod.splits if_splits)

end
