(* ===== verification/Web_Api.thy ===== *)
theory Web_Api
  imports Web_Sockets Storage
begin

text \<open>
  The HTTP interface (\<open>src/src/web/web_server.cpp\<close>, without the firmware updates): the gates in
  front of the routes, the routes, and their replies and effects.  \<open>serve\<close> runs a request
  through the handlers in the order in which \<open>define_api\<close> registers them, as the web server
  library does (the stream handlers take their exact URL); how the library matches another route to a URL (\<open>route\<close>) and which static files
  exist (\<open>exists_file\<close>) are parameters.
\<close>

section \<open>Requests and replies\<close>

definition API_MAX_BODY :: nat where "API_MAX_BODY = 2048"

datatype http_method = HTTP_GET | HTTP_POST | HTTP_DELETE | HTTP_OTHER

record web_request =
  q_method :: http_method
  q_url :: string
  q_host :: string
  q_origin :: "string option"
  q_chunked :: bool
  q_length :: nat
  q_data :: "string option"
  q_password :: "string option"
  q_name :: "string option"
  q_auth :: auth_request

datatype web_reply =
    Json nat string
  | PlainText nat string
  | HtmlPage string
  | Redirect string
  | AskLogin string
  | SetCookie string
  | ClearCookie
  | SendFile string
  | StatusOnly nat
  | StreamUpgrade
  | ToUpdater

datatype web_effect = SpawnTask string | StorePassword nvs_op

record WebState =
  w_auth :: AuthState
  g_tx_id :: u32
  w_queue :: "QueueParam list option"
  fs_offline :: bool

text \<open>What the rest of the system gives a request.\<close>

record web_env =
  x_nvs :: nvs_env
  x_md :: "string \<Rightarrow> string"
  x_random :: "u32 list"
  x_username :: string
  x_hostname :: string
  x_mac :: string
  x_alloc :: bool
  x_depth :: nat
  x_waiting :: u32
  x_file :: "string \<Rightarrow> string option"
  x_doc :: "string \<Rightarrow> jdoc option"
  x_task :: bool

section \<open>Gates\<close>

definition http_error :: "nat \<Rightarrow> string \<Rightarrow> web_reply" where
  "http_error code err = Json code (''{\"error\":\"'' @ err @ ''\"}'')"

definition origin_ok :: "web_request \<Rightarrow> bool" where
  "origin_ok r = origin_allowed (q_origin r) (Some (q_host r))"

definition login_reply :: "auth_reply \<Rightarrow> web_reply" where
  "login_reply a = (case a of SetupRequired403 \<Rightarrow> http_error 403 ''setup_required'' | Challenge realm \<Rightarrow> AskLogin realm)"

definition guard :: "web_env \<Rightarrow> AuthState \<Rightarrow> web_request \<Rightarrow> bool \<Rightarrow> AuthState \<times> bool \<times> web_reply list" where
  "guard e a r state_changing =
     (if state_changing \<and> \<not> origin_ok r then (a, False, [http_error 403 ''origin''])
      else (case auth_require (x_nvs e) a (Some (q_auth r)) of (a, ok, rs) \<Rightarrow> (a, ok, map login_reply rs)))"

definition is_ota_url :: "string \<Rightarrow> bool" where
  "is_ota_url u \<longleftrightarrow> u = ''/update_flash'' \<or> u = ''/update_littlefs''"

definition pregate_canHandle :: "bool \<Rightarrow> web_request \<Rightarrow> bool" where
  "pregate_canHandle offline r =
     (if path_is_blocked (Some (q_url r)) then True
      else if q_chunked r then True
      else if offline \<and> \<not> allowed_while_fs_offline (Some (q_url r)) then True
      else q_length r > API_MAX_BODY \<and> \<not> is_ota_url (q_url r))"

definition pregate_handleRequest :: "bool \<Rightarrow> web_request \<Rightarrow> web_reply" where
  "pregate_handleRequest offline r =
     (if path_is_blocked (Some (q_url r)) then http_error 403 ''forbidden''
      else if q_chunked r then http_error 411 ''length_required''
      else if offline \<and> \<not> allowed_while_fs_offline (Some (q_url r)) then http_error 503 ''fs_updating''
      else http_error 413 ''too_large'')"

definition setupgate_canHandle :: "web_env \<Rightarrow> AuthState \<Rightarrow> web_request \<Rightarrow> AuthState \<times> bool" where
  "setupgate_canHandle e a r =
     (if q_method r = HTTP_GET \<and> is_page_request (Some (q_url r))
      then (let (a, set) = auth_is_set (x_nvs e) a in (a, \<not> set)) else (a, False))"

section \<open>Sending a message\<close>

definition next_tx_id :: "WebState \<Rightarrow> WebState \<times> u32" where
  "next_tx_id s = (let nxt = tx_id_after (g_tx_id s) in (s\<lparr>g_tx_id := nxt\<rparr>, nxt))"

definition enqueue_tx :: "web_env \<Rightarrow> WebState \<Rightarrow> u8 \<Rightarrow> string \<Rightarrow> WebState \<times> web_reply" where
  "enqueue_tx e s ty message =
     (if \<not> x_alloc e then (s, http_error 503 ''no_memory'')
      else
        let (s, tx) = next_tx_id s; q = \<lparr>q_type = ty, q_message = str_bytes message, q_id = tx\<rparr> in
        (case w_queue s of
           None \<Rightarrow> (s, http_error 503 ''queue_full'')
         | Some items \<Rightarrow>
             if length items < x_depth e
             then (s\<lparr>w_queue := Some (items @ [q])\<rparr>,
                   Json 202 (case tx_accepted_body tx (x_waiting e) (Some 48) of None \<Rightarrow> [] | Some b \<Rightarrow> b))
             else (s, http_error 503 ''queue_full'')))"

fun tx_error_name :: "TxCheck \<Rightarrow> string" where
  "tx_error_name TX_MISSING = ''missing_data''"
| "tx_error_name TX_BAD_JSON = ''bad_json''"
| "tx_error_name TX_TOO_LARGE = ''too_large''"
| "tx_error_name TX_OK = ''error''"

definition handle_lora_transmit ::
  "'v json_api \<Rightarrow> web_env \<Rightarrow> WebState \<Rightarrow> web_request \<Rightarrow> WebState \<times> web_reply list \<times> web_effect list" where
  "handle_lora_transmit J e s r =
     (let (a, ok, rs) = guard e (w_auth s) r True; s = s\<lparr>w_auth := a\<rparr> in
      if \<not> ok then (s, rs, [])
      else
        let name = x_username e; mac = x_mac e;
            c = fst (check_lora_transmit J (q_data r) (Some name) (Some mac) LORA_MAX_PAYLOAD) in
        if c \<noteq> TX_OK then (s, [http_error (nat (tx_check_status c)) (tx_error_name c)], [])
        else
          let (s, reply) = enqueue_tx e s LORA_MSG (jser J (fill_lora_msg (Some name) (Some mac) (q_data r)))
          in (s, [reply], []))"

section \<open>Passwords and sessions\<close>

definition send_session_cookie :: "web_env \<Rightarrow> WebState \<Rightarrow> WebState \<times> web_reply" where
  "send_session_cookie e s =
     (case auth_session_create (x_random e) (x_nvs e) (w_auth s) of
        (a, None) \<Rightarrow> (s\<lparr>w_auth := a\<rparr>, http_error 403 ''setup_required'')
      | (a, Some tok) \<Rightarrow> (s\<lparr>w_auth := a\<rparr>, SetCookie tok))"

definition set_password :: "web_env \<Rightarrow> WebState \<Rightarrow> web_request \<Rightarrow> WebState \<times> web_reply list \<times> web_effect list" where
  "set_password e s r =
     (if \<not> password_valid (q_password r) then (s, [http_error 400 ''password_length''], [])
      else
        let (a, ops, ok) = auth_set (x_md e) (x_nvs e) (w_auth s) (q_password r) in
        (s\<lparr>w_auth := a\<rparr>, [if \<not> ok then http_error 500 ''nvs_write'' else Json 200 ''{\"ok\":true}''], map StorePassword ops))"

definition auth_status :: "web_env \<Rightarrow> WebState \<Rightarrow> web_request \<Rightarrow> WebState \<times> web_reply list \<times> web_effect list" where
  "auth_status e s r =
     (let (a, set) = auth_is_set (x_nvs e) (w_auth s)
      in (s\<lparr>w_auth := a\<rparr>, [Json 200 (if set then ''{\"set\":true}'' else ''{\"set\":false}'')], []))"

definition auth_setup :: "web_env \<Rightarrow> WebState \<Rightarrow> web_request \<Rightarrow> WebState \<times> web_reply list \<times> web_effect list" where
  "auth_setup e s r =
     (if \<not> origin_ok r then (s, [http_error 403 ''origin''], [])
      else
        let (a, set) = auth_is_set (x_nvs e) (w_auth s); s = s\<lparr>w_auth := a\<rparr> in
        if set then (s, [http_error 409 ''already_set''], []) else set_password e s r)"

definition auth_change :: "web_env \<Rightarrow> WebState \<Rightarrow> web_request \<Rightarrow> WebState \<times> web_reply list \<times> web_effect list" where
  "auth_change e s r =
     (let (a, ok, rs) = guard e (w_auth s) r True; s = s\<lparr>w_auth := a\<rparr> in
      if \<not> ok then (s, rs, []) else set_password e s r)"

definition session_get :: "web_env \<Rightarrow> WebState \<Rightarrow> web_request \<Rightarrow> WebState \<times> web_reply list \<times> web_effect list" where
  "session_get e s r =
     (let (a, ok, rs) = guard e (w_auth s) r False; s = s\<lparr>w_auth := a\<rparr> in
      if \<not> ok then (s, rs, []) else (let (s, reply) = send_session_cookie e s in (s, [reply], [])))"

definition session_delete :: "web_env \<Rightarrow> WebState \<Rightarrow> web_request \<Rightarrow> WebState \<times> web_reply list \<times> web_effect list" where
  "session_delete e s r =
     (if \<not> origin_ok r then (s, [http_error 403 ''origin''], [])
      else
        let tok = (case rq_cookie (q_auth r) of None \<Rightarrow> None
                   | Some h \<Rightarrow> cookie_get (Some h) (Some AUTH_SESSION_COOKIE) (Some 40)) in
        (s\<lparr>w_auth := (case tok of None \<Rightarrow> w_auth s | Some t \<Rightarrow> auth_session_revoke (w_auth s) (Some t))\<rparr>, [ClearCookie], []))"

section \<open>Settings, restart, reset\<close>

definition handle_api_config ::
  "(jdoc \<Rightarrow> string) \<Rightarrow> web_env \<Rightarrow> WebState \<Rightarrow> web_request \<Rightarrow> WebState \<times> web_reply list \<times> web_effect list" where
  "handle_api_config ser e s r =
     (let (a, ok, rs) = guard e (w_auth s) r False; s = s\<lparr>w_auth := a\<rparr> in
      if \<not> ok then (s, rs, [])
      else if q_name r = None \<or> \<not> is_allowed_config_name (q_name r) then (s, [http_error 400 ''bad_name''], [])
      else
        (case x_file e (''/config/'' @ the (q_name r)) of
           None \<Rightarrow> (s, [http_error 404 ''not_found''], [])
         | Some raw \<Rightarrow>
             if \<not> is_wifi_config_name (q_name r) then (s, [Json 200 raw], [])
             else
               (case x_doc e raw of
                  None \<Rightarrow> (s, [http_error 500 ''parse_failed''], [])
                | Some doc \<Rightarrow>
                    (case redact_wifi_config doc of
                       None \<Rightarrow> (s, [http_error 500 ''parse_failed''], [])
                     | Some doc \<Rightarrow> (s, [Json 200 (ser doc)], [])))))"

definition reply_and_spawn :: "web_env \<Rightarrow> string \<Rightarrow> string \<Rightarrow> web_reply list \<times> web_effect list" where
  "reply_and_spawn e task msg =
     (if \<not> x_task e then ([http_error 500 ''task_create''], []) else ([PlainText 200 msg], [SpawnTask task]))"

definition spawn_route ::
  "web_env \<Rightarrow> WebState \<Rightarrow> web_request \<Rightarrow> string \<Rightarrow> string \<Rightarrow> WebState \<times> web_reply list \<times> web_effect list" where
  "spawn_route e s r task msg =
     (let (a, ok, rs) = guard e (w_auth s) r True; s = s\<lparr>w_auth := a\<rparr> in
      if \<not> ok then (s, rs, []) else (let (rs, evs) = reply_and_spawn e task msg in (s, rs, evs)))"

section \<open>All routes\<close>

definition setup_page :: "web_env \<Rightarrow> WebState \<Rightarrow> web_request \<Rightarrow> WebState \<times> web_reply list \<times> web_effect list" where
  "setup_page e s r =
     (let (a, set) = auth_is_set (x_nvs e) (w_auth s)
      in (s\<lparr>w_auth := a\<rparr>, [if set then Redirect ''/'' else HtmlPage ''setup''], []))"

definition update_page :: "web_env \<Rightarrow> WebState \<Rightarrow> web_request \<Rightarrow> WebState \<times> web_reply list \<times> web_effect list" where
  "update_page e s r =
     (let (a, ok, rs) = guard e (w_auth s) r False
      in (s\<lparr>w_auth := a\<rparr>, if \<not> ok then rs else [HtmlPage ''update''], []))"

definition not_found :: "bool \<Rightarrow> (string \<Rightarrow> bool) \<Rightarrow> web_request \<Rightarrow> web_reply" where
  "not_found offline exists_file r =
     (if q_method r = HTTP_GET \<and> is_missing_asset (Some (q_url r)) then StatusOnly 404
      else if q_method r = HTTP_GET \<and> \<not> offline \<and> exists_file ''/index.html'' then SendFile ''/index.html''
      else if q_method r = HTTP_GET then Redirect ''/update''
      else StatusOnly 404)"

definition api_route ::
  "'v json_api \<Rightarrow> (string \<Rightarrow> string \<Rightarrow> bool) \<Rightarrow> (string \<Rightarrow> bool) \<Rightarrow> web_env \<Rightarrow> WebState \<Rightarrow> web_request \<Rightarrow>
     WebState \<times> web_reply list \<times> web_effect list" where
  "api_route J route exists_file e s r =
     (let is_at = (\<lambda>md u. q_method r = md \<and> route u (q_url r)) in
      if q_method r = HTTP_GET \<and> (q_url r = ''/ws'' \<or> q_url r = ''/rawEvents'') then (s, [StreamUpgrade], [])
      else if is_at HTTP_GET ''/api/auth/status'' then auth_status e s r
      else if is_at HTTP_POST ''/api/auth/setup'' then auth_setup e s r
      else if is_at HTTP_POST ''/api/auth/change'' then auth_change e s r
      else if is_at HTTP_GET ''/api/session'' then session_get e s r
      else if is_at HTTP_DELETE ''/api/session'' then session_delete e s r
      else if is_at HTTP_GET ''/setup'' then setup_page e s r
      else if is_at HTTP_GET ''/hostname'' then (s, [PlainText 200 (x_hostname e)], [])
      else if is_at HTTP_GET ''/username'' then (s, [PlainText 200 (x_username e)], [])
      else if is_at HTTP_POST ''/lora_transmit'' then handle_lora_transmit J e s r
      else if is_at HTTP_GET ''/api/config'' then handle_api_config (jser J) e s r
      else if is_at HTTP_POST ''/restart'' then spawn_route e s r ''restart'' ''Restarting device''
      else if is_at HTTP_POST ''/reset'' then spawn_route e s r ''reset_device'' ''Resetting device''
      else if is_at HTTP_GET ''/update'' then update_page e s r
      else if is_at HTTP_POST ''/update_flash'' \<or> is_at HTTP_POST ''/update_littlefs'' then (s, [ToUpdater], [])
      else if q_method r = HTTP_GET \<and> exists_file (q_url r) \<and> \<not> path_is_blocked (Some (q_url r))
      then (s, [SendFile (q_url r)], [])
      else (s, [not_found (fs_offline s) exists_file r], []))"

text \<open>The gate of the streams sees the request through \<open>gate_request\<close>.\<close>

definition stream_request :: "web_request \<Rightarrow> gate_request" where
  "stream_request r = \<lparr>gr_get = (q_method r = HTTP_GET), gr_url = q_url r, gr_origin = q_origin r, gr_host = q_host r, gr_auth = q_auth r\<rparr>"

definition stream_reply :: "gate_reply \<Rightarrow> web_reply" where
  "stream_reply g = (case g of Send403 err \<Rightarrow> http_error 403 err | RequestAuthentication realm \<Rightarrow> AskLogin realm | Send500 \<Rightarrow> StatusOnly 500)"

definition serve ::
  "'v json_api \<Rightarrow> (string \<Rightarrow> string \<Rightarrow> bool) \<Rightarrow> (string \<Rightarrow> bool) \<Rightarrow> web_env \<Rightarrow> WebState \<Rightarrow> web_request \<Rightarrow>
     WebState \<times> web_reply list \<times> web_effect list" where
  "serve J route exists_file e s r =
     (if pregate_canHandle (fs_offline s) r then (s, [pregate_handleRequest (fs_offline s) r], [])
      else
        let (a, setup) = setupgate_canHandle e (w_auth s) r; s = s\<lparr>w_auth := a\<rparr> in
        if setup then (s, [Redirect ''/setup''], [])
        else
          let (a, refused) = gate_canHandle (x_nvs e) (w_auth s) (stream_request r); s = s\<lparr>w_auth := a\<rparr> in
          if refused then
            (let (a, g) = gate_handleRequest (x_nvs e) (w_auth s) (stream_request r) in (s\<lparr>w_auth := a\<rparr>, [stream_reply g], []))
          else api_route J route exists_file e s r)"

section \<open>Nothing happens without a login\<close>

text \<open>What a request may do to the state when it has no right to: load the stored password.  \<open>same\<close> also lets a
  session be revoked.\<close>

definition loads :: "nvs_env \<Rightarrow> AuthState \<Rightarrow> AuthState \<Rightarrow> bool" where
  "loads e a a' \<longleftrightarrow> a' = a \<or> a' = ensure_loaded e a"

definition logged_in :: "web_env \<Rightarrow> WebState \<Rightarrow> web_request \<Rightarrow> bool" where
  "logged_in e s r \<longleftrightarrow> snd (auth_check (x_nvs e) (w_auth s) (Some (q_auth r)))"

definition has_password :: "web_env \<Rightarrow> WebState \<Rightarrow> bool" where
  "has_password e s \<longleftrightarrow> snd (auth_is_set (x_nvs e) (w_auth s))"

lemma ensure_idem [simp]: "ensure_loaded e (ensure_loaded e a) = ensure_loaded e a"
  by (simp add: ensure_loaded_def auth_init_def Let_def)

lemma auth_is_set_eq: "auth_is_set e a = (ensure_loaded e a, g_ha1 (ensure_loaded e a) \<noteq> [])"
  by (simp add: auth_is_set_def Let_def)

lemma auth_check_state: "fst (auth_check e a (Some rq)) = ensure_loaded e a"
  by (simp add: auth_check_def auth_is_set_eq copy_ha1_def Let_def split: option.split)

lemma auth_check_loaded [simp]: "auth_check e (ensure_loaded e a) (Some rq) = auth_check e a (Some rq)"
  by (simp add: auth_check_def auth_is_set_eq Let_def)

lemma guard_refuses:
  assumes "\<not> snd (auth_check (x_nvs e) a (Some (q_auth r)))"
  shows "\<exists>a' rs. guard e a r sc = (a', False, rs) \<and> loads (x_nvs e) a a' \<and>
    set rs \<subseteq> {http_error 403 ''origin'', http_error 403 ''setup_required'', AskLogin AUTH_REALM}"
proof -
  obtain c where c: "auth_check (x_nvs e) a (Some (q_auth r)) = (ensure_loaded (x_nvs e) a, c)" "\<not> c"
    using assms auth_check_state [of "x_nvs e" a "q_auth r"] by (metis prod.collapse)
  show ?thesis
    by (cases "sc \<and> \<not> origin_ok r")
      (auto simp: guard_def auth_require_def auth_is_set_eq c login_reply_def loads_def Let_def)
qed

text \<open>The replies and effects a visitor who is not logged in can get while a password is set.\<close>

definition harmless :: "web_reply \<Rightarrow> bool" where
  "harmless rp \<longleftrightarrow> (case rp of StreamUpgrade \<Rightarrow> False | SetCookie tok \<Rightarrow> False | Json code body \<Rightarrow> code \<noteq> 202 | _ \<Rightarrow> True)"

definition nothing_done :: "web_env \<Rightarrow> WebState \<Rightarrow> WebState \<times> web_reply list \<times> web_effect list \<Rightarrow> bool" where
  "nothing_done e s res = (case res of (s', rs, evs) \<Rightarrow>
     evs = [] \<and> g_tx_id s' = g_tx_id s \<and> w_queue s' = w_queue s \<and> fs_offline s' = fs_offline s
     \<and> g_ha1 (w_auth s') \<in> {g_ha1 (w_auth s), g_ha1 (ensure_loaded (x_nvs e) (w_auth s))}
     \<and> (\<forall>t. session_valid (w_auth s') t \<longrightarrow> session_valid (w_auth s) t)
     \<and> list_all harmless rs)"

lemma valid_sessions: "g_sessions a' = g_sessions a \<Longrightarrow> session_valid a' t = session_valid a t"
  by (simp add: session_valid_def slot_matches_def [abs_def])

lemma ensure_table [simp]: "g_sessions (ensure_loaded e a) = g_sessions a"
  by (simp add: ensure_loaded_def auth_init_def Let_def)

lemma ensure_sessions [simp]: "session_valid (ensure_loaded e a) t = session_valid a t"
  by (rule valid_sessions) simp

lemma revoke_only_removes: "session_valid (auth_session_revoke a tok) t \<Longrightarrow> session_valid a t"
  by (auto simp: session_valid_def auth_session_revoke_def slot_matches_def list_ex_iff split: option.splits if_splits)

lemma revoke_ha1 [simp]: "g_ha1 (auth_session_revoke a tok) = g_ha1 a"
  by (simp add: auth_session_revoke_def split: option.split)

lemma nothing_loads:
  "loads (x_nvs e) (w_auth s) a \<Longrightarrow> list_all harmless rs \<Longrightarrow> nothing_done e s (s\<lparr>w_auth := a\<rparr>, rs, [])"
  by (auto simp: nothing_done_def loads_def)

lemma harmless_simps [simp]:
  "harmless (http_error code err) \<longleftrightarrow> code \<noteq> 202" "harmless (AskLogin realm)" "harmless (Redirect u)" "harmless (HtmlPage p)"
  "harmless (PlainText c b)" "harmless (SendFile f)" "harmless (StatusOnly c)" "harmless ToUpdater" "harmless ClearCookie"
  "harmless (Json c b) \<longleftrightarrow> c \<noteq> 202"
  by (simp_all add: harmless_def http_error_def)

lemma loads_refl [simp]: "loads e a a" "loads e a (ensure_loaded e a)"
  by (simp_all add: loads_def)

lemma guarded_nothing:
  assumes "\<not> logged_in e s r"
  shows "\<exists>a rs. guard e (w_auth s) r sc = (a, False, rs) \<and> nothing_done e s (s\<lparr>w_auth := a\<rparr>, rs, [])"
proof -
  from guard_refuses [OF assms [unfolded logged_in_def], of sc] obtain a rs where
    g: "guard e (w_auth s) r sc = (a, False, rs)" "loads (x_nvs e) (w_auth s) a"
      "set rs \<subseteq> {http_error 403 ''origin'', http_error 403 ''setup_required'', AskLogin AUTH_REALM}" by blast
  have "list_all harmless rs" using g(3) by (auto simp: list_all_iff)
  then show ?thesis using g nothing_loads by blast
qed

lemma password_loads: "has_password e s \<Longrightarrow> auth_is_set (x_nvs e) (w_auth s) = (ensure_loaded (x_nvs e) (w_auth s), True)"
  by (simp add: has_password_def auth_is_set_eq)

lemma guarded_routes:
  assumes "\<not> logged_in e s r"
  shows "nothing_done e s (handle_lora_transmit J e s r)" "nothing_done e s (auth_change e s r)" "nothing_done e s (session_get e s r)"
    "nothing_done e s (handle_api_config ser e s r)" "nothing_done e s (spawn_route e s r task msg)" "nothing_done e s (update_page e s r)"
proof -
  obtain a rs where g: "guard e (w_auth s) r True = (a, False, rs)" "nothing_done e s (s\<lparr>w_auth := a\<rparr>, rs, [])"
    using guarded_nothing [OF assms] by blast
  obtain b ps where h: "guard e (w_auth s) r False = (b, False, ps)" "nothing_done e s (s\<lparr>w_auth := b\<rparr>, ps, [])"
    using guarded_nothing [OF assms] by blast
  show "nothing_done e s (handle_lora_transmit J e s r)" using g by (simp add: handle_lora_transmit_def)
  show "nothing_done e s (auth_change e s r)" using g by (simp add: auth_change_def)
  show "nothing_done e s (session_get e s r)" using h by (simp add: session_get_def)
  show "nothing_done e s (handle_api_config ser e s r)" using h by (simp add: handle_api_config_def)
  show "nothing_done e s (spawn_route e s r task msg)" using g by (simp add: spawn_route_def)
  show "nothing_done e s (update_page e s r)" using h by (simp add: update_page_def)
qed

lemma open_routes:
  assumes "has_password e s"
  shows "nothing_done e s (auth_status e s r)" "nothing_done e s (setup_page e s r)" "nothing_done e s (auth_setup e s r)"
    "nothing_done e s (session_delete e s r)"
  using password_loads [OF assms]
  by (auto simp: auth_status_def setup_page_def auth_setup_def session_delete_def Let_def nothing_done_def
      dest: revoke_only_removes split: option.splits)

lemma nothing_itself: "list_all harmless rs \<Longrightarrow> nothing_done e s (s, rs, [])"
  by (simp add: nothing_done_def)

lemma not_found_harmless [simp]: "harmless (not_found offline exists_file r)"
  by (simp add: not_found_def)

lemma api_nothing:
  assumes "has_password e s" and "\<not> logged_in e s r"
    and "\<not> (q_method r = HTTP_GET \<and> (q_url r = ''/ws'' \<or> q_url r = ''/rawEvents''))"
  shows "nothing_done e s (api_route J route exists_file e s r)"
  unfolding api_route_def Let_def
  by (simp only: assms(3) if_False) (simp add: guarded_routes [OF assms(2)] open_routes [OF assms(1)] nothing_itself del: not_None_eq)

lemma nothing_after_load:
  assumes "loads (x_nvs e) (w_auth s) a" and "nothing_done e (s\<lparr>w_auth := a\<rparr>) res"
  shows "nothing_done e s res"
  using assms by (auto simp: loads_def nothing_done_def split: prod.splits)

lemma loads_keeps:
  assumes "loads (x_nvs e) (w_auth s) a"
  shows "has_password e (s\<lparr>w_auth := a\<rparr>) = has_password e s" "logged_in e (s\<lparr>w_auth := a\<rparr>) r = logged_in e s r"
  using assms by (auto simp: loads_def has_password_def logged_in_def auth_is_set_eq)

lemma setupgate_password: "has_password e s \<Longrightarrow> \<exists>a. setupgate_canHandle e (w_auth s) r = (a, False) \<and> loads (x_nvs e) (w_auth s) a"
  by (simp add: setupgate_canHandle_def password_loads Let_def)

lemma gate_check_loads: "\<exists>a g. gate_check e a0 r = (a, g) \<and> loads e a0 a"
  using auth_check_state [of e a0 "gr_auth r"]
  by (cases "auth_check e a0 (Some (gr_auth r))") (simp add: gate_check_def auth_is_set_eq Let_def)

lemma gate_loads:
  obtains a c where "gate_canHandle e a0 r = (a, c)" "loads e a0 a"
proof -
  obtain a g where "gate_check e a0 r = (a, g)" "loads e a0 a" using gate_check_loads by blast
  then have "loads e a0 (fst (gate_canHandle e a0 r))" by (simp add: gate_canHandle_def)
  then show thesis using that by (metis prod.collapse)
qed

lemma stream_harmless [simp]: "harmless (stream_reply g)"
  by (simp add: stream_reply_def split: gate_reply.split)

lemma gate_stops_strangers:
  assumes "\<not> logged_in e s r" and "gate_canHandle (x_nvs e) (w_auth s) (stream_request r) = (a, False)"
  shows "\<not> (q_method r = HTTP_GET \<and> (q_url r = ''/ws'' \<or> q_url r = ''/rawEvents''))"
  using gate_lets_through [OF assms(2)] assms(1) by (auto simp: stream_request_def logged_in_def auth_is_set_eq)


text \<open>A device with a password, and a request to erase it from a visitor without a session.\<close>

definition sample_web_env :: web_env where
  "sample_web_env = \<lparr>x_nvs = \<lparr>nvs_begin = True, nvs_key = None, nvs_put = 32\<rparr>, x_md = (\<lambda>s. s), x_random = [], x_username = ''v'', x_hostname = ''v'',
     x_mac = [], x_alloc = True, x_depth = 10, x_waiting = 1, x_file = (\<lambda>p. None), x_doc = (\<lambda>s. None), x_task = True\<rparr>"

definition sample_web_state :: WebState where
  "sample_web_state = \<lparr>w_auth = AuthState_init\<lparr>g_ha1 := replicate 32 (CHR ''a''), g_loaded := True\<rparr>, g_tx_id = 0, w_queue = Some [],
     fs_offline = False\<rparr>"

definition sample_post :: "string option \<Rightarrow> web_request" where
  "sample_post origin = \<lparr>q_method = HTTP_POST, q_url = ''/reset'', q_host = ''voyager.local'', q_origin = origin, q_chunked = False, q_length = 0,
     q_data = None, q_password = None, q_name = None,
     q_auth = \<lparr>rq_cookie = None, rq_authorization = None, rq_authenticate = (\<lambda>u h realm k. False)\<rparr>\<rparr>"

lemmas sample_web = sample_web_env_def sample_web_state_def sample_post_def


section \<open>Requests from other sites\<close>



section \<open>What is never sent\<close>

text \<open>The reply for the WiFi settings is the stored document without its passwords.\<close>

lemma guard_reply_errors: "guard e a r sc = (a', False, rs) \<Longrightarrow> Json 200 body \<notin> set rs"
  by (auto simp: guard_def auth_require_def login_reply_def http_error_def Let_def split: prod.splits if_splits)

lemma config_reply_redacted:
  assumes "handle_api_config ser e s r = (s', [Json 200 body], evs)" and "is_wifi_config_name (q_name r)"
    and "x_file e (''/config/'' @ the (q_name r)) = Some raw" and "x_doc e raw = Some (JObject ms)" and "distinct (map fst ms)"
  shows "\<exists>ms'. body = ser (JObject ms') \<and> ''wifi_pass'' \<notin> fst ` set ms' \<and> ''ap_pass'' \<notin> fst ` set ms'"
proof -
  obtain ms' where m: "redact_wifi_config (JObject ms) = Some (JObject ms')" "''wifi_pass'' \<notin> fst ` set ms'" "''ap_pass'' \<notin> fst ` set ms'"
    using redact_no_secrets [OF assms(5)] by blast
  from assms(1) have "body = ser (JObject ms')"
    using assms(2-4) m(1) by (auto simp: handle_api_config_def http_error_def Let_def dest: guard_reply_errors [of _ _ _ _ _ _ body]
        split: prod.splits if_splits)
  with m show ?thesis by blast
qed

text \<open>A blocked path is answered by the first gate with 403, before any handler runs.\<close>

lemma blocked_path_forbidden:
  "path_is_blocked (Some (q_url r)) \<Longrightarrow> serve J route exists_file e s r = (s, [http_error 403 ''forbidden''], [])"
  by (simp add: serve_def pregate_canHandle_def pregate_handleRequest_def)

text \<open>While the filesystem is being replaced, only the update pages and the API get through.\<close>

lemma offline_refused:
  "fs_offline s \<Longrightarrow> \<not> allowed_while_fs_offline (Some (q_url r)) \<Longrightarrow> \<not> path_is_blocked (Some (q_url r)) \<Longrightarrow> \<not> q_chunked r \<Longrightarrow>
    serve J route exists_file e s r = (s, [http_error 503 ''fs_updating''], [])"
  by (simp add: serve_def pregate_canHandle_def pregate_handleRequest_def)

text \<open>A 202 reply means the message is the newest in the queue, under the identifier the reply names, which is never 0.\<close>

lemma accepted_is_queued:
  assumes "enqueue_tx e s ty msg = (s', Json 202 body)"
  shows "\<exists>items. w_queue s = Some items \<and> w_queue s' = Some (items @ [\<lparr>q_type = ty, q_message = str_bytes msg, q_id = g_tx_id s'\<rparr>])
    \<and> g_tx_id s' \<noteq> 0"
  using assms by (auto simp: enqueue_tx_def next_tx_id_def http_error_def tx_id_after_nonzero Let_def split: if_splits option.splits)

end
