(* ===== verification/Ota.thy ===== *)
theory Ota
  imports Web_Api
begin

text \<open>
  Firmware and file system updates over HTTP (\<open>src/src/web/web_server.cpp\<close>, lines 362-558):
  who may start one, the upload chunk by chunk, what a failure undoes, and the task that puts the user's
  settings back into a new file system before the restart.  The callbacks run on one task, one after the
  other; a request is a number, and \<open>cmd\<close> says which of the two update URLs it was sent to.  What the
  flash library does to the partition is an environment: any contents may result from a write, and none
  changes before the first one.
\<close>

section \<open>State\<close>

datatype OtaStatus = OTA_RUNNING | OTA_DONE | OTA_ORIGIN | OTA_SETUP | OTA_UNAUTH | OTA_BUSY | OTA_FAIL

record OtaReqState =
  rs_status :: OtaStatus
  rs_error :: string

datatype update_cmd = U_FLASH | U_SPIFFS

datatype radio_user = Updater | Transmitter

datatype ota_job = FinishJob update_cmd | RestartJob

text \<open>\<open>o_radio\<close> is \<open>lora_write_mutex\<close> (\<open>None\<close> when it was not created) with its holder, \<open>o_reqs\<close> the
  \<open>_tempObject\<close> of each request, \<open>o_job\<close> the task started at the end of an upload.\<close>

record OtaState =
  o_auth :: AuthState
  ota_owner :: "nat option"
  ota_radio_held :: bool
  o_radio :: "radio_user option option"
  ota_fs_dirty :: bool
  ota_keep_data :: "string list"
  ota_keep_present :: "bool list"
  o_offline :: bool
  o_reqs :: "nat \<Rightarrow> OtaReqState option"
  o_lock :: FsLock
  o_files :: files
  o_job :: "ota_job option"

record ota_env =
  ot_web :: web_env
  ot_alloc :: bool
  ot_open :: "string \<Rightarrow> bool"
  ot_read :: "string \<Rightarrow> nat"
  ot_begin :: bool
  ot_write :: bool
  ot_flash :: files
  ot_end :: bool
  ot_flush :: files
  ot_why :: string
  ot_task :: bool
  ot_restart :: bool

section \<open>Operations\<close>

definition ota_keep_clear :: "OtaState \<Rightarrow> OtaState" where
  "ota_keep_clear s = s\<lparr>ota_keep_data := replicate OTA_KEEP_COUNT [], ota_keep_present := replicate OTA_KEEP_COUNT False\<rparr>"

text \<open>One file of the snapshot: \<open>readString\<close> returned its first \<open>ot_read\<close> characters.\<close>

definition ota_keep_one :: "ota_env \<Rightarrow> files \<Rightarrow> string \<Rightarrow> bool \<times> string" where
  "ota_keep_one e fs path =
     (case fs path of
        None \<Rightarrow> (False, [])
      | Some c \<Rightarrow>
          if ot_open e path \<and> ota_keep_size_ok True (length c)
          then let d = take (ot_read e path) c in if length d = length c then (True, d) else (False, [])
          else (False, []))"

definition ota_keep_snapshot :: "ota_env \<Rightarrow> OtaState \<Rightarrow> OtaState" where
  "ota_keep_snapshot e s =
     (let s = ota_keep_clear s; ks = map (ota_keep_one e (o_files s)) OTA_KEEP_FILES
      in s\<lparr>ota_keep_data := map snd ks, ota_keep_present := map fst ks\<rparr>)"

definition ota_release_radio :: "OtaState \<Rightarrow> OtaState" where
  "ota_release_radio s = (if \<not> ota_radio_held s then s else s\<lparr>o_radio := Some None, ota_radio_held := False\<rparr>)"

definition ota_abort_owner :: "nat \<Rightarrow> OtaState \<Rightarrow> OtaState" where
  "ota_abort_owner r s =
     (if ota_owner s \<noteq> Some r then s
      else
        let s = s\<lparr>ota_owner := None\<rparr>; s = (if ota_fs_dirty s then s else (ota_keep_clear s)\<lparr>o_offline := False\<rparr>)
        in ota_release_radio s)"

definition ota_fail :: "nat \<Rightarrow> OtaReqState \<Rightarrow> string \<Rightarrow> OtaState \<Rightarrow> OtaState" where
  "ota_fail r st why s =
     ota_abort_owner r
       (s\<lparr>o_reqs := (o_reqs s)(r \<mapsto> st\<lparr>rs_status := OTA_FAIL, rs_error := take 63 (if why \<noteq> [] then why else ''update failed'')\<rparr>)\<rparr>)"

definition ota_admit :: "web_env \<Rightarrow> OtaState \<Rightarrow> web_request \<Rightarrow> OtaState \<times> OtaStatus" where
  "ota_admit e s rq =
     (if \<not> origin_ok rq then (s, OTA_ORIGIN)
      else
        let (a, set) = auth_is_set (x_nvs e) (o_auth s); s = s\<lparr>o_auth := a\<rparr> in
        if \<not> set then (s, OTA_SETUP)
        else
          let (a, ok) = auth_check (x_nvs e) (o_auth s) (Some (q_auth rq)); s = s\<lparr>o_auth := a\<rparr> in
          if \<not> ok then (s, OTA_UNAUTH)
          else if ota_owner s \<noteq> None then (s, OTA_BUSY)
          else if o_radio s \<noteq> Some None then (s, OTA_BUSY)
          else (s\<lparr>o_radio := Some (Some Updater), ota_radio_held := True\<rparr>, OTA_RUNNING))"

text \<open>The work of the first chunk after admission; \<open>False\<close> when the callback returns there.\<close>

definition ota_start :: "ota_env \<Rightarrow> nat \<Rightarrow> nat \<Rightarrow> update_cmd \<Rightarrow> OtaReqState \<Rightarrow> OtaState \<Rightarrow> OtaState \<times> bool" where
  "ota_start e me r cmd st s =
     (let s = s\<lparr>ota_owner := Some r\<rparr>;
          (s, go) =
            (if cmd = U_SPIFFS then
               let (l, locked) = fs_maintenance_begin me (o_lock s); s = s\<lparr>o_lock := l\<rparr> in
               if \<not> locked then
                 (ota_release_radio (s\<lparr>o_reqs := (o_reqs s)(r \<mapsto> st\<lparr>rs_status := OTA_BUSY\<rparr>), ota_owner := None\<rparr>), False)
               else
                 let s = (if \<not> ota_fs_dirty s then ota_keep_snapshot e s else s)
                 in (s\<lparr>o_offline := True, o_lock := fs_maintenance_end me (o_lock s)\<rparr>, True)
             else (s, True))
      in if \<not> go then (s, False)
         else if \<not> ot_begin e then (ota_fail r st (ot_why e) s, False) else (s, True))"

text \<open>The part after the \<open>index == 0\<close> block.\<close>

definition ota_write :: "ota_env \<Rightarrow> nat \<Rightarrow> nat \<Rightarrow> bool \<Rightarrow> update_cmd \<Rightarrow> OtaState \<Rightarrow> OtaState" where
  "ota_write e r len final cmd s =
     (case o_reqs s r of
        None \<Rightarrow> s
      | Some st \<Rightarrow>
          if rs_status st \<noteq> OTA_RUNNING \<or> ota_owner s \<noteq> Some r then s
          else
            let s = (if len > 0 \<and> cmd = U_SPIFFS then s\<lparr>ota_fs_dirty := True, o_files := ot_flash e\<rparr> else s) in
            if len > 0 \<and> \<not> ot_write e then ota_fail r st (ot_why e) s
            else if final then
              let s = (if cmd = U_SPIFFS \<and> ota_fs_dirty s then s\<lparr>o_files := ot_flush e\<rparr> else s) in
              if \<not> ot_end e then ota_fail r st (ot_why e) s
              else s\<lparr>o_reqs := (o_reqs s)(r \<mapsto> st\<lparr>rs_status := OTA_DONE\<rparr>), ota_owner := None,
                     o_job := (if ot_task e then Some (FinishJob cmd) else if ot_restart e then Some RestartJob else None)\<rparr>
            else s)"

definition ota_upload :: "ota_env \<Rightarrow> nat \<Rightarrow> nat \<Rightarrow> web_request \<Rightarrow> nat \<Rightarrow> nat \<Rightarrow> bool \<Rightarrow> update_cmd \<Rightarrow> OtaState \<Rightarrow> OtaState" where
  "ota_upload e me r rq index len final cmd s =
     (if index = 0 then
        (case o_reqs s r of
           Some st \<Rightarrow> if rs_status st = OTA_RUNNING then ota_fail r st ''only one file per upload'' s else s
         | None \<Rightarrow>
             if \<not> ot_alloc e then s
             else
               let (s, verdict) = ota_admit (ot_web e) s rq; st = \<lparr>rs_status = verdict, rs_error = []\<rparr>;
                   s = s\<lparr>o_reqs := (o_reqs s)(r \<mapsto> st)\<rparr> in
               if verdict \<noteq> OTA_RUNNING then s
               else (let (s, go) = ota_start e me r cmd st s in if go then ota_write e r len final cmd s else s))
      else ota_write e r len final cmd s)"

definition ota_reply :: "OtaReqState \<Rightarrow> web_reply" where
  "ota_reply st =
     (case rs_status st of
        OTA_DONE \<Rightarrow> HtmlPage ''ota_ok''
      | OTA_ORIGIN \<Rightarrow> http_error 403 ''origin''
      | OTA_SETUP \<Rightarrow> http_error 403 ''setup_required''
      | OTA_UNAUTH \<Rightarrow> AskLogin AUTH_REALM
      | OTA_BUSY \<Rightarrow> http_error 503 ''busy''
      | _ \<Rightarrow> PlainText 500 (if rs_error st \<noteq> [] then rs_error st else ''update failed''))"

definition ota_request :: "web_env \<Rightarrow> nat \<Rightarrow> web_request \<Rightarrow> OtaState \<Rightarrow> OtaState \<times> web_reply list" where
  "ota_request e r rq s =
     (case o_reqs s r of
        None \<Rightarrow> (let (a, ok, rs) = guard e (o_auth s) rq True
                 in (s\<lparr>o_auth := a\<rparr>, if \<not> ok then rs else [http_error 400 ''missing_update_file'']))
      | Some st \<Rightarrow>
          let s = (if ota_owner s = Some r then ota_fail r st ''upload incomplete'' s else s)
          in (s, case o_reqs s r of None \<Rightarrow> [] | Some st \<Rightarrow> [ota_reply st]))"

definition ota_disconnect :: "nat \<Rightarrow> OtaState \<Rightarrow> OtaState" where
  "ota_disconnect r s = (if ota_owner s = Some r then ota_abort_owner r s else s)"

section \<open>The task that ends an update\<close>

text \<open>\<open>of_free i\<close>: another task that has the file system lock gives it back during the \<open>i\<close>-th wait.\<close>

record finish_env =
  of_free :: "nat \<Rightarrow> bool"
  of_remount :: bool
  of_store :: "nat \<Rightarrow> fs_env"

definition others_leave :: "nat \<Rightarrow> FsLock \<Rightarrow> FsLock" where
  "others_leave me l = (if fs_lock_is_mine me l then l else l\<lparr>fs_mutex := map_option (\<lambda>m. None) (fs_mutex l)\<rparr>)"

fun ota_lock_loop :: "nat \<Rightarrow> bool list \<Rightarrow> FsLock \<Rightarrow> FsLock \<times> bool" where
  "ota_lock_loop me [] l = (l, False)"
| "ota_lock_loop me (given # givens) l =
     (let (l, locked) = fs_maintenance_begin me (if given then others_leave me l else l)
      in if locked then (l, True) else ota_lock_loop me givens l)"

text \<open>The source of the \<open>i\<close>-th file: the snapshot, or for the WiFi settings the copy made at boot.\<close>

definition ota_source :: "string option \<Rightarrow> OtaState \<Rightarrow> nat \<Rightarrow> string option" where
  "ota_source backup s i =
     (if ota_keep_present s ! i then Some (ota_keep_data s ! i)
      else if OTA_KEEP_FILES ! i = ''/config/wifi_config.json'' then backup else None)"

definition ota_restore_one :: "(nat \<Rightarrow> fs_env) \<Rightarrow> nat \<Rightarrow> string option \<Rightarrow> OtaState \<Rightarrow> nat \<Rightarrow> OtaState" where
  "ota_restore_one store me backup s i =
     (case ota_source backup s i of
        None \<Rightarrow> s
      | Some src \<Rightarrow>
          case write_file_atomic ((store i)\<lparr>ev_off1 := o_offline s, ev_off2 := o_offline s\<rparr>) me (o_lock s, o_files s)
                 (Some (OTA_KEEP_FILES ! i)) src of
            ((l, fs), ok) \<Rightarrow> s\<lparr>o_lock := l, o_files := fs\<rparr>)"

definition ota_finish_task :: "finish_env \<Rightarrow> nat \<Rightarrow> string option \<Rightarrow> update_cmd \<Rightarrow> OtaState \<Rightarrow> OtaState" where
  "ota_finish_task e me backup cmd s =
     (if cmd \<noteq> U_SPIFFS then s
      else
        let (l, locked) = ota_lock_loop me (map (of_free e) [0..<3]) (o_lock s); s = s\<lparr>o_lock := l\<rparr>;
            s = (if \<not> of_remount e then s else foldl (ota_restore_one (of_store e) me backup) s [0..<OTA_KEEP_COUNT]);
            s = (if locked then s\<lparr>o_lock := fs_maintenance_end me (o_lock s)\<rparr> else s)
        in ota_keep_clear s)"

section \<open>Runs\<close>

text \<open>
  What can happen between two restarts: chunks, ends of requests and disconnections of any number of clients, the radio
  being used by transmissions, the lock by other tasks, and other tasks writing files, which the guard of
  the file system refuses while it is out of service.
\<close>

datatype ota_event =
    OtaChunk ota_env nat nat nat bool
  | OtaEnd web_env nat
  | OtaGone nat
  | RadioTake
  | RadioGive
  | FilesChange files
  | LockChange "(nat \<times> nat) option"

fun ota_step :: "nat \<Rightarrow> (nat \<Rightarrow> web_request) \<Rightarrow> (nat \<Rightarrow> update_cmd) \<Rightarrow> ota_event \<Rightarrow> OtaState \<Rightarrow> OtaState" where
  "ota_step me rq cmd (OtaChunk e r index len final) s = ota_upload e me r (rq r) index len final (cmd r) s"
| "ota_step me rq cmd (OtaEnd e r) s = fst (ota_request e r (rq r) s)"
| "ota_step me rq cmd (OtaGone r) s = ota_disconnect r s"
| "ota_step me rq cmd RadioTake s = (if o_radio s = Some None then s\<lparr>o_radio := Some (Some Transmitter)\<rparr> else s)"
| "ota_step me rq cmd RadioGive s = (if o_radio s = Some (Some Transmitter) then s\<lparr>o_radio := Some None\<rparr> else s)"
| "ota_step me rq cmd (FilesChange fs) s = (if o_offline s then s else s\<lparr>o_files := fs\<rparr>)"
| "ota_step me rq cmd (LockChange h) s = (if fs_mutex (o_lock s) = None then s else s\<lparr>o_lock := (o_lock s)\<lparr>fs_mutex := Some h\<rparr>\<rparr>)"

text \<open>The run keeps, beside the state, the files as they were just before the first write of an image.\<close>

fun ota_run :: "nat \<Rightarrow> (nat \<Rightarrow> web_request) \<Rightarrow> (nat \<Rightarrow> update_cmd) \<Rightarrow> ota_event list \<Rightarrow> OtaState \<times> files \<Rightarrow> OtaState \<times> files" where
  "ota_run me rq cmd [] sg = sg"
| "ota_run me rq cmd (ev # evs) (s, g) =
     (let s' = ota_step me rq cmd ev s
      in ota_run me rq cmd evs (s', if ota_fs_dirty s then g else if ota_fs_dirty s' then o_files s else o_files s'))"

definition ota_fresh :: "OtaState \<Rightarrow> bool" where
  "ota_fresh s \<longleftrightarrow> ota_owner s = None \<and> \<not> ota_radio_held s \<and> o_radio s = Some None \<and> \<not> ota_fs_dirty s \<and> \<not> o_offline s
     \<and> o_reqs s = (\<lambda>r. None) \<and> o_job s = None"

section \<open>The invariant\<close>

text \<open>The flash could be read when the snapshot was taken.\<close>

definition readable :: "ota_env \<Rightarrow> bool" where
  "readable e \<longleftrightarrow> (\<forall>p \<in> set OTA_KEEP_FILES. ot_open e p \<and> OTA_KEEP_MAX_BYTES \<le> ot_read e p)"

fun event_readable :: "ota_event \<Rightarrow> bool" where
  "event_readable (OtaChunk e r index len final) = readable e"
| "event_readable _ = True"

text \<open>The snapshot holds exactly the files of \<open>g\<close> that are not empty and small enough.\<close>

definition kept_as :: "string option \<Rightarrow> bool \<Rightarrow> string \<Rightarrow> bool" where
  "kept_as content present d =
     (case content of
        None \<Rightarrow> \<not> present
      | Some c \<Rightarrow> if ota_keep_size_ok True (length c) then present \<and> d = c else \<not> present)"

definition kept :: "OtaState \<Rightarrow> files \<Rightarrow> bool" where
  "kept s g \<longleftrightarrow> (\<forall>i < OTA_KEEP_COUNT. kept_as (g (OTA_KEEP_FILES ! i)) (ota_keep_present s ! i) (ota_keep_data s ! i))"

definition one_done :: "OtaState \<Rightarrow> bool" where
  "one_done s \<longleftrightarrow> (\<exists>r st. o_reqs s r = Some st \<and> rs_status st = OTA_DONE)"

definition owner_ok :: "(nat \<Rightarrow> update_cmd) \<Rightarrow> OtaState \<Rightarrow> nat \<Rightarrow> bool" where
  "owner_ok cmd s r \<longleftrightarrow> ota_radio_held s \<and> (cmd r = U_SPIFFS \<longrightarrow> o_offline s) \<and> o_job s = None
     \<and> (\<exists>st. o_reqs s r = Some st \<and> rs_status st = OTA_RUNNING)"

definition ota_inv :: "(nat \<Rightarrow> update_cmd) \<Rightarrow> OtaState \<Rightarrow> files \<Rightarrow> bool" where
  "ota_inv cmd s g \<longleftrightarrow>
     (\<forall>r. ota_owner s = Some r \<longrightarrow> owner_ok cmd s r)
     \<and> ota_radio_held s = (o_radio s = Some (Some Updater))
     \<and> (ota_fs_dirty s \<longrightarrow> o_offline s) \<and> (o_offline s \<longrightarrow> kept s g) \<and> (\<not> ota_fs_dirty s \<longrightarrow> g = o_files s)
     \<and> (ota_owner s = None \<longrightarrow> (ota_radio_held s \<longrightarrow> one_done s) \<and> (o_offline s \<longrightarrow> ota_fs_dirty s \<or> one_done s))
     \<and> (o_job s \<noteq> None \<longrightarrow> ota_radio_held s) \<and> (o_job s = Some (FinishJob U_SPIFFS) \<longrightarrow> o_offline s)"

lemma length_keep_files: "length OTA_KEEP_FILES = OTA_KEEP_COUNT"
  by (simp add: OTA_KEEP_COUNT_def)

lemma snapshot_kept:
  assumes "readable e"
  shows "kept (ota_keep_snapshot e s) (o_files s)"
  unfolding kept_def
proof (intro allI impI)
  fix i
  assume i: "i < OTA_KEEP_COUNT"
  define p where "p = OTA_KEEP_FILES ! i"
  have "p \<in> set OTA_KEEP_FILES" using i by (simp add: p_def length_keep_files [symmetric])
  then have r: "ot_open e p" "OTA_KEEP_MAX_BYTES \<le> ot_read e p" using assms by (auto simp: readable_def)
  have "kept_as (o_files s p) (fst (ota_keep_one e (o_files s) p)) (snd (ota_keep_one e (o_files s) p))"
    using r by (auto simp: kept_as_def ota_keep_one_def ota_keep_size_ok_def Let_def split: option.split)
  then show "kept_as (o_files s (OTA_KEEP_FILES ! i)) (ota_keep_present (ota_keep_snapshot e s) ! i)
      (ota_keep_data (ota_keep_snapshot e s) ! i)"
    using i by (simp add: ota_keep_snapshot_def ota_keep_clear_def Let_def length_keep_files p_def)
qed

lemma snapshot_frame [simp]:
  "ota_owner (ota_keep_snapshot e s) = ota_owner s" "ota_radio_held (ota_keep_snapshot e s) = ota_radio_held s"
  "o_radio (ota_keep_snapshot e s) = o_radio s" "ota_fs_dirty (ota_keep_snapshot e s) = ota_fs_dirty s"
  "o_files (ota_keep_snapshot e s) = o_files s" "o_reqs (ota_keep_snapshot e s) = o_reqs s" "o_job (ota_keep_snapshot e s) = o_job s"
  "o_lock (ota_keep_snapshot e s) = o_lock s" "o_offline (ota_keep_snapshot e s) = o_offline s"
  by (simp_all add: ota_keep_snapshot_def ota_keep_clear_def Let_def)

lemma kept_cong: "ota_keep_present s' = ota_keep_present s \<Longrightarrow> ota_keep_data s' = ota_keep_data s \<Longrightarrow> kept s' g = kept s g"
  by (simp add: kept_def)

lemma one_done_upd: "one_done s \<Longrightarrow> (\<And>st. o_reqs s r = Some st \<Longrightarrow> rs_status st \<noteq> OTA_DONE) \<Longrightarrow> o_reqs s' = (o_reqs s)(r \<mapsto> st') \<Longrightarrow> one_done s'"
  by (fastforce simp: one_done_def)

lemma abort_inv:
  assumes "ota_inv cmd s g" and "ota_owner s = Some r"
  shows "ota_inv cmd (ota_abort_owner r (s\<lparr>o_reqs := (o_reqs s)(r \<mapsto> st)\<rparr>)) g"
  using assms
  by (cases "ota_fs_dirty s")
    (auto simp: ota_inv_def owner_ok_def ota_abort_owner_def ota_release_radio_def ota_keep_clear_def kept_def Let_def)

lemma abort_inv_gone:
  assumes "ota_inv cmd s g" and "ota_owner s = Some r"
  shows "ota_inv cmd (ota_abort_owner r s) g"
proof -
  obtain st where "o_reqs s r = Some st" using assms by (auto simp: ota_inv_def owner_ok_def)
  then have "s\<lparr>o_reqs := (o_reqs s)(r \<mapsto> st)\<rparr> = s" by (cases s) (simp add: fun_upd_idem)
  then show ?thesis using abort_inv [OF assms, of st] by simp
qed

lemma fail_inv: "ota_inv cmd s g \<Longrightarrow> ota_owner s = Some r \<Longrightarrow> ota_inv cmd (ota_fail r st why s) g"
  unfolding ota_fail_def by (rule abort_inv)

lemma inv_auth [simp]: "ota_inv cmd (s\<lparr>o_auth := a\<rparr>) g = ota_inv cmd s g"
  by (simp add: ota_inv_def owner_ok_def one_done_def kept_def)

lemma write_inv:
  assumes "ota_inv cmd s g"
  shows "ota_inv cmd (ota_write e r len final (cmd r) s) g"
proof (cases "ota_owner s = Some r")
  case True
  obtain st where st: "o_reqs s r = Some st" "rs_status st = OTA_RUNNING" and off: "cmd r = U_SPIFFS \<longrightarrow> o_offline s"
    and job: "o_job s = None" "ota_radio_held s"
    using assms True by (auto simp: ota_inv_def owner_ok_def)
  define s1 where "s1 = (if len > 0 \<and> cmd r = U_SPIFFS then s\<lparr>ota_fs_dirty := True, o_files := ot_flash e\<rparr> else s)"
  define s2 where "s2 = (if cmd r = U_SPIFFS \<and> ota_fs_dirty s1 then s1\<lparr>o_files := ot_flush e\<rparr> else s1)"
  have 1: "ota_inv cmd s1 g" "ota_owner s1 = Some r" "o_reqs s1 = o_reqs s"
    using assms True off by (auto simp: s1_def ota_inv_def owner_ok_def kept_def one_done_def)
  have 2: "ota_inv cmd s2 g" "ota_owner s2 = Some r" "o_reqs s2 = o_reqs s"
    using 1 by (auto simp: s2_def ota_inv_def owner_ok_def kept_def one_done_def)
  have "ota_inv cmd (s2\<lparr>o_reqs := (o_reqs s2)(r \<mapsto> st\<lparr>rs_status := OTA_DONE\<rparr>), ota_owner := None,
      o_job := (if ot_task e then Some (FinishJob (cmd r)) else if ot_restart e then Some RestartJob else None)\<rparr>) g"
    using 2 by (auto simp: ota_inv_def owner_ok_def kept_def one_done_def)
  then show ?thesis
    using 1 2 st True fail_inv [OF 1(1,2)] fail_inv [OF 2(1,2)]
    unfolding ota_write_def by (simp add: s1_def [symmetric] s2_def [symmetric] Let_def)
next
  case False
  then show ?thesis using assms by (simp add: ota_write_def split: option.split)
qed

lemma lock_inv [simp]: "ota_inv cmd (s\<lparr>o_lock := l\<rparr>) g = ota_inv cmd s g"
  by (simp add: ota_inv_def owner_ok_def one_done_def kept_def)

lemma new_request_inv:
  assumes "ota_inv cmd s g" and "o_reqs s r = None" and "rs_status st \<noteq> OTA_RUNNING"
  shows "ota_inv cmd (s\<lparr>o_reqs := (o_reqs s)(r \<mapsto> st)\<rparr>) g"
proof -
  have "one_done (s\<lparr>o_reqs := (o_reqs s)(r \<mapsto> st)\<rparr>)" if "one_done s"
    by (rule one_done_upd [OF that, of r _ st]) (simp_all add: assms(2))
  then show ?thesis using assms by (auto simp: ota_inv_def owner_ok_def kept_def)
qed

lemma admitted:
  "ota_admit e s rq = (s', v) \<Longrightarrow>
    if v = OTA_RUNNING then ota_owner s = None \<and> o_radio s = Some None \<and> s' = s\<lparr>o_auth := o_auth s', o_radio := Some (Some Updater), ota_radio_held := True\<rparr>
    else s' = s\<lparr>o_auth := o_auth s'\<rparr>"
  by (cases s) (auto simp: ota_admit_def Let_def split: prod.splits if_splits)

text \<open>The request that has just been admitted, as the owner of the radio and of the update.\<close>

definition holding :: "nat \<Rightarrow> OtaReqState \<Rightarrow> OtaState \<Rightarrow> OtaState" where
  "holding r st s = s\<lparr>o_radio := Some (Some Updater), ota_radio_held := True, o_reqs := (o_reqs s)(r \<mapsto> st), ota_owner := Some r\<rparr>"

lemma holding_inv:
  assumes "ota_inv cmd s g" "ota_owner s = None" "o_radio s = Some None" "rs_status st = OTA_RUNNING"
  shows "cmd r = U_FLASH \<Longrightarrow> ota_inv cmd (holding r st s) g"
    and "readable e \<Longrightarrow> ota_inv cmd ((if \<not> ota_fs_dirty s then ota_keep_snapshot e (holding r st s) else holding r st s)\<lparr>o_offline := True\<rparr>) g"
proof -
  have held: "\<not> ota_radio_held s" "o_job s = None" using assms by (auto simp: ota_inv_def)
  show "cmd r = U_FLASH \<Longrightarrow> ota_inv cmd (holding r st s) g"
    using assms held by (auto simp: ota_inv_def owner_ok_def holding_def kept_def)
  assume e: "readable e"
  have "kept (ota_keep_snapshot e (holding r st s)) (o_files s)"
    using snapshot_kept [OF e, of "holding r st s"] by (simp add: holding_def)
  then show "ota_inv cmd ((if \<not> ota_fs_dirty s then ota_keep_snapshot e (holding r st s) else holding r st s)\<lparr>o_offline := True\<rparr>) g"
    using assms held by (auto simp: ota_inv_def owner_ok_def holding_def kept_def)
qed

lemma refused_inv:
  assumes "ota_inv cmd s g" "ota_owner s = None" "o_radio s = Some None" "o_reqs s r = None"
  shows "ota_inv cmd (s\<lparr>ota_owner := None, o_radio := Some None, ota_radio_held := False, o_reqs := (o_reqs s)(r \<mapsto> \<lparr>rs_status = OTA_BUSY, rs_error = []\<rparr>)\<rparr>) g"
proof -
  have "one_done (s\<lparr>ota_owner := None, o_radio := Some None, ota_radio_held := False, o_reqs := (o_reqs s)(r \<mapsto> \<lparr>rs_status = OTA_BUSY, rs_error = []\<rparr>)\<rparr>)"
    if "one_done s"
    by (rule one_done_upd [OF that, of r]) (simp_all add: assms(4))
  then show ?thesis using assms by (auto simp: ota_inv_def kept_def)
qed

lemma start_inv:
  assumes "ota_inv cmd s g" "ota_owner s = None" "o_radio s = Some None" "o_reqs s r = None" "readable e"
    and st: "st = \<lparr>rs_status = OTA_RUNNING, rs_error = []\<rparr>"
    and start: "ota_start e me r (cmd r) st (s\<lparr>o_radio := Some (Some Updater), ota_radio_held := True, o_reqs := (o_reqs s)(r \<mapsto> st)\<rparr>) = (s', go)"
  shows "ota_inv cmd s' g"
proof -
  have run: "rs_status st = OTA_RUNNING" by (simp add: st)
  define h where "h = holding r st s"
  have h: "(s\<lparr>o_radio := Some (Some Updater), ota_radio_held := True, o_reqs := (o_reqs s)(r \<mapsto> st)\<rparr>)\<lparr>ota_owner := Some r\<rparr> = h"
    by (simp add: h_def holding_def)
  show ?thesis
  proof (cases "cmd r")
    case U_FLASH
    have inv: "ota_inv cmd h g" unfolding h_def by (rule holding_inv(1) [OF assms(1-3) run U_FLASH])
    have "s' = h \<or> s' = ota_fail r st (ot_why e) h" using start by (auto simp: ota_start_def h U_FLASH Let_def split: if_splits)
    then show ?thesis using inv fail_inv [OF inv, of r st] by (auto simp: h_def holding_def)
  next
    case U_SPIFFS
    obtain l locked where l: "fs_maintenance_begin me (o_lock h) = (l, locked)" by fastforce
    define k where "k = (if \<not> ota_fs_dirty s then ota_keep_snapshot e h else h)\<lparr>o_offline := True\<rparr>"
    have inv: "ota_inv cmd k g" unfolding k_def h_def by (rule holding_inv(2) [OF assms(1-3) run assms(5)])
    have own: "ota_owner k = Some r" by (simp add: k_def h_def holding_def)
    show ?thesis
    proof (cases locked)
      case False
      have "s' = (s\<lparr>ota_owner := None, o_radio := Some None, ota_radio_held := False, o_reqs := (o_reqs s)(r \<mapsto> \<lparr>rs_status = OTA_BUSY, rs_error = []\<rparr>)\<rparr>)\<lparr>o_lock := l\<rparr>"
        using start False l by (simp add: ota_start_def h U_SPIFFS Let_def ota_release_radio_def) (auto simp: h_def holding_def st)
      then show ?thesis using refused_inv [OF assms(1-4)] by simp
    next
      case True
      have frame: "ota_fs_dirty h = ota_fs_dirty s" by (simp add: h_def holding_def)
      define k' where "k' = k\<lparr>o_lock := fs_maintenance_end me l\<rparr>"
      have "s' = k' \<or> s' = ota_fail r st (ot_why e) k'"
        using start True l by (auto simp: ota_start_def h U_SPIFFS Let_def k'_def k_def frame ota_keep_snapshot_def ota_keep_clear_def split: if_splits)
      moreover have "ota_inv cmd k' g" "ota_owner k' = Some r" using inv own by (simp_all add: k'_def)
      ultimately show ?thesis using fail_inv by blast
    qed
  qed
qed

lemma upload_inv:
  assumes "ota_inv cmd s g" "readable e"
  shows "ota_inv cmd (ota_upload e me r rq index len final (cmd r) s) g"
proof (cases "index = 0")
  case False
  then show ?thesis using write_inv [OF assms(1)] by (simp add: ota_upload_def)
next
  case True
  show ?thesis
  proof (cases "o_reqs s r")
    case (Some st)
    show ?thesis
    proof (cases "ota_owner s = Some r")
      case True
      then show ?thesis using assms fail_inv [OF assms(1) True] \<open>index = 0\<close> by (simp add: ota_upload_def Some)
    next
      case no: False
      have "ota_fail r st why s = s\<lparr>o_reqs := (o_reqs s)(r \<mapsto> st\<lparr>rs_status := OTA_FAIL, rs_error := take 63 (if why \<noteq> [] then why else ''update failed'')\<rparr>)\<rparr>"
        for why using no by (simp add: ota_fail_def ota_abort_owner_def)
      moreover have "ota_inv cmd (s\<lparr>o_reqs := (o_reqs s)(r \<mapsto> st')\<rparr>) g" if "rs_status st = OTA_RUNNING" for st'
      proof -
        have "one_done (s\<lparr>o_reqs := (o_reqs s)(r \<mapsto> st')\<rparr>)" if "one_done s"
          by (rule one_done_upd [OF that, of r]) (simp_all add: Some \<open>rs_status st = OTA_RUNNING\<close>)
        then show ?thesis using assms(1) no by (auto simp: ota_inv_def owner_ok_def kept_def)
      qed
      ultimately show ?thesis using assms \<open>index = 0\<close> by (simp add: ota_upload_def Some)
    qed
  next
    case None
    show ?thesis
    proof (cases "ot_alloc e")
      case False
      then show ?thesis using assms True by (simp add: ota_upload_def None)
    next
      case al: True
      obtain s1 v where a: "ota_admit (ot_web e) s rq = (s1, v)" by fastforce
      define st where "st = \<lparr>rs_status = v, rs_error = []\<rparr>"
      have up: "ota_upload e me r rq index len final (cmd r) s =
          (let s = s1\<lparr>o_reqs := (o_reqs s1)(r \<mapsto> st)\<rparr> in
           if v \<noteq> OTA_RUNNING then s else (let (s, go) = ota_start e me r (cmd r) st s in if go then ota_write e r len final (cmd r) s else s))"
        using True None al by (simp add: ota_upload_def a st_def Let_def)
      define s0 where "s0 = s\<lparr>o_auth := o_auth s1\<rparr>"
      have s0: "ota_inv cmd s0 g" "o_reqs s0 r = None" using assms None by (simp_all add: s0_def)
      show ?thesis
      proof (cases "v = OTA_RUNNING")
        case False
        then have "s1 = s0" using admitted [OF a] by (simp add: s0_def)
        then show ?thesis using False new_request_inv [OF s0, of st] by (simp add: up st_def)
      next
        case run: True
        then have s1: "s1 = s0\<lparr>o_radio := Some (Some Updater), ota_radio_held := True\<rparr>"
          and own: "ota_owner s0 = None" "o_radio s0 = Some None"
          using admitted [OF a] by (simp_all add: s0_def)
        obtain s2 go where start: "ota_start e me r (cmd r) st (s1\<lparr>o_reqs := (o_reqs s1)(r \<mapsto> st)\<rparr>) = (s2, go)" by fastforce
        have "ota_inv cmd s2 g"
          using start_inv [OF s0(1) own s0(2) assms(2), of st me s2 go] start by (simp add: st_def run s1)
        then show ?thesis using run start write_inv by (simp add: up)
      qed
    qed
  qed
qed

lemma request_inv: "ota_inv cmd s g \<Longrightarrow> ota_inv cmd (fst (ota_request e r rq s)) g"
  by (auto simp: ota_request_def Let_def fail_inv split: option.split prod.split)

lemma disconnect_inv: "ota_inv cmd s g \<Longrightarrow> ota_inv cmd (ota_disconnect r s) g"
  by (simp add: ota_disconnect_def abort_inv_gone)

lemma radio_inv:
  assumes "ota_inv cmd s g"
  shows "o_radio s = Some None \<Longrightarrow> ota_inv cmd (s\<lparr>o_radio := Some (Some Transmitter)\<rparr>) g"
    and "o_radio s = Some (Some Transmitter) \<Longrightarrow> ota_inv cmd (s\<lparr>o_radio := Some None\<rparr>) g"
  using assms by (auto simp: ota_inv_def owner_ok_def kept_def one_done_def)

lemma files_inv: "ota_inv cmd s g \<Longrightarrow> \<not> o_offline s \<Longrightarrow> ota_inv cmd (s\<lparr>o_files := fs\<rparr>) fs"
  by (auto simp: ota_inv_def owner_ok_def kept_def one_done_def)

lemma step_inv:
  assumes "ota_inv cmd s g" "event_readable ev"
  shows "ota_inv cmd (ota_step me rq cmd ev s)
    (if ota_fs_dirty s then g else if ota_fs_dirty (ota_step me rq cmd ev s) then o_files s else o_files (ota_step me rq cmd ev s))"
proof -
  have g: "g = o_files s" if "\<not> ota_fs_dirty s" using assms(1) that by (simp add: ota_inv_def)
  have off: "ota_fs_dirty s \<Longrightarrow> o_offline s" using assms(1) by (simp add: ota_inv_def)
  show ?thesis
  proof (cases "\<exists>fs. ev = FilesChange fs \<and> \<not> o_offline s")
    case True
    then show ?thesis using assms off files_inv [OF assms(1)] by auto
  next
    case False
    then have "ota_inv cmd (ota_step me rq cmd ev s) g"
      using assms by (cases ev) (auto simp: upload_inv request_inv disconnect_inv radio_inv)
    moreover from this have "\<not> ota_fs_dirty (ota_step me rq cmd ev s) \<Longrightarrow> g = o_files (ota_step me rq cmd ev s)"
      by (simp add: ota_inv_def)
    ultimately show ?thesis using g by auto
  qed
qed

lemma run_inv: "ota_inv cmd s g \<Longrightarrow> list_all event_readable evs \<Longrightarrow> ota_run me rq cmd evs (s, g) = (s', g') \<Longrightarrow> ota_inv cmd s' g'"
proof (induction evs arbitrary: s g)
  case (Cons ev evs)
  then show ?case using step_inv [OF Cons.prems(1), of ev me rq] by (simp add: Let_def)
qed simp

lemma fresh_inv: "ota_fresh s \<Longrightarrow> ota_inv cmd s (o_files s)"
  by (simp add: ota_fresh_def ota_inv_def kept_def)

section \<open>Putting the settings back\<close>

definition held_by :: "nat \<Rightarrow> FsLock \<Rightarrow> bool" where
  "held_by me l \<longleftrightarrow> fs_mounted l \<and> (\<exists>n. n \<ge> 1 \<and> fs_mutex l = Some (Some (me, n)))"

lemma held_write:
  assumes "held_by me l" "ev_open e" "ev_rename e" "ev_written e = length c"
  shows "write_file_atomic e me (l, fs) (Some p) c = ((l, stored p c fs), True)"
proof -
  from assms(1) obtain n where l: "fs_mounted l" "n \<ge> 1" "fs_mutex l = Some (Some (me, n))" by (auto simp: held_by_def)
  have "fs_enter me (ev_off1 e) (ev_off2 e) l = (l\<lparr>fs_mutex := Some (Some (me, n + 1))\<rparr>, True)"
    using l by (simp add: fs_enter_def fs_lock_is_mine_def mutex_take_def)
  moreover have "fs_leave me (l\<lparr>fs_mutex := Some (Some (me, n + 1))\<rparr>) = l"
    using l by (cases l) (simp add: fs_leave_def mutex_give_def)
  ultimately show ?thesis
    using assms(2-4) by (simp add: write_file_atomic_def write_ops_def stored_def Let_def fun_eq_iff tmp_path_def)
qed

lemma lock_loop_held:
  assumes "ota_lock_loop me givens l = (l', True)" "fs_mounted l" "fs_mutex l = Some m" "\<forall>n. m = Some (me, n) \<longrightarrow> n \<ge> 1"
  shows "held_by me l'"
  using assms
proof (induction givens arbitrary: l m)
  case (Cons given givens)
  define l1 where "l1 = (if given then others_leave me l else l)"
  have l1: "fs_mounted l1" "\<exists>m1. fs_mutex l1 = Some m1 \<and> (\<forall>n. m1 = Some (me, n) \<longrightarrow> n \<ge> 1)"
    using Cons.prems by (auto simp: l1_def others_leave_def)
  then obtain m1 where m1: "fs_mutex l1 = Some m1" "\<forall>n. m1 = Some (me, n) \<longrightarrow> n \<ge> 1" by blast
  obtain m2 took where t: "mutex_take me m1 = (m2, took)" by fastforce
  have b: "fs_maintenance_begin me l1 = (l1\<lparr>fs_mutex := Some m2\<rparr>, took)" using m1(1) t by (simp add: fs_maintenance_begin_def)
  show ?case
  proof (cases took)
    case True
    then have "l' = l1\<lparr>fs_mutex := Some m2\<rparr>" using Cons.prems(1) b by (simp add: l1_def)
    moreover have "\<exists>n. n \<ge> 1 \<and> m2 = Some (me, n)" using t True m1(2) by (auto simp: mutex_take_def split: option.splits if_splits prod.splits)
    ultimately show ?thesis using l1(1) by (auto simp: held_by_def)
  next
    case False
    then have "m2 = m1" using t by (auto simp: mutex_take_def split: option.splits if_splits prod.splits)
    then have "l1\<lparr>fs_mutex := Some m2\<rparr> = l1" using m1(1) by (cases l1) simp
    then show ?thesis using Cons.IH [of l1 m1] Cons.prems(1) b False l1(1) m1 by (simp add: l1_def)
  qed
qed simp

definition stores_well :: "(nat \<Rightarrow> fs_env) \<Rightarrow> string option \<Rightarrow> OtaState \<Rightarrow> nat \<Rightarrow> bool" where
  "stores_well store backup s i \<longleftrightarrow>
     (case ota_source backup s i of None \<Rightarrow> True | Some c \<Rightarrow> ev_open (store i) \<and> ev_rename (store i) \<and> ev_written (store i) = length c)"

lemma restore_one:
  assumes "held_by me (o_lock s)" "stores_well store backup s i"
  shows "ota_restore_one store me backup s i =
    s\<lparr>o_files := (case ota_source backup s i of None \<Rightarrow> o_files s | Some c \<Rightarrow> stored (OTA_KEEP_FILES ! i) c (o_files s))\<rparr>"
proof (cases "ota_source backup s i")
  case None
  then show ?thesis by (simp add: ota_restore_one_def)
next
  case (Some c)
  have "write_file_atomic ((store i)\<lparr>ev_off1 := o_offline s, ev_off2 := o_offline s\<rparr>) me (o_lock s, o_files s) (Some (OTA_KEEP_FILES ! i)) c =
      ((o_lock s, stored (OTA_KEEP_FILES ! i) c (o_files s)), True)"
    using assms(2) by (intro held_write [OF assms(1)]) (simp_all add: stores_well_def Some)
  then show ?thesis by (simp add: ota_restore_one_def Some)
qed

lemma source_files [simp]:
  "ota_source backup (s\<lparr>o_files := fs\<rparr>) i = ota_source backup s i" "ota_source backup (s\<lparr>o_lock := l\<rparr>) i = ota_source backup s i"
  by (simp_all add: ota_source_def)

lemma keep_files_apart:
  "i < OTA_KEEP_COUNT \<Longrightarrow> j < OTA_KEEP_COUNT \<Longrightarrow> OTA_KEEP_FILES ! i \<noteq> tmp_path (OTA_KEEP_FILES ! j) \<and> (OTA_KEEP_FILES ! i = OTA_KEEP_FILES ! j \<longleftrightarrow> i = j)"
proof -
  have "\<forall>i < OTA_KEEP_COUNT. \<forall>j < OTA_KEEP_COUNT. OTA_KEEP_FILES ! i \<noteq> tmp_path (OTA_KEEP_FILES ! j) \<and> (OTA_KEEP_FILES ! i = OTA_KEEP_FILES ! j \<longleftrightarrow> i = j)"
    by code_simp
  then show "i < OTA_KEEP_COUNT \<Longrightarrow> j < OTA_KEEP_COUNT \<Longrightarrow> ?thesis" by blast
qed

definition restored_at :: "string option \<Rightarrow> OtaState \<Rightarrow> nat \<Rightarrow> string option" where
  "restored_at backup s i = (case ota_source backup s i of None \<Rightarrow> o_files s (OTA_KEEP_FILES ! i) | Some c \<Rightarrow> Some c)"

lemma restored_lock [simp]: "restored_at backup (s\<lparr>o_lock := l\<rparr>) i = restored_at backup s i"
  by (simp add: restored_at_def split: option.split)

lemma restore_all:
  assumes "held_by me (o_lock s)" "\<forall>i < OTA_KEEP_COUNT. stores_well store backup s i" "n \<le> OTA_KEEP_COUNT"
  shows "\<exists>fs. foldl (ota_restore_one store me backup) s [0..<n] = s\<lparr>o_files := fs\<rparr> \<and>
    (\<forall>i < OTA_KEEP_COUNT. fs (OTA_KEEP_FILES ! i) = (if i < n then restored_at backup s i else o_files s (OTA_KEEP_FILES ! i)))"
  using assms(3)
proof (induction n)
  case 0
  have "s = s\<lparr>o_files := o_files s\<rparr>" by simp
  then show ?case by (intro exI [of _ "o_files s"]) simp
next
  case (Suc n)
  then obtain fs where IH: "foldl (ota_restore_one store me backup) s [0..<n] = s\<lparr>o_files := fs\<rparr>"
    and fs: "\<And>i. i < OTA_KEEP_COUNT \<Longrightarrow> fs (OTA_KEEP_FILES ! i) = (if i < n then restored_at backup s i else o_files s (OTA_KEEP_FILES ! i))"
    by auto
  have n: "n < OTA_KEEP_COUNT" using Suc.prems by simp
  have w: "stores_well store backup (s\<lparr>o_files := fs\<rparr>) n" using assms(2) n by (simp add: stores_well_def)
  have one: "ota_restore_one store me backup (s\<lparr>o_files := fs\<rparr>) n =
      s\<lparr>o_files := (case ota_source backup s n of None \<Rightarrow> fs | Some c \<Rightarrow> stored (OTA_KEEP_FILES ! n) c fs)\<rparr>"
    using restore_one [OF _ w, of me] assms(1) by (simp split: option.splits)
  have "(case ota_source backup s n of None \<Rightarrow> fs | Some c \<Rightarrow> stored (OTA_KEEP_FILES ! n) c fs) (OTA_KEEP_FILES ! i) =
      (if i < Suc n then restored_at backup s i else o_files s (OTA_KEEP_FILES ! i))" if "i < OTA_KEEP_COUNT" for i
    using fs [OF that] keep_files_apart [OF that n] by (auto simp: stored_def restored_at_def split: option.split)
  then show ?case using IH one by auto
qed

text \<open>The finish task ran in a working system: it got the lock, remounted the file system and its writes succeeded.\<close>

definition finish_works :: "finish_env \<Rightarrow> nat \<Rightarrow> string option \<Rightarrow> OtaState \<Rightarrow> bool" where
  "finish_works e me backup s \<longleftrightarrow>
     fs_mounted (o_lock s) \<and> (case fs_mutex (o_lock s) of None \<Rightarrow> False | Some m \<Rightarrow> map_option fst m \<noteq> Some me)
     \<and> snd (ota_lock_loop me (map (of_free e) [0..<3]) (o_lock s)) \<and> of_remount e
     \<and> list_all (stores_well (of_store e) backup s) [0..<OTA_KEEP_COUNT]"

lemma finish_files:
  assumes "finish_works e me backup s" "i < OTA_KEEP_COUNT"
  shows "o_files (ota_finish_task e me backup U_SPIFFS s) (OTA_KEEP_FILES ! i) = restored_at backup s i"
proof -
  obtain l where l: "ota_lock_loop me (map (of_free e) [0..<3]) (o_lock s) = (l, True)"
    using assms(1) unfolding finish_works_def by (metis prod.collapse)
  obtain m where m: "fs_mutex (o_lock s) = Some m" "map_option fst m \<noteq> Some me" "fs_mounted (o_lock s)"
    using assms(1) by (auto simp: finish_works_def split: option.splits)
  have "held_by me l" using lock_loop_held [OF l m(3,1)] m(2) by auto
  then have h: "held_by me (o_lock (s\<lparr>o_lock := l\<rparr>))" by simp
  have w: "\<forall>i < OTA_KEEP_COUNT. stores_well (of_store e) backup (s\<lparr>o_lock := l\<rparr>) i"
    using assms(1) by (auto simp: finish_works_def stores_well_def list_all_iff)
  from restore_all [OF h w, of OTA_KEEP_COUNT] obtain fs where
    fs: "foldl (ota_restore_one (of_store e) me backup) (s\<lparr>o_lock := l\<rparr>) [0..<OTA_KEEP_COUNT] = s\<lparr>o_lock := l, o_files := fs\<rparr>"
      "fs (OTA_KEEP_FILES ! i) = restored_at backup (s\<lparr>o_lock := l\<rparr>) i" using assms(2) by auto
  have "of_remount e" using assms(1) by (simp add: finish_works_def)
  then show ?thesis using fs by (simp add: ota_finish_task_def l ota_keep_clear_def Let_def del: upt_Suc)
qed

definition settings_after :: "string option \<Rightarrow> files \<Rightarrow> files \<Rightarrow> string \<Rightarrow> string option" where
  "settings_after backup g img path =
     (case g path of
        Some c \<Rightarrow> if ota_keep_size_ok True (length c) then Some c
                  else if path = ''/config/wifi_config.json'' \<and> backup \<noteq> None then backup else img path
      | None \<Rightarrow> if path = ''/config/wifi_config.json'' \<and> backup \<noteq> None then backup else img path)"

text \<open>
  C33 (ota_settings_kept). However many uploads failed before (bad images, write errors, lost connections, competing
  clients, firmware uploads in between), when a file system image is finally complete and the finish task
  works, every settings file the device had just before the first image began to be written is back in the new
  file system with the same contents, if it is not empty and has at most 2048 bytes; the WiFi settings fall back to the copy
  made at boot, and any other file is the one of the image.
\<close>
theorem ota_settings_kept:
  assumes "ota_fresh s0" and "list_all event_readable evs" and "ota_run me rq cmd evs (s0, o_files s0) = (s, g)"
    and "o_job s = Some (FinishJob U_SPIFFS)" and "finish_works e me' backup s"
  shows "list_all (\<lambda>p. o_files (ota_finish_task e me' backup U_SPIFFS s) p = settings_after backup g (o_files s) p) OTA_KEEP_FILES"
proof -
  have "ota_inv cmd s g" using run_inv [OF fresh_inv [OF assms(1)] assms(2,3)] .
  then have k: "kept s g" using assms(4) by (simp add: ota_inv_def)
  show ?thesis
    unfolding list_all_length
  proof (intro allI impI)
    fix i
    assume "i < length OTA_KEEP_FILES"
    then have i: "i < OTA_KEEP_COUNT" by (simp add: length_keep_files)
    have "kept_as (g (OTA_KEEP_FILES ! i)) (ota_keep_present s ! i) (ota_keep_data s ! i)" using k i by (simp add: kept_def)
    then have "restored_at backup s i = settings_after backup g (o_files s) (OTA_KEEP_FILES ! i)"
      by (auto simp: restored_at_def settings_after_def ota_source_def kept_as_def split: option.splits if_splits)
    then show "o_files (ota_finish_task e me' backup U_SPIFFS s) (OTA_KEEP_FILES ! i) = settings_after backup g (o_files s) (OTA_KEEP_FILES ! i)"
      using finish_files [OF assms(5) i] by simp
  qed
qed

text \<open>An upload that fails while the image is written, then one that succeeds.\<close>

definition sample_ota_env :: "bool \<Rightarrow> ota_env" where
  "sample_ota_env ok = \<lparr>ot_web = sample_web_env, ot_alloc = True, ot_open = (\<lambda>p. True), ot_read = (\<lambda>p. 4096), ot_begin = True, ot_write = ok,
     ot_flash = (\<lambda>p. None), ot_end = True, ot_flush = (\<lambda>p. None), ot_why = ''write'', ot_task = True, ot_restart = True\<rparr>"

definition sample_upload_request :: "nat \<Rightarrow> web_request" where
  "sample_upload_request r = (sample_post None)\<lparr>q_auth := \<lparr>rq_cookie = None, rq_authorization = Some ''Digest x'', rq_authenticate = (\<lambda>u h realm k. True)\<rparr>\<rparr>"

definition sample_ota_state :: OtaState where
  "sample_ota_state = \<lparr>o_auth = w_auth sample_web_state, ota_owner = None, ota_radio_held = False, o_radio = Some None, ota_fs_dirty = False,
     ota_keep_data = replicate 4 [], ota_keep_present = replicate 4 False, o_offline = False, o_reqs = (\<lambda>r. None),
     o_lock = \<lparr>fs_mounted = True, fs_mutex = Some None\<rparr>, o_files = [''/config/user_data.json'' \<mapsto> ''{}''], o_job = None\<rparr>"

definition sample_evs :: "ota_event list" where
  "sample_evs = [OtaChunk (sample_ota_env False) 7 0 5 False, OtaEnd sample_web_env 7, OtaChunk (sample_ota_env True) 8 0 5 True]"

definition sample_finish :: finish_env where
  "sample_finish = \<lparr>of_free = (\<lambda>i. False), of_remount = True,
     of_store = (\<lambda>i. \<lparr>ev_off1 = False, ev_off2 = False, ev_open = True, ev_written = 2, ev_rename = True\<rparr>)\<rparr>"

definition sample_run :: "nat \<Rightarrow> OtaState \<times> files" where
  "sample_run n = ota_run 1 sample_upload_request (\<lambda>r. U_SPIFFS) (take n sample_evs) (sample_ota_state, o_files sample_ota_state)"

lemmas sample_ota = sample_ota_env_def sample_upload_request_def sample_ota_state_def sample_web

lemma sample_ota_fresh: "ota_fresh sample_ota_state"
  by (simp add: ota_fresh_def sample_ota)

lemma sample_readable: "list_all event_readable (take n sample_evs)"
proof -
  have "\<forall>ev \<in> set sample_evs. event_readable ev"
    by (simp add: sample_evs_def readable_def sample_ota OTA_KEEP_MAX_BYTES_def)
  then show ?thesis by (auto simp: list_all_iff dest: in_set_takeD)
qed

theorem ota_settings_kept_witness:
  "list_all (\<lambda>p. o_files (ota_finish_task sample_finish 2 None U_SPIFFS (fst (sample_run 3))) p =
      settings_after None (snd (sample_run 3)) (o_files (fst (sample_run 3))) p) OTA_KEEP_FILES
   \<and> o_files (fst (sample_run 3)) ''/config/user_data.json'' = None
   \<and> settings_after None (snd (sample_run 3)) (o_files (fst (sample_run 3))) ''/config/user_data.json'' = Some ''{}''"
proof -
  have "ota_run 1 sample_upload_request (\<lambda>r. U_SPIFFS) (take 3 sample_evs) (sample_ota_state, o_files sample_ota_state) =
      (fst (sample_run 3), snd (sample_run 3))" by (simp add: sample_run_def)
  moreover have "o_job (fst (sample_run 3)) = Some (FinishJob U_SPIFFS)" by code_simp
  moreover have "finish_works sample_finish 2 None (fst (sample_run 3))" by code_simp
  moreover have "o_files (fst (sample_run 3)) ''/config/user_data.json'' = None" by code_simp
  moreover have "settings_after None (snd (sample_run 3)) (o_files (fst (sample_run 3))) ''/config/user_data.json'' = Some ''{}''" by code_simp
  ultimately show ?thesis using ota_settings_kept [OF sample_ota_fresh sample_readable] by blast
qed

section \<open>What a failure undoes\<close>



text \<open>An update is admitted only for a logged-in user of the same site while no other one runs and the radio is free.\<close>

lemma ota_admit_only_users:
  assumes "ota_admit e s rq = (s', OTA_RUNNING)"
  shows "origin_ok rq \<and> snd (auth_is_set (x_nvs e) (o_auth s)) \<and> snd (auth_check (x_nvs e) (o_auth s) (Some (q_auth rq)))
    \<and> ota_owner s = None \<and> o_radio s = Some None"
  using assms by (auto simp: ota_admit_def auth_is_set_eq Let_def split: prod.splits if_splits)

text \<open>Once an update is complete the radio stays held, so every later upload is refused until the restart.\<close>

lemma held_refuses:
  "ota_admit e s rq = (s', v) \<Longrightarrow> o_radio s = Some (Some Updater) \<Longrightarrow> v \<noteq> OTA_RUNNING"
  by (auto simp: ota_admit_def Let_def split: prod.splits if_splits)

text \<open>Without the lock the finish task restores nothing: its own writes are refused, as the file system is out of service.\<close>

lemma loop_refused:
  assumes "ota_lock_loop me givens l = (l', False)" "fs_mutex l = Some (Some (h, n))" "h \<noteq> me"
  shows "fs_mutex l' = Some (Some (h, n))"
  using assms
proof (induction givens arbitrary: l)
  case (Cons given givens)
  have "\<not> given"
    using Cons.prems by (auto simp: others_leave_def fs_lock_is_mine_def fs_maintenance_begin_def mutex_take_def split: if_splits)
  then show ?case
    using Cons by (simp add: fs_maintenance_begin_def mutex_take_def split: if_splits)
qed simp

lemma finish_without_lock:
  assumes "ota_lock_loop me (map (of_free e) [0..<3]) (o_lock s) = (l, False)" "fs_mutex (o_lock s) = Some (Some (h, n))" "h \<noteq> me"
    and "o_offline s"
  shows "o_files (ota_finish_task e me backup U_SPIFFS s) = o_files s"
proof -
  have l: "fs_mutex l = Some (Some (h, n))" by (rule loop_refused [OF assms(1-3)])
  have one: "ota_restore_one store me backup (s\<lparr>o_lock := l\<rparr>) i = s\<lparr>o_lock := l\<rparr>" for store i
    using l assms(3,4) by (auto simp: ota_restore_one_def write_file_atomic_def fs_enter_def fs_lock_is_mine_def Let_def split: option.split)
  have "foldl (ota_restore_one store me backup) (s\<lparr>o_lock := l\<rparr>) is = s\<lparr>o_lock := l\<rparr>" for store "is"
    by (induction "is") (simp_all add: one)
  then show ?thesis by (simp add: ota_finish_task_def assms(1) ota_keep_clear_def Let_def del: upt_Suc)
qed

end
