(* ===== verification/Wifi_Support.thy ===== *)
theory Wifi_Support
  imports Wifi_Config Storage
begin

text \<open>
  The WiFi component (\<open>src/src/wifi/wifi_support.cpp\<close>): the settings and what may change them,
  the access point, the scans, the connect attempts and setup over USB; the monitor task is in
  \<open>Wifi_Monitor\<close>.  The
  driver's drv (link state, signal, scan results, time) are inputs of each operation; the
  calls it makes are its events, in order.  Log lines are left out.  The radio lock
  only serialises the driver calls; where it can be refused this is an input.
\<close>

section \<open>State\<close>

definition WIFI_CONFIG_PATH :: string where "WIFI_CONFIG_PATH = ''/config/wifi_config.json''"
definition WIFI_DEFAULT_PATH :: string where "WIFI_DEFAULT_PATH = ''/config/wifi_default.json''"
definition WIFI_SCAN_CHANNELS :: int where "WIFI_SCAN_CHANNELS = 13"
definition WIFI_SCAN_HOME_MS :: u32 where "WIFI_SCAN_HOME_MS = 150"
definition WIFI_SCAN_HOME_IDLE_MS :: u32 where "WIFI_SCAN_HOME_IDLE_MS = 20"
definition WIFI_ATTEMPT_TIMEOUT_MS :: u32 where "WIFI_ATTEMPT_TIMEOUT_MS = 15000"
definition WIFI_FALLBACK_STOP_MS :: u32 where "WIFI_FALLBACK_STOP_MS = 10000"
definition WIFI_SCAN_MAX_RESULTS :: nat where "WIFI_SCAN_MAX_RESULTS = 40"

record WifiState =
  wifi_backup :: "string option"
  g_sta_ssid :: string
  g_sta_pass :: string
  g_ap_pass :: string
  g_ap_ssid :: string
  g_sta_mode :: bool
  g_fallback_ap :: bool
  g_monitor :: bool
  g_restart_scheduled :: bool
  g_provisioning :: bool
  g_scan_running :: bool
  g_attempt_active :: bool
  g_attempt_start :: u32
  g_last_pick_channel :: int
  g_disc_count :: u32
  g_disc_reason :: int
  g_disc_bssid :: bytes
  g_last_scan :: "string option"

definition WifiState_init :: WifiState where
  "WifiState_init = \<lparr>wifi_backup = None, g_sta_ssid = [], g_sta_pass = [], g_ap_pass = [], g_ap_ssid = [],
     g_sta_mode = False, g_fallback_ap = False, g_monitor = False, g_restart_scheduled = False, g_provisioning = False,
     g_scan_running = False, g_attempt_active = False, g_attempt_start = 0, g_last_pick_channel = 0, g_disc_count = 0,
     g_disc_reason = 0, g_disc_bssid = replicate 6 0, g_last_scan = None\<rparr>"

text \<open>The driver's modes, and what the component asks others to do.\<close>

datatype wifi_mode = MODE_NULL | MODE_STA | MODE_AP | MODE_APSTA

definition has_sta :: "wifi_mode \<Rightarrow> bool" where
  "has_sta m \<longleftrightarrow> m = MODE_STA \<or> m = MODE_APSTA"

datatype wifi_event =
    WAlert string
  | WRestart u32
  | WMode wifi_mode
  | WNoSleep
  | WSoftApConfig
  | WSoftAp string string int
  | WSoftApOff
  | WStaOff
  | WDisconnect
  | WBegin string string "(int \<times> bytes) option"
  | WNoAutoReconnect
  | WAllChannels
  | WScan int "string option"
  | WScanAll
  | WDelay u32
  | WOledAlert
  | WOledAp string string
  | WOledWifi string
  | WDns
  | WMdns
  | WMonitorStart
  | WMonitorNotify
  | WSend jdoc

definition copy_str :: "nat \<Rightarrow> string option \<Rightarrow> string" where
  "copy_str cap src = take (cap - 1) (case src of None \<Rightarrow> [] | Some s \<Rightarrow> s)"

definition wifi_default_ap_pass :: "bytes \<Rightarrow> string" where
  "wifi_default_ap_pass mac = wifi_derive_ap_pass mac"

definition fallback_ap_ssid :: "string \<Rightarrow> string" where
  "fallback_ap_ssid uname =
     (if wifi_valid_ssid (Some uname) then copy_str 33 (Some uname) else copy_str 33 (Some WIFI_DEFAULT_AP_SSID))"

section \<open>Settings\<close>

text \<open>\<open>ok\<close>: could the restart task be created.\<close>

definition schedule_restart :: "bool \<Rightarrow> u32 \<Rightarrow> WifiState \<Rightarrow> WifiState \<times> bool \<times> wifi_event list" where
  "schedule_restart ok extra_delay w =
     (if g_restart_scheduled w then (w, True, [])
      else if \<not> ok then (w\<lparr>g_restart_scheduled := False\<rparr>, False, [])
      else (w\<lparr>g_restart_scheduled := True\<rparr>, True, [WRestart extra_delay]))"

record set_env =
  set_fs :: "nat \<Rightarrow> fs_env"
  set_me :: nat
  set_task :: bool
  set_uname :: string

definition write_config_and_restart ::
  "'v json_api \<Rightarrow> set_env \<Rightarrow> FsLock \<times> files \<Rightarrow> WifiState \<Rightarrow> WifiConfig \<Rightarrow>
     (FsLock \<times> files) \<times> WifiState \<times> bool \<times> wifi_event list" where
  "write_config_and_restart J e st w cfg =
     (let (st, written) = write_file_atomic (set_fs e 2) (set_me e) st (Some WIFI_CONFIG_PATH) (wifi_serialize_config J cfg) in
      if \<not> written then (st, w, False, [WAlert ''Could not save WiFi settings.''])
      else
        let (w, ok, evs) = schedule_restart (set_task e) 0 w in
        (st, w, True, evs @ (if \<not> ok then [WAlert ''WiFi settings saved. Restart the device to apply them.''] else [])))"

definition get_wifi_setting :: "fs_env \<Rightarrow> nat \<Rightarrow> FsLock \<times> files \<Rightarrow> string \<Rightarrow> (FsLock \<times> files) \<times> string" where
  "get_wifi_setting e me st path =
     (case read_file e me st (Some path) of
        (st, ok, txt) \<Rightarrow> if \<not> ok then (st, []) else if length txt = 0 \<or> length txt > 1024 then (st, []) else (st, txt))"

definition wifi_load_config ::
  "'v json_api \<Rightarrow> (nat \<Rightarrow> fs_env) \<Rightarrow> nat \<Rightarrow> FsLock \<times> files \<Rightarrow> (FsLock \<times> files) \<times> WifiConfig" where
  "wifi_load_config J e me st =
     (let (st, raw) = get_wifi_setting (e 0) me st WIFI_CONFIG_PATH; (r, cfg) = wifi_parse_config J (Some raw) in
      if r \<noteq> WIFI_PARSE_ERROR then (st, cfg)
      else
        let (st, raw) = get_wifi_setting (e 1) me st WIFI_DEFAULT_PATH; (r, cfg) = wifi_parse_config J (Some raw) in
        if r \<noteq> WIFI_PARSE_ERROR then (st, cfg) else (st, WifiConfig_init))"

definition save_wifi_settings :: "fs_env \<Rightarrow> nat \<Rightarrow> FsLock \<times> files \<Rightarrow> string \<Rightarrow> (FsLock \<times> files) \<times> bool" where
  "save_wifi_settings e me st config = write_file_atomic e me st (Some WIFI_CONFIG_PATH) config"

definition wifi_save_sta ::
  "'v json_api \<Rightarrow> set_env \<Rightarrow> FsLock \<times> files \<Rightarrow> WifiState \<Rightarrow> string option \<Rightarrow> string option \<Rightarrow>
     (FsLock \<times> files) \<times> WifiState \<times> bool \<times> wifi_event list" where
  "wifi_save_sta J e st w ssid pass =
     (let pass = (case pass of None \<Rightarrow> [] | Some p \<Rightarrow> p) in
      if \<not> wifi_valid_ssid ssid then (st, w, False, [WAlert ''Invalid SSID (1-32 characters).''])
      else if \<not> wifi_valid_sta_pass (Some pass)
      then (st, w, False, [WAlert ''Invalid WiFi password (empty or 8-63 characters).''])
      else
        let (st, cfg) = wifi_load_config J (set_fs e) (set_me e) st in
        write_config_and_restart J e st w (cfg\<lparr>w_mode := WIFI_CFG_STA, w_ssid := the ssid, w_pass := pass\<rparr>))"

definition wifi_switch_to_ap ::
  "'v json_api \<Rightarrow> set_env \<Rightarrow> FsLock \<times> files \<Rightarrow> WifiState \<Rightarrow> (FsLock \<times> files) \<times> WifiState \<times> bool \<times> wifi_event list" where
  "wifi_switch_to_ap J e st w =
     (let (st, cfg) = wifi_load_config J (set_fs e) (set_me e) st in
      write_config_and_restart J e st w
        (cfg\<lparr>w_mode := WIFI_CFG_AP, w_ssid := fallback_ap_ssid (set_uname e), w_pass := []\<rparr>))"

definition wifi_set_ap_pass ::
  "'v json_api \<Rightarrow> set_env \<Rightarrow> FsLock \<times> files \<Rightarrow> WifiState \<Rightarrow> string option \<Rightarrow>
     (FsLock \<times> files) \<times> WifiState \<times> bool \<times> wifi_event list" where
  "wifi_set_ap_pass J e st w pass =
     (if \<not> wifi_valid_ap_pass_setting pass
      then (st, w, False, [WAlert ''Invalid AP password (8-63 characters, or empty for the default).''])
      else
        let (st, cfg) = wifi_load_config J (set_fs e) (set_me e) st in
        write_config_and_restart J e st w (cfg\<lparr>w_ap_pass := the pass\<rparr>))"

section \<open>The access point\<close>

text \<open>\<open>started\<close>: the results of the two tries to start it.\<close>

definition setup_ap ::
  "bytes \<Rightarrow> bool \<times> bool \<Rightarrow> WifiState \<Rightarrow> string option \<Rightarrow> string option \<Rightarrow> int \<Rightarrow> WifiState \<times> wifi_event list" where
  "setup_ap mac started w wifi_ssid wifi_pass channel =
     (let ssid = (if wifi_valid_ssid wifi_ssid then the wifi_ssid else WIFI_DEFAULT_AP_SSID);
          pass = (if wifi_pass \<noteq> None \<and> wifi_valid_ap_pass wifi_pass then the wifi_pass else wifi_default_ap_pass mac);
          channel = (if channel < 1 \<or> channel > 13 then 1 else channel);
          evs = [WSoftApConfig, WSoftAp ssid pass channel];
          (ssid, pass, ok, evs) =
            (if fst started then (ssid, pass, True, evs)
             else (WIFI_DEFAULT_AP_SSID, wifi_default_ap_pass mac, snd started,
                   evs @ [WSoftAp WIFI_DEFAULT_AP_SSID (wifi_default_ap_pass mac) channel])) in
      if \<not> ok then (w, evs @ [WOledAlert])
      else (w\<lparr>g_ap_ssid := copy_str 33 (Some ssid)\<rparr>, evs @ [WOledAp ssid pass, WOledWifi ssid, WDns, WMdns]))"

definition wifi_apply_no_sleep :: "wifi_event list" where
  "wifi_apply_no_sleep = [WNoSleep]"

record ap_env =
  ap_mac :: bytes
  ap_started :: "bool \<times> bool"
  ap_uname :: string
  ap_radio_channel :: int

definition start_fallback_ap :: "ap_env \<Rightarrow> WifiState \<Rightarrow> WifiState \<times> wifi_event list" where
  "start_fallback_ap e w =
     (if g_fallback_ap w then (w, [])
      else
        let ch = g_last_pick_channel w;
            ch = (if ch < 1 \<or> ch > 13 then ap_radio_channel e else ch);
            ch = (if ch < 1 \<or> ch > 13 then 1 else ch);
            (w, evs) = setup_ap (ap_mac e) (ap_started e) w (Some (fallback_ap_ssid (ap_uname e))) (Some (g_ap_pass w)) ch
        in (w\<lparr>g_fallback_ap := True\<rparr>, WMode MODE_APSTA # wifi_apply_no_sleep @ evs))"

definition stop_fallback_ap :: "WifiState \<Rightarrow> WifiState \<times> wifi_event list" where
  "stop_fallback_ap w =
     (if \<not> g_fallback_ap w then (w, [])
      else (w\<lparr>g_fallback_ap := False, g_ap_ssid := []\<rparr>, [WSoftApOff] @ wifi_apply_no_sleep @ [WOledWifi (g_sta_ssid w)]))"

section \<open>Scans\<close>

text \<open>What the driver drv on one channel: whether the radio lock was had, the results of the scan and
  of the retry (\<open>None\<close>: busy).\<close>

record chan_answer =
  ch_locked :: bool
  ch_first :: "WifiApInfo list option"
  ch_retry :: "WifiApInfo list option"

definition scan_channel ::
  "string option \<Rightarrow> u32 \<Rightarrow> (WifiApInfo \<Rightarrow> 's \<Rightarrow> 's) \<Rightarrow> int \<Rightarrow> chan_answer \<Rightarrow> 's \<times> int \<times> wifi_event list \<Rightarrow>
     's \<times> int \<times> wifi_event list" where
  "scan_channel ssid home on_hit ch a r =
     (let (s, ok_channels, evs) = r in
      if \<not> ch_locked a then (s, ok_channels, evs)
      else
        (case ch_first a of
           None \<Rightarrow> (s, ok_channels, evs @ [WScan ch ssid, WDelay 200, WScan ch ssid, WDelay home])
         | Some hits \<Rightarrow> (fold on_hit hits s, ok_channels + 1, evs @ [WScan ch ssid, WDelay home])))"

definition scan_channels ::
  "string option \<Rightarrow> u32 \<Rightarrow> (WifiApInfo \<Rightarrow> 's \<Rightarrow> 's) \<Rightarrow> (int \<Rightarrow> chan_answer) \<Rightarrow> 's \<Rightarrow> 's \<times> int \<times> wifi_event list" where
  "scan_channels ssid home on_hit drv s =
     fold (\<lambda>ch. scan_channel ssid home on_hit ch (drv ch)) [1..WIFI_SCAN_CHANNELS] (s, 0, [])"

text \<open>The scan for the browser.  \<open>enough\<close>: the list could be allocated; \<open>lockable\<close>: the lock of the last result was had.\<close>

definition scan_json :: "WifiScanEntry list \<Rightarrow> jdoc" where
  "scan_json xs = JObject [(''response_type'', JText ''wifi_scan''),
     (''SSID'', JArray (map (\<lambda>e. JObject [(''ssid'', JText (e_ssid e)), (''rssi'', JNum (e_rssi e))]) xs))]"

definition scan_ssid ::
  "(jdoc \<Rightarrow> string) \<Rightarrow> bool \<Rightarrow> bool \<Rightarrow> wifi_mode \<Rightarrow> (int \<Rightarrow> chan_answer) \<Rightarrow> WifiState \<Rightarrow> WifiState \<times> wifi_event list" where
  "scan_ssid ser enough lockable prev_mode drv w =
     (if g_scan_running w then (w, [])
      else if \<not> enough then (w\<lparr>g_scan_running := False\<rparr>, [WAlert ''WiFi scan failed. Please try again.''])
      else
        let (xs, ok_channels, evs) = scan_channels None WIFI_SCAN_HOME_MS
              (\<lambda>i xs. wifi_scan_merge xs WIFI_SCAN_MAX_RESULTS (i_ssid i) (i_rssi i)) drv [];
            xs = wifi_scan_sort xs in
        (w\<lparr>g_last_scan := (if ok_channels > 0 \<and> lockable then Some (ser (scan_json xs)) else g_last_scan w),
           g_scan_running := False\<rparr>,
         evs @ (if prev_mode = MODE_AP then [WStaOff] else []) @ [WSend (scan_json xs)]
         @ (if ok_channels = 0 then [WAlert ''WiFi scan failed. Please try again.''] else [])))"

definition wifi_last_scan_json :: "bool \<Rightarrow> WifiState \<Rightarrow> string" where
  "wifi_last_scan_json lockable w = (if lockable then (case g_last_scan w of None \<Rightarrow> [] | Some s \<Rightarrow> s) else [])"

text \<open>The scan for the web flasher: one entry per network, at its strongest.\<close>

definition improv_hit :: "nat \<Rightarrow> string \<times> int \<times> bool \<Rightarrow> WifiNet list \<Rightarrow> WifiNet list" where
  "improv_hit mx hit out =
     (let (s, rssi, secure) = hit in
      if length s = 0 \<or> length s > 32 then out
      else
        (case find_idx (\<lambda>n. n_ssid n = s) out of
           Some j \<Rightarrow> if rssi > n_rssi (out ! j) then out[j := (out ! j)\<lparr>n_rssi := sint (word_of_int rssi :: u8), n_secure := secure\<rparr>]
                     else out
         | None \<Rightarrow>
             if length out = mx then out
             else out @ [\<lparr>n_ssid = copy_str 33 (Some s), n_rssi = (if rssi < -128 then -128 else if rssi > 0 then 0 else rssi),
                          n_secure = secure\<rparr>]))"

definition wifi_improv_scan ::
  "bool \<Rightarrow> wifi_mode \<Rightarrow> (string \<times> int \<times> bool) list \<Rightarrow> nat \<Rightarrow> WifiState \<Rightarrow> WifiState \<times> WifiNet list \<times> wifi_event list" where
  "wifi_improv_scan locked prev hits mx w =
     (if mx = 0 \<or> g_provisioning w then (w, [], [])
      else if \<not> locked then (w, [], [])
      else
        let out = fold (improv_hit mx) hits [] in
        (w\<lparr>g_scan_running := False\<rparr>, fold (sort_step n_rssi) [1..<length out] out,
         (if \<not> has_sta prev then [WMode (if prev = MODE_AP then MODE_APSTA else MODE_STA)] else [])
         @ [WScanAll] @ (if \<not> has_sta prev then [WMode prev] else [])))"

section \<open>Driver events\<close>

definition onWifiConnect :: "WifiState \<Rightarrow> WifiState \<times> wifi_event list" where
  "onWifiConnect w =
     (w\<lparr>g_attempt_active := False\<rparr>, WOledWifi (g_sta_ssid w) # (if g_monitor w then [WMonitorNotify] else []))"

definition onWifiDisconnect :: "int \<Rightarrow> bytes \<Rightarrow> WifiState \<Rightarrow> WifiState \<times> wifi_event list" where
  "onWifiDisconnect reason bssid w =
     (if wifi_classify_reason reason = WIFI_DISC_SELF then (w, [])
      else
        (w\<lparr>g_attempt_active := False, g_disc_reason := reason, g_disc_bssid := take 6 bssid, g_disc_count := g_disc_count w + 1\<rparr>,
         (if \<not> g_fallback_ap w then [WOledWifi (g_sta_ssid w)] else []) @ (if g_monitor w then [WMonitorNotify] else [])))"

text \<open>A scan takes seconds, and other tasks run meanwhile: setup over USB may begin (the first statement of
  \<open>wifi_improv_provision\<close>) or give up, the driver may report a link or its loss, another scan may
  begin or end.\<close>

datatype other_step = ProvisionBegins | ProvisionEnds | LinkUp | LinkLost int bytes | OtherScan bool

fun other_does :: "other_step \<Rightarrow> WifiState \<Rightarrow> WifiState" where
  "other_does ProvisionBegins w = w\<lparr>g_provisioning := True\<rparr>"
| "other_does ProvisionEnds w = w\<lparr>g_provisioning := False\<rparr>"
| "other_does LinkUp w = fst (onWifiConnect w)"
| "other_does (LinkLost reason bssid) w = fst (onWifiDisconnect reason bssid w)"
| "other_does (OtherScan b) w = w\<lparr>g_scan_running := b\<rparr>"

definition meanwhile :: "other_step list \<Rightarrow> WifiState \<Rightarrow> WifiState" where
  "meanwhile os w = fold other_does os w"

lemma other_keeps: "g_fallback_ap (meanwhile os w) = g_fallback_ap w" "g_sta_ssid (meanwhile os w) = g_sta_ssid w"
  "g_sta_pass (meanwhile os w) = g_sta_pass w"
proof -
  have "g_fallback_ap (other_does o1 w) = g_fallback_ap w \<and> g_sta_ssid (other_does o1 w) = g_sta_ssid w
      \<and> g_sta_pass (other_does o1 w) = g_sta_pass w" for o1 w
    by (cases o1) (simp_all add: onWifiConnect_def onWifiDisconnect_def)
  then show "g_fallback_ap (meanwhile os w) = g_fallback_ap w" "g_sta_ssid (meanwhile os w) = g_sta_ssid w"
    "g_sta_pass (meanwhile os w) = g_sta_pass w"
    by (induction os arbitrary: w) (simp_all add: meanwhile_def)
qed

section \<open>Connecting\<close>

definition sta_begin_pinned :: "u32 \<Rightarrow> WifiState \<Rightarrow> WifiApCandidate \<Rightarrow> WifiState \<times> wifi_event list" where
  "sta_begin_pinned now w c =
     (w\<lparr>g_last_pick_channel := ap_channel c, g_attempt_start := now, g_attempt_active := True\<rparr>,
      [WBegin (g_sta_ssid w) (g_sta_pass w) (Some (ap_channel c, ap_bssid c))])"

definition wifi_hit :: "WifiState \<Rightarrow> WifiApInfo \<Rightarrow> WifiApSelector \<Rightarrow> WifiApSelector" where
  "wifi_hit w i sel = sel_add sel (Some (g_sta_ssid w)) (i_ssid i) (i_rssi i) (Some (i_bssid i)) (i_channel i)"

record connect_env =
  c_connected :: bool
  c_connected2 :: bool
  c_scan :: "int \<Rightarrow> chan_answer"
  c_rescan :: "int \<Rightarrow> chan_answer"
  c_begin :: u32
  c_others :: "other_step list"

definition sta_connect_best :: "connect_env \<Rightarrow> WifiState \<Rightarrow> bytes option \<Rightarrow> WifiState \<times> wifi_event list" where
  "sta_connect_best e w avoid =
     (let evs0 = (if \<not> c_connected e then [WDisconnect, WDelay 300] else []);
          home = (if g_fallback_ap w \<or> c_connected2 e then WIFI_SCAN_HOME_MS else WIFI_SCAN_HOME_IDLE_MS);
          sel = set_avoid WifiApSelector_init avoid;
          (sel, ok, evs1) = scan_channels (Some (g_sta_ssid w)) home (wifi_hit w) (c_scan e) sel;
          (sel, evs2) =
            (if ok = 0 then
               (let (sel, ok, evs) = scan_channels (Some (g_sta_ssid w)) home (wifi_hit w) (c_rescan e) sel
                in (sel, WDelay 1000 # evs))
             else (sel, []));
          w = meanwhile (c_others e) w;
          best = sel_pick sel;
          (w, evs3) =
            (if ap_valid best then sta_begin_pinned (c_begin e) w best
             else (w\<lparr>g_last_pick_channel := 0, g_attempt_start := c_begin e, g_attempt_active := True\<rparr>,
                   [WBegin (g_sta_ssid w) (g_sta_pass w) None]))
      in (w, evs0 @ evs1 @ evs2 @ evs3))"

definition wifi_init_hostname :: "bytes \<Rightarrow> string" where
  "wifi_init_hostname mac = wifi_format_hostname mac"

text \<open>\<open>created\<close>: could the monitor task be created.  The 20 seconds of waiting only show progress.\<close>

definition setup_sta :: "bool \<Rightarrow> WifiState \<Rightarrow> string \<Rightarrow> string \<Rightarrow> WifiState \<times> wifi_event list" where
  "setup_sta created w wifi_ssid wifi_pass =
     (let w = w\<lparr>g_sta_mode := True, g_sta_ssid := copy_str 33 (Some wifi_ssid), g_sta_pass := copy_str 64 (Some wifi_pass)\<rparr>;
          evs = [WNoAutoReconnect, WMode MODE_STA] @ wifi_apply_no_sleep @ [WAllChannels, WOledWifi (g_sta_ssid w)] in
      if g_monitor w then (w, evs)
      else if created then (w\<lparr>g_monitor := True\<rparr>, evs @ [WMonitorStart])
      else (w, evs @ [WBegin (g_sta_ssid w) (g_sta_pass w) None]))"

definition connect_wifi ::
  "'v json_api \<Rightarrow> fs_env \<Rightarrow> (nat \<Rightarrow> fs_env) \<Rightarrow> nat \<Rightarrow> bool \<Rightarrow> ap_env \<Rightarrow> FsLock \<times> files \<Rightarrow> WifiState \<Rightarrow>
     (FsLock \<times> files) \<times> WifiState \<times> wifi_event list" where
  "connect_wifi J e0 e me created ape st w =
     (let (st, raw) = get_wifi_setting e0 me st WIFI_CONFIG_PATH;
          w = (if length raw > 0 then w\<lparr>wifi_backup := Some raw\<rparr> else w);
          (st, cfg) = wifi_load_config J e me st;
          w = w\<lparr>g_sta_ssid := copy_str 33 (Some (w_ssid cfg)), g_sta_pass := copy_str 64 (Some (w_pass cfg)),
                g_ap_pass := copy_str 64 (Some (w_ap_pass cfg))\<rparr> in
      if w_mode cfg = WIFI_CFG_STA then
        let (w, evs) = setup_sta created w (g_sta_ssid w) (g_sta_pass w) in (st, w, WNoSleep # evs)
      else
        let (w, evs) = setup_ap (ap_mac ape) (ap_started ape) (w\<lparr>g_sta_mode := False\<rparr>) (Some (w_ssid cfg)) (Some (g_ap_pass w)) 1
        in (st, w, [WNoSleep, WMode MODE_AP] @ wifi_apply_no_sleep @ evs))"

subsection \<open>Setup over USB\<close>

text \<open>\<open>ip\<close>: the address when the station is connected.\<close>

definition wifi_sta_url :: "string option \<Rightarrow> string" where
  "wifi_sta_url ip = (case ip of None \<Rightarrow> [] | Some a \<Rightarrow> if a = ''0.0.0.0'' then [] else ''http://'' @ a)"

text \<open>\<open>ip\<close> is the address after the wait of up to \<open>timeout\<close>, which itself changes nothing.\<close>

definition wifi_improv_provision ::
  "'v json_api \<Rightarrow> set_env \<Rightarrow> wifi_mode \<Rightarrow> string option \<Rightarrow> FsLock \<times> files \<Rightarrow> WifiState \<Rightarrow> string option \<Rightarrow> string option \<Rightarrow>
     (FsLock \<times> files) \<times> WifiState \<times> bool \<times> string \<times> wifi_event list" where
  "wifi_improv_provision J e prev ip st w ssid pass =
     (let pass = (case pass of None \<Rightarrow> [] | Some p \<Rightarrow> p) in
      if \<not> wifi_valid_ssid ssid \<or> \<not> wifi_valid_sta_pass (Some pass) then (st, w, False, [], [])
      else if g_provisioning w then (st, w, False, [], [])
      else
        let w = w\<lparr>g_provisioning := True\<rparr>;
            evs = (if has_sta prev then [WDisconnect, WDelay 300] else [WMode (if prev = MODE_AP then MODE_APSTA else MODE_STA)])
                  @ [WNoAutoReconnect, WAllChannels] @ wifi_apply_no_sleep @ [WBegin (the ssid) pass None];
            url = wifi_sta_url ip in
        if length url > 0 then
          let (st, cfg) = wifi_load_config J (set_fs e) (set_me e) st;
              (st, saved) = write_file_atomic (set_fs e 2) (set_me e) st (Some WIFI_CONFIG_PATH)
                (wifi_serialize_config J (cfg\<lparr>w_mode := WIFI_CFG_STA, w_ssid := the ssid, w_pass := pass\<rparr>));
              (w, ok, evs2) = schedule_restart (set_task e) 3000 w
          in (st, w, saved, if \<not> saved then [] else url, evs @ evs2)
        else
          (st, w\<lparr>g_provisioning := False\<rparr>, False, [],
           evs @ [WDisconnect] @ (if \<not> has_sta prev then [WMode prev] else []) @ (if g_monitor w then [WMonitorNotify] else [])))"

section \<open>Settings survive\<close>

text \<open>The four ways to change the WiFi settings: three from the browser, and setup over USB (with the
  driver's mode before and the address after the attempt).\<close>

datatype setting_op =
    SaveSta "string option" "string option" | SwitchToAp | SetApPass "string option"
  | Provision wifi_mode "string option" "string option" "string option"

fun run_setting ::
  "'v json_api \<Rightarrow> set_env \<Rightarrow> FsLock \<times> files \<Rightarrow> WifiState \<Rightarrow> setting_op \<Rightarrow> (FsLock \<times> files) \<times> WifiState \<times> bool \<times> wifi_event list" where
  "run_setting J e st w (SaveSta ssid pass) = wifi_save_sta J e st w ssid pass"
| "run_setting J e st w SwitchToAp = wifi_switch_to_ap J e st w"
| "run_setting J e st w (SetApPass pass) = wifi_set_ap_pass J e st w pass"
| "run_setting J e st w (Provision prev ip ssid pass) =
     (case wifi_improv_provision J e prev ip st w ssid pass of (st, w, ok, url, evs) \<Rightarrow> (st, w, ok, evs))"

text \<open>The operations of one boot, each with its environment: the results they report, and all events.\<close>

fun run_settings ::
  "'v json_api \<Rightarrow> (set_env \<times> setting_op) list \<Rightarrow> FsLock \<times> files \<Rightarrow> WifiState \<Rightarrow>
     (FsLock \<times> files) \<times> WifiState \<times> bool list \<times> wifi_event list" where
  "run_settings J [] st w = (st, w, [], [])"
| "run_settings J ((e, op) # ops) st w =
     (case run_setting J e st w op of (st, w, ok, evs) \<Rightarrow>
       (case run_settings J ops st w of (st, w, oks, evs') \<Rightarrow> (st, w, ok # oks, evs @ evs')))"

text \<open>The settings an operation asks for; \<open>None\<close> when its arguments are not acceptable, or setup over USB
  is busy or does not reach the network.\<close>

definition fits_pass :: "string option \<Rightarrow> bool" where
  "fits_pass pass \<longleftrightarrow> pass = None \<or> pass = Some [] \<or> fits_key (the pass)"

definition joined :: "WifiConfig \<Rightarrow> string \<Rightarrow> string option \<Rightarrow> WifiConfig" where
  "joined c ssid pass = c\<lparr>w_mode := WIFI_CFG_STA, w_ssid := ssid, w_pass := (case pass of None \<Rightarrow> [] | Some p \<Rightarrow> p)\<rparr>"

fun wanted :: "string \<Rightarrow> bool \<Rightarrow> WifiConfig \<Rightarrow> setting_op \<Rightarrow> WifiConfig option" where
  "wanted uname busy c (SaveSta ssid pass) =
     (if ssid \<noteq> None \<and> fits_ssid (the ssid) \<and> fits_pass pass then Some (joined c (the ssid) pass) else None)"
| "wanted uname busy c SwitchToAp =
     Some (c\<lparr>w_mode := WIFI_CFG_AP, w_ssid := (if fits_ssid uname then uname else ''Voyager''), w_pass := []\<rparr>)"
| "wanted uname busy c (SetApPass pass) =
     (if pass \<noteq> None \<and> (the pass = [] \<or> fits_key (the pass)) then Some (c\<lparr>w_ap_pass := the pass\<rparr>) else None)"
| "wanted uname busy c (Provision prev ip ssid pass) =
     (if \<not> busy \<and> ip \<noteq> None \<and> ip \<noteq> Some ''0.0.0.0'' \<and> ssid \<noteq> None \<and> fits_ssid (the ssid) \<and> fits_pass pass
      then Some (joined c (the ssid) pass) else None)"

fun is_provision :: "setting_op \<Rightarrow> bool" where
  "is_provision (Provision prev ip ssid pass) = True"
| "is_provision _ = False"

text \<open>What the reported results must mean: the settings after the operations, starting from \<open>c\<close>, and
  whether a restart was asked for and its task could be created.  \<open>None\<close>: a result that is wrong.\<close>

fun settings_spec :: "(set_env \<times> setting_op \<times> bool) list \<Rightarrow> WifiConfig \<Rightarrow> bool \<Rightarrow> bool \<Rightarrow> (WifiConfig \<times> bool) option" where
  "settings_spec [] c busy restart = Some (c, restart)"
| "settings_spec ((e, op, ok) # rs) c busy restart =
     (case wanted (set_uname e) busy c op of
        None \<Rightarrow> if ok then None else settings_spec rs c busy restart
      | Some d \<Rightarrow> settings_spec rs (if ok then d else c) (busy \<or> is_provision op)
          (restart \<or> (ok \<or> is_provision op) \<and> set_task e))"

text \<open>All settings that the operations may ask for.\<close>

fun requests :: "(set_env \<times> setting_op) list \<Rightarrow> WifiConfig \<Rightarrow> WifiConfig list" where
  "requests [] c = []"
| "requests ((e, op) # ops) c =
     (case wanted (set_uname e) False c op of None \<Rightarrow> requests ops c | Some d \<Rightarrow> d # requests ops d @ requests ops c)"

text \<open>The settings the next start finds.\<close>

definition next_boot :: "'v json_api \<Rightarrow> nat \<Rightarrow> FsLock \<times> files \<Rightarrow> WifiConfig" where
  "next_boot J me st = snd (wifi_load_config J (\<lambda>_. good_moment) me st)"

text \<open>What the JSON library does with settings: they come back, and fit the size the board reads.\<close>

definition settings_json :: "'v json_api \<Rightarrow> WifiConfig \<Rightarrow> bool" where
  "settings_json J c \<longleftrightarrow> json_reads_texts J (wifi_members c) \<and> length (wifi_serialize_config J c) \<le> 1024"

lemma opens_good [simp]: "opens good_moment"
  by (simp add: opens_def good_moment_def)

lemma paths_differ [simp]: "WIFI_CONFIG_PATH \<noteq> WIFI_DEFAULT_PATH" "WIFI_DEFAULT_PATH \<noteq> WIFI_CONFIG_PATH"
  "WIFI_DEFAULT_PATH \<noteq> tmp_path WIFI_CONFIG_PATH"
  by (simp_all add: WIFI_CONFIG_PATH_def WIFI_DEFAULT_PATH_def tmp_path_def)

definition setting_text :: "files \<Rightarrow> string \<Rightarrow> string" where
  "setting_text fs p = (case fs p of None \<Rightarrow> [] | Some c \<Rightarrow> if length c \<le> 1024 then c else [])"

lemma get_setting_calm:
  assumes "calm me l" "opens e"
  shows "get_wifi_setting e me (l, fs) p = ((l, fs), setting_text fs p)"
  using assms by (simp add: get_wifi_setting_def calm_read setting_text_def split: option.split)

lemma load_calm:
  assumes "calm me l" "opens (e 0)" "opens (e 1)"
  shows "wifi_load_config J e me (l, fs) = ((l, fs), next_boot J me (l, fs))"
  using assms by (simp add: wifi_load_config_def next_boot_def get_setting_calm split_beta Let_def)

lemma load_texts:
  assumes "calm me l" "calm me l'" "\<forall>p \<in> {WIFI_CONFIG_PATH, WIFI_DEFAULT_PATH}. setting_text fs p = setting_text fs' p"
  shows "next_boot J me (l, fs) = next_boot J me (l', fs')"
  using assms by (simp add: wifi_load_config_def next_boot_def get_setting_calm split_beta Let_def)

lemma next_boot_ok: "calm me l \<Longrightarrow> wifi_config_ok (next_boot J me (l, fs))"
  by (simp add: wifi_load_config_def next_boot_def get_setting_calm split_beta Let_def wifi_parse_config_ok)

lemma load_serialized:
  assumes "calm me l" "settings_json J c" "wifi_config_ok c" "fs WIFI_CONFIG_PATH = Some (wifi_serialize_config J c)"
  shows "next_boot J me (l, fs) = c"
proof -
  have "setting_text fs WIFI_CONFIG_PATH = wifi_serialize_config J c"
    using assms(2-4) by (simp add: setting_text_def settings_json_def)
  moreover have "wifi_parse_config J (Some (wifi_serialize_config J c)) = (WIFI_PARSE_OK, c)"
    using assms(2,3) by (simp add: wifi_parse_serialized settings_json_def)
  ultimately show ?thesis using assms(1) by (simp add: next_boot_def wifi_load_config_def get_setting_calm)
qed

definition restarts :: "wifi_event list \<Rightarrow> nat" where
  "restarts evs = length (filter (\<lambda>ev. case ev of WRestart d \<Rightarrow> True | _ \<Rightarrow> False) evs)"

lemma write_config_outcome:
  assumes "calm (set_me e) l" "settings_json J c" "wifi_config_ok c"
    and "write_config_and_restart J e (l, fs) w c = ((l', fs'), w', ok, evs)"
  shows "l' = l \<and> next_boot J (set_me e) (l', fs') = (if ok then c else next_boot J (set_me e) (l, fs))
    \<and> restarts evs = (if ok \<and> \<not> g_restart_scheduled w \<and> set_task e then 1 else 0)
    \<and> g_restart_scheduled w' = (g_restart_scheduled w \<or> restarts evs = 1)"
proof -
  obtain l1 fs1 k where wr: "write_file_atomic (set_fs e 2) (set_me e) (l, fs) (Some WIFI_CONFIG_PATH)
      (wifi_serialize_config J c) = ((l1, fs1), k)" by (metis surj_pair)
  note any = calm_write_any [OF assms(1) wr]
  have r: "l' = l1" "fs' = fs1" "ok = k"
    "restarts evs = (if ok \<and> \<not> g_restart_scheduled w \<and> set_task e then 1 else 0)"
    "g_restart_scheduled w' = (g_restart_scheduled w \<or> restarts evs = 1)"
    using assms(4)
    by (auto simp: write_config_and_restart_def wr schedule_restart_def restarts_def Let_def split: if_splits)
  have "next_boot J (set_me e) (l', fs') = c" if ok
    using load_serialized [of "set_me e" l' J c fs'] assms any r that by simp
  moreover have "next_boot J (set_me e) (l', fs') = next_boot J (set_me e) (l, fs)" if "\<not> ok"
    using load_texts [of "set_me e" l' l fs' fs] assms any r that by (simp add: setting_text_def)
  ultimately show ?thesis using any r by simp
qed

lemma fallback_ssid_ok: "wifi_valid_ssid (Some (fallback_ap_ssid uname))"
  by (auto simp: fallback_ap_ssid_def copy_str_def wifi_valid_ssid_def) (auto simp: WIFI_DEFAULT_AP_SSID_def byte_of_def)

lemma valid_some:
  "\<not> wifi_valid_ssid None" "wifi_valid_ap_pass_setting s \<Longrightarrow> wifi_valid_ap_pass_setting (Some (the s))"
  by (simp_all add: wifi_valid_ssid_def wifi_valid_ap_pass_setting_def split: option.splits)

lemma config_ok_fits:
  "wifi_config_ok c \<longleftrightarrow> fits_ssid (w_ssid c) \<and> (w_pass c = [] \<or> fits_key (w_pass c)) \<and> (w_ap_pass c = [] \<or> fits_key (w_ap_pass c))"
  by (simp add: wifi_config_ok_def valid_fits wifi_valid_ap_pass_setting_def)

lemma joined_ok: "wifi_config_ok c \<Longrightarrow> fits_ssid s \<Longrightarrow> fits_pass pass \<Longrightarrow> wifi_config_ok (joined c s pass)"
  by (cases pass) (auto simp: config_ok_fits joined_def fits_pass_def)

lemma voyager_fits: "fits_ssid ''Voyager''"
  by (simp add: fits_ssid_def)

lemma wanted_ok: "wifi_config_ok c \<Longrightarrow> wanted uname busy c op = Some c' \<Longrightarrow> wifi_config_ok c'"
proof (cases op)
  case (SetApPass pass)
  then show "wifi_config_ok c \<Longrightarrow> wanted uname busy c op = Some c' \<Longrightarrow> wifi_config_ok c'"
    by (auto simp: config_ok_fits split: if_splits)
next
  case SwitchToAp
  then show "wifi_config_ok c \<Longrightarrow> wanted uname busy c op = Some c' \<Longrightarrow> wifi_config_ok c'"
    by (auto simp: config_ok_fits voyager_fits)
qed (auto intro: joined_ok split: if_splits)

lemma fallback_ssid_eq: "fallback_ap_ssid uname = (if fits_ssid uname then uname else ''Voyager'')"
  by (auto simp: fallback_ap_ssid_def valid_fits copy_str_def fits_ssid_def WIFI_DEFAULT_AP_SSID_def)

lemma pass_fits: "wifi_valid_sta_pass (Some (case pass of None \<Rightarrow> [] | Some p \<Rightarrow> p)) = fits_pass pass"
  by (cases pass) (auto simp: valid_fits fits_pass_def)

lemma ssid_fits: "wifi_valid_ssid ssid \<longleftrightarrow> ssid \<noteq> None \<and> fits_ssid (the ssid)"
  by (cases ssid) (simp_all add: valid_fits valid_none)

lemma setting_fits: "wifi_valid_ap_pass_setting pass \<longleftrightarrow> pass \<noteq> None \<and> (the pass = [] \<or> fits_key (the pass))"
  by (cases pass) (simp_all add: wifi_valid_ap_pass_setting_def valid_fits)

lemmas settings_fit = pass_fits ssid_fits setting_fits fallback_ssid_eq

lemma browser_wanted:
  assumes "calm (set_me e) l" "opens (set_fs e 0)" "opens (set_fs e 1)" "\<not> is_provision op"
  shows "case wanted (set_uname e) busy (next_boot J (set_me e) (l, fs)) op of
      None \<Rightarrow> \<exists>a. run_setting J e (l, fs) w op = ((l, fs), w, False, [WAlert a])
    | Some c \<Rightarrow> run_setting J e (l, fs) w op = write_config_and_restart J e (l, fs) w c"
  using assms
  by (cases op) (auto simp: wifi_save_sta_def wifi_switch_to_ap_def wifi_set_ap_pass_def load_calm settings_fit joined_def Let_def)

text \<open>What one operation does, whichever it is.\<close>

definition op_outcome ::
  "'v json_api \<Rightarrow> set_env \<Rightarrow> setting_op \<Rightarrow> FsLock \<times> files \<Rightarrow> WifiState \<Rightarrow> FsLock \<times> files \<Rightarrow> WifiState \<Rightarrow> bool \<Rightarrow> wifi_event list \<Rightarrow> bool" where
  "op_outcome J e op st w st' w' ok evs =
     (let c = next_boot J (set_me e) st in
      fst st' = fst st \<and>
      (case wanted (set_uname e) (g_provisioning w) c op of
         None \<Rightarrow> \<not> ok \<and> snd st' = snd st \<and> restarts evs = 0 \<and> g_provisioning w' = g_provisioning w
           \<and> g_restart_scheduled w' = g_restart_scheduled w
       | Some d \<Rightarrow> next_boot J (set_me e) st' = (if ok then d else c)
           \<and> restarts evs = (if (ok \<or> is_provision op) \<and> \<not> g_restart_scheduled w \<and> set_task e then 1 else 0)
           \<and> g_restart_scheduled w' = (g_restart_scheduled w \<or> restarts evs = 1)
           \<and> g_provisioning w' = (g_provisioning w \<or> is_provision op)))"

lemma restarts_append [simp]: "restarts (xs @ ys) = restarts xs + restarts ys"
  by (simp add: restarts_def)

lemma provision_outcome:
  assumes "calm (set_me e) l" "opens (set_fs e 0)" "opens (set_fs e 1)"
    and json: "\<And>c. wanted (set_uname e) (g_provisioning w) (next_boot J (set_me e) (l, fs)) (Provision prev ip ssid pass) = Some c
      \<Longrightarrow> settings_json J c"
    and run: "run_setting J e (l, fs) w (Provision prev ip ssid pass) = ((l', fs'), w', ok, evs)"
  shows "op_outcome J e (Provision prev ip ssid pass) (l, fs) w (l', fs') w' ok evs"
proof -
  let ?op = "Provision prev ip ssid pass"
  let ?old = "next_boot J (set_me e) (l, fs)"
  let ?c = "joined ?old (the ssid) pass"
  have url: "wifi_sta_url ip = [] \<longleftrightarrow> ip = None \<or> ip = Some ''0.0.0.0''" by (cases ip) (simp_all add: wifi_sta_url_def)
  show ?thesis
  proof (cases "wanted (set_uname e) (g_provisioning w) ?old ?op")
    case None
    with run url show ?thesis
      by (auto simp: op_outcome_def wifi_improv_provision_def settings_fit Let_def restarts_def wifi_apply_no_sleep_def
          split: if_splits)
  next
    case (Some c)
    then have cond: "\<not> g_provisioning w" "wifi_sta_url ip \<noteq> []" "wifi_valid_ssid ssid" "fits_pass pass" "c = ?c"
      by (auto simp: url settings_fit split: if_splits)
    have cok: "wifi_config_ok ?c" using wanted_ok [OF next_boot_ok [OF assms(1), of J fs] Some] cond(5) by simp
    obtain l1 fs1 k where wr: "write_file_atomic (set_fs e 2) (set_me e) (l, fs) (Some WIFI_CONFIG_PATH)
        (wifi_serialize_config J ?c) = ((l1, fs1), k)" by (metis surj_pair)
    note any = calm_write_any [OF assms(1) wr]
    have r: "l' = l1" "fs' = fs1" "ok = k" "g_provisioning w'"
      "restarts evs = (if \<not> g_restart_scheduled w \<and> set_task e then 1 else 0)"
      "g_restart_scheduled w' = (g_restart_scheduled w \<or> restarts evs = 1)"
      using run cond wr
      by (auto simp: wifi_improv_provision_def load_calm [OF assms(1-3)] pass_fits joined_def schedule_restart_def
          restarts_def wifi_apply_no_sleep_def Let_def split: if_splits)
    have "next_boot J (set_me e) (l', fs') = ?c" if ok
      using load_serialized [of "set_me e" l' J ?c fs'] assms(1) json [OF Some] cond(5) cok any r that by simp
    moreover have "next_boot J (set_me e) (l', fs') = ?old" if "\<not> ok"
      using load_texts [of "set_me e" l' l fs' fs] assms(1) any r that by (simp add: setting_text_def)
    ultimately show ?thesis using any r Some cond by (simp add: op_outcome_def Let_def)
  qed
qed

lemma setting_outcome:
  assumes "calm (set_me e) l" "opens (set_fs e 0)" "opens (set_fs e 1)"
    and json: "\<And>c. wanted (set_uname e) (g_provisioning w) (next_boot J (set_me e) (l, fs)) op = Some c \<Longrightarrow> settings_json J c"
    and run: "run_setting J e (l, fs) w op = ((l', fs'), w', ok, evs)"
  shows "op_outcome J e op (l, fs) w (l', fs') w' ok evs"
proof (cases "is_provision op")
  case True
  then obtain prev ip ssid pass where "op = Provision prev ip ssid pass" by (cases op) auto
  with provision_outcome [OF assms(1-3)] json run show ?thesis by blast
next
  case False
  note b = browser_wanted [OF assms(1-3) False, where busy = "g_provisioning w" and J = J and fs = fs and w = w]
  show ?thesis
  proof (cases "wanted (set_uname e) (g_provisioning w) (next_boot J (set_me e) (l, fs)) op")
    case None
    with b run show ?thesis by (auto simp: op_outcome_def restarts_def Let_def)
  next
    case (Some c)
    with b run have wr: "write_config_and_restart J e (l, fs) w c = ((l', fs'), w', ok, evs)" by simp
    then have "g_provisioning w' = g_provisioning w"
      by (auto simp: write_config_and_restart_def schedule_restart_def Let_def split: prod.splits if_splits)
    with write_config_outcome [OF assms(1) json [OF Some] wanted_ok [OF next_boot_ok [OF assms(1)] Some] wr] Some False
    show ?thesis unfolding op_outcome_def Let_def Some option.case by (elim conjE) simp
  qed
qed

lemma wanted_busy: "wanted uname busy c op = Some d \<Longrightarrow> wanted uname False c op = Some d"
  by (cases op) (auto split: if_splits)

lemma next_boot_task: "calm me l \<Longrightarrow> next_boot J me (l, fs) = next_boot J me' (l, fs)"
  by (simp add: next_boot_def wifi_load_config_def get_setting_calm calm_def split_beta Let_def)

text \<open>
  C27 (wifi_settings_saved). Any sequence of the operations that change the WiFi settings during one boot (\<open>wifi_save_sta\<close>,
  \<open>wifi_switch_to_ap\<close>, \<open>wifi_set_ap_pass\<close>, \<open>wifi_improv_provision\<close>). An operation with an SSID or password
  outside the rules (1 to 32 bytes; empty or 8 to 63 printable characters), or a setup over USB
  that is refused or does not reach the network, reports failure and changes nothing. Every
  other operation reports whether the settings were written, and the next start of the board
  finds exactly what the successful operations asked for, one after the other, the other
  settings as they were. In the whole boot at most one restart is scheduled, however many
  operations ask for one, and exactly one when some operation that saved (or a setup over USB
  that reached the network) could create the restart task.\<close>

theorem wifi_settings_saved:
  assumes "\<forall>(e, op) \<in> set ops. calm (set_me e) l \<and> opens (set_fs e 0) \<and> opens (set_fs e 1)"
    and "\<forall>c \<in> set (requests ops (next_boot J me (l, fs))). settings_json J c"
    and "calm me l" and "\<not> g_restart_scheduled w" and "\<not> g_provisioning w"
    and "run_settings J ops (l, fs) w = ((l', fs'), w', oks, evs)"
  shows "l' = l \<and> length oks = length ops \<and>
    (\<exists>c restart. settings_spec (map (\<lambda>((e, op), ok). (e, op, ok)) (zip ops oks)) (next_boot J me (l, fs)) False False
        = Some (c, restart) \<and>
       next_boot J me (l', fs') = c \<and> restarts evs = (if restart then 1 else 0))"
proof -
  have "l' = l \<and> length oks = length ops \<and>
    (\<exists>c restart. settings_spec (map (\<lambda>((e, op), ok). (e, op, ok)) (zip ops oks)) (next_boot J me (l, fs)) (g_provisioning w)
        (g_restart_scheduled w) = Some (c, restart) \<and>
       next_boot J me (l', fs') = c \<and> restarts evs + (if g_restart_scheduled w then 1 else 0) = (if restart then 1 else 0))"
    using assms(1,2,6)
  proof (induction ops arbitrary: fs w fs' oks evs)
    case Nil
    then show ?case by (simp add: restarts_def)
  next
    case (Cons x ops)
    obtain e op where x: "x = (e, op)" by (cases x)
    obtain l1 fs1 w1 ok evs1 where r1: "run_setting J e (l, fs) w op = ((l1, fs1), w1, ok, evs1)" by (metis surj_pair)
    obtain l2 fs2 w2 oks2 evs2 where r2: "run_settings J ops (l1, fs1) w1 = ((l2, fs2), w2, oks2, evs2)" by (metis surj_pair)
    from Cons.prems(3) r1 r2 have eq: "l' = l2" "fs' = fs2" "oks = ok # oks2" "evs = evs1 @ evs2" "w' = w2"
      by (simp_all add: x)
    have calm: "calm (set_me e) l" "opens (set_fs e 0)" "opens (set_fs e 1)" using Cons.prems(1) by (auto simp: x)
    note me = next_boot_task [OF assms(3), where me' = "set_me e" and J = J]
    have json: "settings_json J c" if "wanted (set_uname e) (g_provisioning w) (next_boot J (set_me e) (l, fs)) op = Some c" for c
      using Cons.prems(2) wanted_busy [OF that] by (simp add: x me)
    from setting_outcome [OF calm json r1] have o1: "op_outcome J e op (l, fs) w (l1, fs1) w1 ok evs1" by blast
    then have l1: "l1 = l" by (simp add: op_outcome_def Let_def)
    show ?case
    proof (cases "wanted (set_uname e) (g_provisioning w) (next_boot J me (l, fs)) op")
      case None
      with o1 have n: "\<not> ok" "fs1 = fs" "restarts evs1 = 0" "g_provisioning w1 = g_provisioning w"
        "g_restart_scheduled w1 = g_restart_scheduled w" by (auto simp: op_outcome_def me Let_def)
      have "set (requests ops (next_boot J me (l, fs))) \<subseteq> set (requests (x # ops) (next_boot J me (l, fs)))"
        by (auto simp: x split: option.splits)
      with Cons.prems(1,2) have pre: "\<forall>(e, op) \<in> set ops. calm (set_me e) l \<and> opens (set_fs e 0) \<and> opens (set_fs e 1)"
        "\<forall>c \<in> set (requests ops (next_boot J me (l, fs))). settings_json J c" by auto
      from Cons.IH [OF pre, of w1 fs2 oks2 evs2] r2 obtain c restart where ih: "l2 = l" "length oks2 = length ops"
        "settings_spec (map (\<lambda>((e, op), ok). (e, op, ok)) (zip ops oks2)) (next_boot J me (l, fs))
              (g_provisioning w) (g_restart_scheduled w) = Some (c, restart)"
        "next_boot J me (l2, fs2) = c" "restarts evs2 + (if g_restart_scheduled w then 1 else 0) = (if restart then 1 else 0)"
        unfolding eq(1,5) l1 n by blast
      have spec: "settings_spec (map (\<lambda>((e, op), ok). (e, op, ok)) (zip (x # ops) oks)) (next_boot J me (l, fs))
          (g_provisioning w) (g_restart_scheduled w) = Some (c, restart)"
        using ih(3) n(1) by (simp add: x eq(3) None)
      with ih n(3) show ?thesis by (simp add: eq)
    next
      case (Some d)
      with o1 have s: "next_boot J me (l, fs1) = (if ok then d else next_boot J me (l, fs))"
        "restarts evs1 = (if (ok \<or> is_provision op) \<and> \<not> g_restart_scheduled w \<and> set_task e then 1 else 0)"
        "g_restart_scheduled w1 = (g_restart_scheduled w \<or> restarts evs1 = 1)"
        "g_provisioning w1 = (g_provisioning w \<or> is_provision op)"
        by (auto simp: op_outcome_def me l1 Let_def)
      have "set (requests ops (next_boot J me (l, fs1))) \<subseteq> set (requests (x # ops) (next_boot J me (l, fs)))"
        using wanted_busy [OF Some] by (auto simp: x s(1))
      with Cons.prems(1,2) have pre: "\<forall>(e, op) \<in> set ops. calm (set_me e) l \<and> opens (set_fs e 0) \<and> opens (set_fs e 1)"
        "\<forall>c \<in> set (requests ops (next_boot J me (l, fs1))). settings_json J c" by auto
      from Cons.IH [OF pre, of w1 fs2 oks2 evs2] r2 obtain c restart where ih: "l2 = l" "length oks2 = length ops"
        "settings_spec (map (\<lambda>((e, op), ok). (e, op, ok)) (zip ops oks2)) (next_boot J me (l, fs1))
              (g_provisioning w1) (g_restart_scheduled w1) = Some (c, restart)"
        "next_boot J me (l2, fs2) = c" "restarts evs2 + (if g_restart_scheduled w1 then 1 else 0) = (if restart then 1 else 0)"
        unfolding eq(1,5) l1 by blast
      have sch: "g_restart_scheduled w1 = (g_restart_scheduled w \<or> (ok \<or> is_provision op) \<and> set_task e)"
        using s(2,3) by (auto split: if_splits)
      have spec: "settings_spec (map (\<lambda>((e, op), ok). (e, op, ok)) (zip (x # ops) oks)) (next_boot J me (l, fs))
          (g_provisioning w) (g_restart_scheduled w) = Some (c, restart)"
        using ih(3) by (simp add: x eq(3) Some s(1,4) sch)
      have "restarts evs + (if g_restart_scheduled w then 1 else 0) = (if restart then 1 else 0)"
        using ih(5) s(2) sch by (auto simp: eq(4) split: if_splits)
      with spec ih show ?thesis by (simp add: eq)
    qed
  qed
  moreover have "g_restart_scheduled w = False" "g_provisioning w = False" using assms(4,5) by simp_all
  ultimately show ?thesis by (elim conjE, intro conjI) (simp only: if_False add_0_right)+
qed

text \<open>Saving a network on a board without settings.\<close>

definition sample_set_env :: set_env where
  "sample_set_env = \<lparr>set_fs = (\<lambda>_. good_moment\<lparr>ev_written := 3\<rparr>), set_me = 2, set_task = True, set_uname = []\<rparr>"

definition sample_wifi_json :: "jscalar json_api" where
  "sample_wifi_json = toy_json [(''cfg'', STable [(''wifi_function'', SStr ''STA''), (''wifi_ssid'', SStr ''Home''),
     (''wifi_pass'', SStr ''password1''), (''ap_pass'', SStr [])])] (\<lambda>d. ''cfg'')"

definition sample_lock :: FsLock where
  "sample_lock = \<lparr>fs_mounted = True, fs_mutex = Some None\<rparr>"

lemma sample_next_boot: "next_boot sample_wifi_json 2 (sample_lock, Map.empty) = WifiConfig_init"
  by (simp add: next_boot_def wifi_load_config_def get_setting_calm calm_def sample_lock_def setting_text_def
      wifi_parse_config_def)

definition sample_ops :: "(set_env \<times> setting_op) list" where
  "sample_ops = [(sample_set_env, SaveSta (Some ''Home'') (Some ''password1'')), (sample_set_env, SetApPass (Some ''short'')),
     (sample_set_env, SaveSta (Some ''Home'') (Some ''password1''))]"

theorem wifi_settings_saved_witness:
  "case run_settings sample_wifi_json sample_ops (sample_lock, Map.empty) WifiState_init of
     (st, w, oks, evs) \<Rightarrow> hd oks \<and> \<not> oks ! 1 \<and> w_ssid (next_boot sample_wifi_json 2 st) = ''Home'' \<and> restarts evs = 1"
proof -
  let ?op = "SaveSta (Some ''Home'') (Some ''password1'')"
  let ?c = "WifiConfig_init\<lparr>w_mode := WIFI_CFG_STA, w_ssid := ''Home'', w_pass := ''password1''\<rparr>"
  have calm: "calm (set_me sample_set_env) sample_lock" "opens (set_fs sample_set_env 0)" "opens (set_fs sample_set_env 1)"
    "calm 2 sample_lock"
    by (simp_all add: calm_def sample_lock_def sample_set_env_def opens_def good_moment_def)
  have want: "fits_ssid ''Home''" "fits_pass (Some ''password1'')" "\<not> fits_key ''short''"
    "joined WifiConfig_init ''Home'' (Some ''password1'') = ?c" "joined ?c ''Home'' (Some ''password1'') = ?c"
    by (simp_all add: joined_def fits_ssid_def fits_pass_def fits_key_def WifiConfig_init_def)
  have json: "settings_json sample_wifi_json ?c"
    by (simp add: settings_json_def json_reads_texts_def wifi_members_def wifi_serialize_config_def sample_wifi_json_def
        toy_json_def WifiConfig_init_def)
  have req: "set (requests sample_ops (next_boot sample_wifi_json 2 (sample_lock, Map.empty))) = {?c}"
    by (simp add: sample_ops_def sample_next_boot want)
  obtain st' w' ok evs1 where r1: "run_setting sample_wifi_json sample_set_env (sample_lock, Map.empty) WifiState_init ?op =
      (st', w', ok, evs1)" by (metis surj_pair)
  have ok: "ok"
  proof -
    have "write_file_atomic (set_fs sample_set_env 2) (set_me sample_set_env) (sample_lock, Map.empty) (Some WIFI_CONFIG_PATH)
        (wifi_serialize_config sample_wifi_json ?c) = ((sample_lock, stored WIFI_CONFIG_PATH ''cfg'' Map.empty), True)"
      using calm_write [of "set_me sample_set_env" sample_lock "set_fs sample_set_env 2" "''cfg''" Map.empty WIFI_CONFIG_PATH] calm(1)
      by (simp add: works_def opens_def sample_set_env_def good_moment_def wifi_serialize_config_def sample_wifi_json_def toy_json_def)
    moreover have "next_boot sample_wifi_json (set_me sample_set_env) (sample_lock, Map.empty) = WifiConfig_init"
      by (simp add: sample_set_env_def sample_next_boot)
    ultimately show ?thesis using r1 browser_wanted [OF calm(1-3), where J = sample_wifi_json and fs = Map.empty and op = ?op
        and w = WifiState_init and busy = False] want
      by (auto simp: write_config_and_restart_def Let_def split: prod.splits)
  qed
  obtain l' fs' w'' oks evs where r: "run_settings sample_wifi_json sample_ops (sample_lock, Map.empty) WifiState_init =
      ((l', fs'), w'', oks, evs)" by (metis surj_pair)
  from wifi_settings_saved [OF _ _ calm(4) _ _ r] calm req json obtain c restart where len: "length oks = 3" and
    spec: "settings_spec (map (\<lambda>((e, op), ok). (e, op, ok)) (zip sample_ops oks)) WifiConfig_init False False = Some (c, restart)"
    "next_boot sample_wifi_json 2 (l', fs') = c" "restarts evs = (if restart then 1 else 0)"
    by (auto simp: sample_ops_def sample_next_boot WifiState_init_def)
  obtain b1 b2 b3 where oks: "oks = [b1, b2, b3]" using len by (auto simp: numeral_3_eq_3 length_Suc_conv)
  have "b1" using r r1 ok by (auto simp: sample_ops_def oks split: prod.splits)
  with spec(1) have "\<not> b2" "c = ?c" "restart"
    by (auto simp: oks sample_ops_def want sample_set_env_def split: if_splits)
  with \<open>b1\<close> spec show ?thesis by (simp add: r oks)
qed

section \<open>The access point is always protected\<close>

lemma hex_upper_printable: "byte_of (hex_upper n) \<ge> 0x30 \<and> byte_of (hex_upper n) \<le> 0x46"
proof -
  have "unat (n AND 0x0F) \<in> {0..<16}" using word_and_le1 [of n "0x0F"] by (simp add: word_le_nat_alt)
  moreover have "\<forall>i \<in> {0..<16}. byte_of (''0123456789ABCDEF'' ! i) \<ge> 0x30 \<and> byte_of (''0123456789ABCDEF'' ! i) \<le> 0x46"
    by (simp add: atLeastLessThan_nat_numeral byte_of_def)
  ultimately show ?thesis unfolding hex_upper_def by blast
qed

lemma derived_pass_ok: "wifi_valid_ap_pass (Some (wifi_default_ap_pass mac))"
proof -
  have "\<not> (byte_of (hex_upper n) < 0x20 \<or> byte_of (hex_upper n) > 0x7E)" for n
    using hex_upper_printable [of n] by (simp add: word_less_nat_alt word_le_nat_alt)
  then show ?thesis
    by (simp add: wifi_valid_ap_pass_def wifi_default_ap_pass_def wifi_derive_ap_pass_def hex_byte_def
        wifi_printable_ascii_def upt_rec)
qed

text \<open>
  Whatever name, password and channel the access point is asked for (\<open>setup_ap\<close>), every access point the
  radio is told to start has a printable name of 1 to 32 bytes, a WPA2 password of 8 to 63 printable
  characters and a channel from 1 to 13: there is no open access point, also not when the
  first try fails.
\<close>

lemma ap_always_protected:
  "list_all (\<lambda>ev. case ev of
       WSoftAp ssid pass ch \<Rightarrow> wifi_valid_ssid (Some ssid) \<and> wifi_valid_ap_pass (Some pass) \<and> 1 \<le> ch \<and> ch \<le> 13
     | _ \<Rightarrow> True) (snd (setup_ap mac started w ssid pass channel))"
  using derived_pass_ok [of mac]
  by (cases ssid; cases pass) (auto simp: setup_ap_def valid_some Let_def split: if_splits)

section \<open>Scans and busy channels\<close>

text \<open>The retry of a busy channel is made, but its results are not used: the outcome of a scan does not depend on them.\<close>

lemma scan_retry_unused:
  assumes "\<And>ch. ch_locked (a ch) = ch_locked (b ch) \<and> ch_first (a ch) = ch_first (b ch)"
  shows "scan_channels ssid home on_hit a s = scan_channels ssid home on_hit b s"
proof -
  have "scan_channel ssid home on_hit ch (a ch) = scan_channel ssid home on_hit ch (b ch)" for ch
    using assms [of ch] by (simp add: scan_channel_def fun_eq_iff)
  then show ?thesis by (simp add: scan_channels_def)
qed

section \<open>Setup over USB\<close>

text \<open>Provisioning saves the network exactly when it was reached and could be written, then restarts once; when it fails it
  leaves the settings, and gives the station back to the monitor.\<close>

lemma improv_provision_outcome:
  assumes "calm (set_me e) l" "opens (set_fs e 0)" "opens (set_fs e 1)" "\<not> g_provisioning w"
    and "settings_json J ((next_boot J (set_me e) (l, fs))\<lparr>w_mode := WIFI_CFG_STA, w_ssid := the ssid,
      w_pass := (case pass of None \<Rightarrow> [] | Some p \<Rightarrow> p)\<rparr>)"
    and "wifi_valid_ssid ssid" "wifi_valid_sta_pass (Some (case pass of None \<Rightarrow> [] | Some p \<Rightarrow> p))"
    and "wifi_improv_provision J e prev ip (l, fs) w ssid pass = ((l', fs'), w', ok, url, evs)"
  shows "if wifi_sta_url ip = [] then (l', fs') = (l, fs) \<and> \<not> ok \<and> url = [] \<and> \<not> g_provisioning w' \<and> restarts evs = 0
    else l' = l \<and> g_provisioning w' \<and> url = (if ok then wifi_sta_url ip else [])
      \<and> next_boot J (set_me e) (l', fs') =
          (if ok then (next_boot J (set_me e) (l, fs))\<lparr>w_mode := WIFI_CFG_STA, w_ssid := the ssid,
             w_pass := (case pass of None \<Rightarrow> [] | Some p \<Rightarrow> p)\<rparr> else next_boot J (set_me e) (l, fs))"
proof -
  let ?p = "case pass of None \<Rightarrow> [] | Some p \<Rightarrow> p"
  let ?old = "next_boot J (set_me e) (l, fs)"
  let ?c = "?old\<lparr>w_mode := WIFI_CFG_STA, w_ssid := the ssid, w_pass := ?p\<rparr>"
  have c: "wifi_config_ok ?c"
    using wanted_ok [OF next_boot_ok [OF assms(1), of J fs], of "[]" False "SaveSta ssid pass" ?c] assms(6,7)
    by (simp add: settings_fit joined_def)
  show ?thesis
  proof (cases "wifi_sta_url ip = []")
    case True
    then show ?thesis using assms
      by (auto simp: wifi_improv_provision_def Let_def restarts_def wifi_apply_no_sleep_def split: if_splits)
  next
    case False
    obtain l1 fs1 k where wr: "write_file_atomic (set_fs e 2) (set_me e) (l, fs) (Some WIFI_CONFIG_PATH)
        (wifi_serialize_config J ?c) = ((l1, fs1), k)" by (metis surj_pair)
    note any = calm_write_any [OF assms(1) wr]
    have r: "l' = l1" "fs' = fs1" "ok = k" "url = (if ok then wifi_sta_url ip else [])" "g_provisioning w'"
      using assms(4,6-8) False
      by (auto simp: wifi_improv_provision_def load_calm [OF assms(1-3)] wr schedule_restart_def Let_def split: if_splits)
    have "next_boot J (set_me e) (l', fs') = ?c" if ok
      using load_serialized [of "set_me e" l' J ?c fs'] assms(1,5) c any r that by simp
    moreover have "next_boot J (set_me e) (l', fs') = ?old" if "\<not> ok"
      using load_texts [of "set_me e" l' l fs' fs] assms(1) any r that by (simp add: setting_text_def)
    ultimately show ?thesis using False any r by simp
  qed
qed

section \<open>The list for the web flasher\<close>

definition nets_ok :: "nat \<Rightarrow> WifiNet list \<Rightarrow> bool" where
  "nets_ok mx out \<longleftrightarrow> (let names = map n_ssid out in
     distinct names \<and> length names \<le> mx \<and> (\<forall>s \<in> set names. s \<noteq> [] \<and> length s \<le> 32))"

lemma improv_hit_ok: "nets_ok mx out \<Longrightarrow> nets_ok mx (improv_hit mx hit out)"
proof -
  assume ok: "nets_ok mx out"
  obtain s r c where hit: "hit = (s, r, c)" by (metis prod_cases3)
  show ?thesis
  proof (cases "find_idx (\<lambda>n. n_ssid n = s) out")
    case None
    then have "s \<notin> n_ssid ` set out" by (auto simp: find_idx_None)
    then show ?thesis using ok None by (auto simp: improv_hit_def hit nets_ok_def copy_str_def)
  next
    case (Some j)
    have m: "map n_ssid (out[j := (out ! j)\<lparr>n_rssi := a, n_secure := b\<rparr>]) = map n_ssid out" if "j < length out" for a b
      using that by (simp add: map_update list_update_same_conv)
    have "j < length out" using find_idx_SomeD [OF Some] by simp
    then have "nets_ok mx (out[j := (out ! j)\<lparr>n_rssi := a, n_secure := b\<rparr>])" for a b
      using ok unfolding nets_ok_def m [OF \<open>j < length out\<close>] by blast
    then show ?thesis using ok Some by (simp add: improv_hit_def hit)
  qed
qed

text \<open>Each network once, at most \<open>mx\<close> of them, the strongest first.\<close>

lemma improv_scan_list:
  assumes "wifi_improv_scan locked prev hits mx w = (w', out, evs)"
  shows "nets_ok mx out \<and> sorted_wrt (\<lambda>a b. n_rssi a \<ge> n_rssi b) out"
proof -
  have f: "nets_ok mx (fold (improv_hit mx) hits out)" if "nets_ok mx out" for out
    using that by (induction hits arbitrary: out) (simp_all add: improv_hit_ok)
  have e: "nets_ok mx []" by (simp add: nets_ok_def)
  let ?o = "fold (improv_hit mx) hits []"
  have "nets_ok mx (sort_key (\<lambda>n. - n_rssi n) ?o)"
    using f [OF e] by (simp add: nets_ok_def distinct_map)
  moreover have "sorted_wrt (\<lambda>a b. n_rssi a \<ge> n_rssi b) (sort_key (\<lambda>n. - n_rssi n) ?o)"
    using sorted_sort_key [of "\<lambda>n. - n_rssi n" ?o] by (simp add: sorted_map)
  moreover have "out = sort_key (\<lambda>n. - n_rssi n) ?o \<or> out = []"
    using assms unfolding wifi_improv_scan_def insertion_sort_key Let_def by (auto split: if_splits)
  ultimately show ?thesis using e by auto
qed

end
