(* ===== verification/Wifi_Monitor.thy ===== *)
theory Wifi_Monitor
  imports Wifi_Support
begin

text \<open>
  The monitor task of the WiFi component (\<open>wifi_monitor\<close> of
  \<open>src/src/wifi/wifi_support.cpp\<close>), one turn at a time: when it connects, retries, roams and
  runs the fallback access point.  What the driver reports in a turn is the environment
  \<open>mon_env\<close>.
\<close>

section \<open>The monitor\<close>

record MonState =
  m_backoff :: u32
  m_was_up :: bool
  m_retry_now :: bool
  m_down_since :: u32
  m_last_attempt :: u32
  m_up_since :: u32
  m_last_roam_check :: u32
  m_seen_disc :: u32
  m_avoid :: "bytes option"

definition MonState_init :: "u32 \<Rightarrow> MonState" where
  "MonState_init now = \<lparr>m_backoff = WIFI_BACKOFF_MIN_MS, m_was_up = False, m_retry_now = True, m_down_since = now,
     m_last_attempt = now, m_up_since = now, m_last_roam_check = now, m_seen_disc = 0, m_avoid = None\<rparr>"

text \<open>What the monitor sees in one turn.\<close>

record mon_env =
  t_now :: u32
  t_connected :: bool
  t_rssi :: int
  t_lora_serial :: bool
  t_roam_scan :: "int \<Rightarrow> chan_answer"
  t_roam_end :: u32
  t_roam_others :: "other_step list"
  t_still_connected :: bool
  t_rssi2 :: int
  t_bssid :: "bytes option"
  t_roam_begin :: u32
  t_ap :: ap_env
  t_connect :: connect_env
  t_attempt_end :: u32

definition mon_disconnects :: "WifiState \<Rightarrow> MonState \<Rightarrow> MonState" where
  "mon_disconnects w m =
     (if g_disc_count w \<noteq> m_seen_disc m then
        (if wifi_classify_reason (g_disc_reason w) = WIFI_DISC_BAD_AP \<and> g_disc_bssid w \<noteq> replicate 6 0
         then m\<lparr>m_avoid := Some (g_disc_bssid w)\<rparr> else m)\<lparr>m_seen_disc := g_disc_count w\<rparr>
      else m)"

definition mon_roam :: "mon_env \<Rightarrow> WifiState \<Rightarrow> MonState \<Rightarrow> MonState \<times> WifiState \<times> wifi_event list" where
  "mon_roam e w m =
     (if \<not> g_fallback_ap w \<and> \<not> t_lora_serial e \<and> \<not> g_scan_running w
         \<and> wifi_roam_check_due (t_rssi e) (t_now e - m_up_since m) (t_now e - m_last_roam_check m) then
        let (sel, ok, evs) = scan_channels (Some (g_sta_ssid w)) WIFI_SCAN_HOME_MS (wifi_hit w) (t_roam_scan e) WifiApSelector_init;
            w = meanwhile (t_roam_others e) w;
            m = m\<lparr>m_last_roam_check := t_roam_end e\<rparr>;
            cur = (case t_bssid e of None \<Rightarrow> replicate 6 0 | Some b \<Rightarrow> take 6 b) in
        if t_still_connected e \<and> wifi_should_roam (t_rssi2 e) (s_any sel) (Some cur) WIFI_ROAM_MIN_GAIN_DB then
          let (w, evs2) = sta_begin_pinned (t_roam_begin e) w (s_any sel) in (m, w, evs @ evs2)
        else (m, w, evs)
      else (m, w, []))"

definition mon_up :: "mon_env \<Rightarrow> WifiState \<Rightarrow> MonState \<Rightarrow> MonState \<times> WifiState \<times> wifi_event list" where
  "mon_up e w m =
     (let (m, evs0) = (if \<not> m_was_up m then (m\<lparr>m_up_since := t_now e, m_last_roam_check := t_now e, m_avoid := None\<rparr>, [WMdns])
                       else (m, []));
          m = m\<lparr>m_was_up := True, m_backoff := WIFI_BACKOFF_MIN_MS\<rparr>;
          (w, evs1) = (if g_fallback_ap w \<and> t_now e - m_up_since m \<ge> WIFI_FALLBACK_STOP_MS then stop_fallback_ap w else (w, []));
          (m, w, evs2) = mon_roam e w m
      in (m, w, evs0 @ evs1 @ evs2))"

definition attempt_live :: "u32 \<Rightarrow> WifiState \<Rightarrow> bool" where
  "attempt_live now w \<longleftrightarrow> g_attempt_active w \<and> now - g_attempt_start w < WIFI_ATTEMPT_TIMEOUT_MS"

definition mon_down :: "mon_env \<Rightarrow> WifiState \<Rightarrow> MonState \<Rightarrow> MonState \<times> WifiState \<times> wifi_event list" where
  "mon_down e w m =
     (let now = t_now e;
          m = (if m_was_up m then m\<lparr>m_was_up := False, m_down_since := now, m_backoff := WIFI_BACKOFF_MIN_MS, m_retry_now := True\<rparr>
               else m);
          live = attempt_live now w;
          (w, evs1) = (if \<not> g_fallback_ap w \<and> \<not> live \<and> now - m_down_since m \<ge> word_of_int WIFI_STA_CONNECT_TIMEOUT_S * 1000
                       then start_fallback_ap (t_ap e) w else (w, [])) in
      if \<not> live \<and> (m_retry_now m \<or> now - m_last_attempt m \<ge> m_backoff m) then
        let m = (if \<not> m_retry_now m then m\<lparr>m_backoff := wifi_next_backoff (m_backoff m)\<rparr> else m);
            (w, evs2) = sta_connect_best (t_connect e) w (m_avoid m)
        in (m\<lparr>m_retry_now := False, m_avoid := None, m_last_attempt := t_attempt_end e\<rparr>, w, evs1 @ evs2)
      else (m, w, evs1))"

definition wifi_monitor_step :: "mon_env \<Rightarrow> WifiState \<Rightarrow> MonState \<Rightarrow> MonState \<times> WifiState \<times> wifi_event list" where
  "wifi_monitor_step e w m =
     (if g_provisioning w then (m\<lparr>m_seen_disc := g_disc_count w, m_last_attempt := t_now e\<rparr>, w, [])
      else
        let m = mon_disconnects w m in
        if t_connected e then mon_up e w m else mon_down e w m)"

section \<open>What the monitor does to the link\<close>

text \<open>The events that disturb the radio link.\<close>

fun touches_link :: "wifi_event \<Rightarrow> bool" where
  "touches_link (WScan ch ssid) = True"
| "touches_link WScanAll = True"
| "touches_link (WBegin ssid pass ap) = True"
| "touches_link WDisconnect = True"
| "touches_link (WMode md) = True"
| "touches_link (WSoftAp ssid pass ch) = True"
| "touches_link ev = False"

lemma mon_disconnects_keeps [simp]:
  "m_backoff (mon_disconnects w m) = m_backoff m" "m_was_up (mon_disconnects w m) = m_was_up m"
  "m_retry_now (mon_disconnects w m) = m_retry_now m" "m_down_since (mon_disconnects w m) = m_down_since m"
  "m_last_attempt (mon_disconnects w m) = m_last_attempt m" "m_up_since (mon_disconnects w m) = m_up_since m"
  "m_last_roam_check (mon_disconnects w m) = m_last_roam_check m"
  by (simp_all add: mon_disconnects_def)

lemmas wifi_times =
  WIFI_ROAM_SETTLE_MS_def WIFI_ROAM_CHECK_MS_def WIFI_ROAM_SCAN_BELOW_DBM_def WIFI_FALLBACK_STOP_MS_def
  WIFI_BACKOFF_MIN_MS_def WIFI_BACKOFF_MAX_MS_def WIFI_STA_CONNECT_TIMEOUT_S_def WIFI_ATTEMPT_TIMEOUT_MS_def

text \<open>A scan uses the radio iff a channel's lock was had, and finds nothing without one.\<close>

lemma scan_fold:
  assumes "fold (\<lambda>ch. scan_channel ssid home f ch (a ch)) chs (s, n, evs) = (s', n', evs')"
  shows "(list_ex touches_link evs' \<longleftrightarrow> list_ex touches_link evs \<or> (\<exists>ch \<in> set chs. ch_locked (a ch)))
    \<and> ((\<forall>ch \<in> set chs. \<not> ch_locked (a ch)) \<longrightarrow> s' = s \<and> evs' = evs)"
  using assms
proof (induction chs arbitrary: s n evs)
  case (Cons ch chs)
  obtain s1 n1 evs1 where one: "scan_channel ssid home f ch (a ch) (s, n, evs) = (s1, n1, evs1)" by (metis prod_cases3)
  have "list_ex touches_link evs1 \<longleftrightarrow> list_ex touches_link evs \<or> ch_locked (a ch)"
    "\<not> ch_locked (a ch) \<Longrightarrow> s1 = s \<and> evs1 = evs"
    using one by (auto simp: scan_channel_def split: if_splits option.splits)
  with Cons.IH [of s1 n1 evs1] Cons.prems one show ?case by auto
qed simp

lemma scan_touches:
  assumes "scan_channels ssid home f a s = (s', n, evs)"
  shows "list_ex touches_link evs \<longleftrightarrow> (\<exists>ch \<in> {1..13}. ch_locked (a ch))"
    and "\<forall>ch \<in> {1..13}. \<not> ch_locked (a ch) \<Longrightarrow> s' = s \<and> evs = []"
  using scan_fold [OF assms [unfolded scan_channels_def]] by (simp_all add: WIFI_SCAN_CHANNELS_def)

text \<open>The roam check in full.\<close>

lemma roam_effect:
  assumes "mon_roam e w m = (m', w', evs)" "\<not> g_fallback_ap w"
  shows "let due = \<not> t_lora_serial e \<and> \<not> g_scan_running w \<and> t_rssi e \<le> - 50
        \<and> t_now e - m_up_since m \<ge> 60000 \<and> t_now e - m_last_roam_check m \<ge> 300000 in
    m_was_up m' = m_was_up m \<and> m_up_since m' = m_up_since m
    \<and> m_last_roam_check m' = (if due then t_roam_end e else m_last_roam_check m)
    \<and> (list_ex touches_link evs \<longleftrightarrow> due \<and> (\<exists>ch \<in> {1..13}. ch_locked (t_roam_scan e ch)))"
proof -
  obtain sel n evs1 where scan: "scan_channels (Some (g_sta_ssid w)) WIFI_SCAN_HOME_MS (wifi_hit w) (t_roam_scan e)
      WifiApSelector_init = (sel, n, evs1)" by (metis prod_cases3)
  have none: "\<not> wifi_should_roam r (s_any sel) c g" if "\<forall>ch \<in> {1..13}. \<not> ch_locked (t_roam_scan e ch)" for r c g
    using scan_touches(2) [OF scan that] by (simp add: wifi_should_roam_def WifiApSelector_init_def WifiApCandidate_init_def)
  show ?thesis
    using assms scan_touches(1) [OF scan] none
    by (auto simp: mon_roam_def scan Let_def wifi_roam_check_due_def wifi_times not_le sta_begin_pinned_def split: if_splits)
qed

lemma roam_busy: "g_fallback_ap w \<Longrightarrow> mon_roam e w m = (m, w, [])"
  by (simp add: mon_roam_def)

lemma roam_keeps_fallback: "mon_roam e w m = (m', w', evs) \<Longrightarrow> g_fallback_ap w' = g_fallback_ap w"
  by (auto simp: mon_roam_def sta_begin_pinned_def other_keeps Let_def split: if_splits prod.splits)

lemma stop_fallback_quiet:
  "\<not> list_ex touches_link (snd (stop_fallback_ap w))" "g_scan_running (fst (stop_fallback_ap w)) = g_scan_running w"
  by (simp_all add: stop_fallback_ap_def wifi_apply_no_sleep_def)

text \<open>A turn on a live link, in parts.\<close>

definition up_state :: "mon_env \<Rightarrow> MonState \<Rightarrow> MonState" where
  "up_state e m = (if \<not> m_was_up m then m\<lparr>m_up_since := t_now e, m_last_roam_check := t_now e, m_avoid := None\<rparr> else m)
     \<lparr>m_was_up := True, m_backoff := WIFI_BACKOFF_MIN_MS\<rparr>"

definition up_ap :: "mon_env \<Rightarrow> WifiState \<Rightarrow> MonState \<Rightarrow> WifiState \<times> wifi_event list" where
  "up_ap e w m = (if g_fallback_ap w \<and> t_now e - m_up_since (up_state e m) \<ge> WIFI_FALLBACK_STOP_MS
     then stop_fallback_ap w else (w, []))"

lemma mon_up_parts:
  "mon_up e w m = (case mon_roam e (fst (up_ap e w m)) (up_state e m) of
     (m', w', evs) \<Rightarrow> (m', w', (if \<not> m_was_up m then [WMdns] else []) @ snd (up_ap e w m) @ evs))"
  by (cases "m_was_up m") (simp_all add: mon_up_def up_ap_def up_state_def Let_def split_beta)

lemma mon_up_effect:
  assumes "mon_up e w m = (m', w', evs)"
  shows "let s = (if m_was_up m then m_up_since m else t_now e); c = (if m_was_up m then m_last_roam_check m else t_now e);
      due = \<not> t_lora_serial e \<and> \<not> g_scan_running w \<and> t_rssi e \<le> - 50 \<and> t_now e - s \<ge> 60000 \<and> t_now e - c \<ge> 300000 in
    m_was_up m' \<and> m_up_since m' = s \<and> m_last_roam_check m' = (if due then t_roam_end e else c)
    \<and> (list_ex touches_link evs \<longleftrightarrow> due \<and> (\<exists>ch \<in> {1..13}. ch_locked (t_roam_scan e ch)))
    \<and> (g_fallback_ap w' \<longleftrightarrow> g_fallback_ap w \<and> t_now e - s < 10000)"
proof -
  let ?w = "fst (up_ap e w m)" and ?m = "up_state e m"
  define s where "s = (if m_was_up m then m_up_since m else t_now e)"
  define c where "c = (if m_was_up m then m_last_roam_check m else t_now e)"
  define due where "due \<longleftrightarrow> \<not> t_lora_serial e \<and> \<not> g_scan_running w \<and> t_rssi e \<le> - 50 \<and> t_now e - s \<ge> 60000 \<and> t_now e - c \<ge> 300000"
  have m: "m_was_up ?m" "m_up_since ?m = s" "m_last_roam_check ?m = c"
    by (simp_all add: up_state_def s_def c_def)
  have w: "g_fallback_ap ?w \<longleftrightarrow> g_fallback_ap w \<and> t_now e - s < 10000" "g_scan_running ?w = g_scan_running w"
    "\<not> list_ex touches_link (snd (up_ap e w m))"
    using stop_fallback_quiet [of w]
    by (auto simp: up_ap_def m wifi_times not_le stop_fallback_ap_def wifi_apply_no_sleep_def)
  obtain evs2 where roam: "mon_roam e ?w ?m = (m', w', evs2)"
    and evs: "evs = (if \<not> m_was_up m then [WMdns] else []) @ snd (up_ap e w m) @ evs2"
    using assms by (auto simp: mon_up_parts split: prod.splits)
  have "m_was_up m' \<and> m_up_since m' = s \<and> m_last_roam_check m' = (if due then t_roam_end e else c)
    \<and> (list_ex touches_link evs2 \<longleftrightarrow> due \<and> (\<exists>ch \<in> {1..13}. ch_locked (t_roam_scan e ch)))"
  proof (cases "g_fallback_ap ?w")
    case True
    then have "\<not> due" using w(1) by (auto simp: due_def word_le_nat_alt word_less_nat_alt)
    then show ?thesis using roam roam_busy [OF True] m by auto
  next
    case False
    from roam_effect [OF roam False] show ?thesis by (simp add: m w(2) due_def Let_def)
  qed
  then show ?thesis
    using w(1,3) roam_keeps_fallback [OF roam] by (auto simp: evs Let_def s_def [symmetric] c_def [symmetric] due_def)
qed

lemma mon_down_live: "attempt_live (t_now e) w \<Longrightarrow> mon_down e w m = (m', w', evs) \<Longrightarrow> evs = [] \<and> w' = w"
  by (auto simp: mon_down_def Let_def split: if_splits)

lemma live_means: "attempt_live now w \<longleftrightarrow> g_attempt_active w \<and> now - g_attempt_start w < 15000"
  by (simp add: attempt_live_def wifi_times)

text \<open>A turn without a link, in parts.\<close>

definition attempted :: "wifi_event list \<Rightarrow> bool" where
  "attempted evs \<longleftrightarrow> list_ex (\<lambda>ev. case ev of WBegin ssid pass ap \<Rightarrow> True | _ \<Rightarrow> False) evs"

lemma attempted_append [simp]: "attempted (a @ b) \<longleftrightarrow> attempted a \<or> attempted b"
  by (simp add: attempted_def)

lemma connect_attempts: "attempted (snd (sta_connect_best e w avoid))"
  by (simp add: sta_connect_best_def sta_begin_pinned_def attempted_def Let_def split_beta)

lemma fallback_attempts: "\<not> attempted (snd (start_fallback_ap e w))"
  by (simp add: start_fallback_ap_def setup_ap_def wifi_apply_no_sleep_def attempted_def Let_def split_beta)

definition down_state :: "mon_env \<Rightarrow> MonState \<Rightarrow> MonState" where
  "down_state e m = (if m_was_up m
     then m\<lparr>m_was_up := False, m_down_since := t_now e, m_backoff := WIFI_BACKOFF_MIN_MS, m_retry_now := True\<rparr> else m)"

definition tries :: "mon_env \<Rightarrow> WifiState \<Rightarrow> MonState \<Rightarrow> bool" where
  "tries e w m \<longleftrightarrow> \<not> attempt_live (t_now e) w \<and> (m_retry_now m \<or> t_now e - m_last_attempt m \<ge> m_backoff m)"

lemma mon_down_parts:
  "fst (mon_down e w m) = (if tries e w (down_state e m)
     then (down_state e m)\<lparr>m_backoff := (if m_retry_now (down_state e m) then m_backoff (down_state e m)
            else wifi_next_backoff (m_backoff (down_state e m))),
          m_retry_now := False, m_avoid := None, m_last_attempt := t_attempt_end e\<rparr>
     else down_state e m)"
  "attempted (snd (snd (mon_down e w m))) = tries e w (down_state e m)"
  using connect_attempts fallback_attempts
  by (simp_all add: mon_down_def tries_def Let_def split_beta flip: down_state_def)
    (simp_all add: attempted_def)

section \<open>The monitor over its turns\<close>

text \<open>
  Any sequence of turns since the task started, the latest first; each turn comes with what the driver
  reported and with the component's state as the other tasks had left it.  The history keeps for
  every turn the calls the monitor made.
\<close>

type_synonym mon_history = "(mon_env \<times> WifiState \<times> wifi_event list) list"

fun mon_turns :: "u32 \<Rightarrow> (mon_env \<times> WifiState) list \<Rightarrow> MonState \<times> mon_history" where
  "mon_turns t [] = (MonState_init t, [])"
| "mon_turns t ((e, w) # ts) =
     (case mon_turns t ts of (m, h) \<Rightarrow>
       (case wifi_monitor_step e w m of (m', w', evs) \<Rightarrow> (m', (e, w, evs) # h)))"

text \<open>Since when the link has been up, as the monitor's turns saw it (a turn during setup over USB does not
  count); \<open>None\<close> when the last turn saw no link.\<close>

fun link_since :: "mon_history \<Rightarrow> u32 option" where
  "link_since [] = None"
| "link_since ((e, w, evs) # h) =
     (if g_provisioning w then link_since h
      else if \<not> t_connected e then None
      else Some (case link_since h of None \<Rightarrow> t_now e | Some s \<Rightarrow> s))"

text \<open>
  The roam check of a turn is due on a link of at least 60 s whose signal is \<open>-50\<close> dBm or worse, while neither the serial
  bridge nor another scan is on, 5 minutes after the last one ended (or the link began).
\<close>

fun checked_at :: "mon_history \<Rightarrow> u32" and roam_due :: "mon_env \<Rightarrow> WifiState \<Rightarrow> mon_history \<Rightarrow> bool" where
  "checked_at [] = 0"
| "checked_at ((e, w, evs) # h) =
     (if g_provisioning w \<or> \<not> t_connected e then checked_at h
      else if link_since h = None then t_now e
      else if roam_due e w h then t_roam_end e
      else checked_at h)"
| "roam_due e w h \<longleftrightarrow>
     (case link_since h of
        None \<Rightarrow> False
      | Some s \<Rightarrow> \<not> t_lora_serial e \<and> \<not> g_scan_running w \<and> t_rssi e \<le> - 50
          \<and> t_now e - s \<ge> 60000 \<and> t_now e - checked_at h \<ge> 300000)"

text \<open>The connect attempts since the link was last seen, and the end of the last one (a turn during setup
  over USB counts as one, for the waiting time).\<close>

fun tries_since :: "mon_history \<Rightarrow> nat" where
  "tries_since [] = 0"
| "tries_since ((e, w, evs) # h) =
     (if g_provisioning w then tries_since h
      else if t_connected e then 0
      else tries_since h + (if attempted evs then 1 else 0))"

fun waits_from :: "mon_history \<Rightarrow> u32" where
  "waits_from [] = 0"
| "waits_from ((e, w, evs) # h) =
     (if g_provisioning w then t_now e
      else if attempted evs then t_attempt_end e
      else waits_from h)"

definition wait_after :: "nat \<Rightarrow> u32" where
  "wait_after n = (if n \<le> 1 then 5000 else if n = 2 then 10000 else if n = 3 then 20000 else if n = 4 then 40000 else 60000)"

lemma next_wait: "0 < n \<Longrightarrow> wifi_next_backoff (wait_after n) = wait_after (Suc n)"
  by (auto simp: wait_after_def wifi_next_backoff_def wifi_times)

text \<open>What the monitor's variables mean.\<close>

definition mon_inv :: "MonState \<Rightarrow> mon_history \<Rightarrow> bool" where
  "mon_inv m h \<longleftrightarrow>
     (case link_since h of
        Some s \<Rightarrow> m_was_up m \<and> m_up_since m = s \<and> m_last_roam_check m = checked_at h \<and> tries_since h = 0
      | None \<Rightarrow> \<not> m_was_up m \<and>
          (if tries_since h = 0 then m_retry_now m \<and> m_backoff m = 5000
           else \<not> m_retry_now m \<and> m_backoff m = wait_after (tries_since h) \<and> m_last_attempt m = waits_from h))"

text \<open>A turn on a live link, and one without, in terms of the history.\<close>

lemma up_turn:
  assumes "mon_inv m h" "wifi_monitor_step e w m = (m', w', evs)" "\<not> g_provisioning w" "t_connected e"
  shows "mon_inv m' ((e, w, evs) # h)"
    and "list_ex touches_link evs \<longleftrightarrow> roam_due e w h \<and> (\<exists>ch \<in> {1..13}. ch_locked (t_roam_scan e ch))"
    and "g_fallback_ap w' \<longleftrightarrow> g_fallback_ap w \<and> (case link_since h of None \<Rightarrow> True | Some s \<Rightarrow> t_now e - s < 10000)"
proof -
  have up: "mon_up e w (mon_disconnects w m) = (m', w', evs)" using assms(2-4) by (simp add: wifi_monitor_step_def Let_def)
  note eff = mon_up_effect [OF up, unfolded mon_disconnects_keeps]
  show "mon_inv m' ((e, w, evs) # h)"
    using assms(1,3,4) eff by (auto simp: mon_inv_def Let_def split: option.splits if_splits)
  show "list_ex touches_link evs \<longleftrightarrow> roam_due e w h \<and> (\<exists>ch \<in> {1..13}. ch_locked (t_roam_scan e ch))"
    using assms(1,3,4) eff by (cases "link_since h") (simp_all add: mon_inv_def Let_def)
  show "g_fallback_ap w' \<longleftrightarrow> g_fallback_ap w \<and> (case link_since h of None \<Rightarrow> True | Some s \<Rightarrow> t_now e - s < 10000)"
    using assms(1,3,4) eff by (cases "link_since h") (simp_all add: mon_inv_def Let_def)
qed

lemma down_turn:
  assumes "mon_inv m h" "wifi_monitor_step e w m = (m', w', evs)" "\<not> g_provisioning w" "\<not> t_connected e"
  shows "attempted evs \<longleftrightarrow> \<not> attempt_live (t_now e) w \<and> (tries_since h = 0 \<or> wait_after (tries_since h) \<le> t_now e - waits_from h)"
    and "mon_inv m' ((e, w, evs) # h)"
proof -
  let ?m = "mon_disconnects w m"
  have down: "mon_down e w ?m = (m', w', evs)" using assms(2-4) by (simp add: wifi_monitor_step_def Let_def)
  have m': "m' = fst (mon_down e w ?m)" and evs: "attempted evs = tries e w (down_state e ?m)"
    using mon_down_parts(2) [of e w ?m] by (simp_all add: down)
  show att: "attempted evs \<longleftrightarrow> \<not> attempt_live (t_now e) w \<and> (tries_since h = 0 \<or> wait_after (tries_since h) \<le> t_now e - waits_from h)"
    using assms(1) unfolding evs
    by (cases "link_since h") (auto simp: tries_def down_state_def mon_inv_def split: if_splits)
  show "mon_inv m' ((e, w, evs) # h)"
    using assms(1,3,4) next_wait [of "tries_since h"] unfolding m' mon_down_parts(1) evs [symmetric]
    by (cases "link_since h")
      (auto simp: mon_inv_def down_state_def wait_after_def wifi_times evs tries_def split: if_splits)
qed

lemma mon_turns_inv: "mon_turns t ts = (m, h) \<Longrightarrow> mon_inv m h"
proof (induction ts arbitrary: m h)
  case Nil
  then show ?case by (auto simp: mon_inv_def MonState_init_def wifi_times)
next
  case (Cons x ts)
  obtain e w where x: "x = (e, w)" by fastforce
  obtain m1 h1 where tl: "mon_turns t ts = (m1, h1)" by fastforce
  obtain w' evs where step: "wifi_monitor_step e w m1 = (m, w', evs)" and h: "h = (e, w, evs) # h1"
    using Cons.prems by (auto simp: x tl split: prod.splits)
  note inv = Cons.IH [OF tl]
  show ?case
  proof (cases "g_provisioning w")
    case True
    with step have "m = m1\<lparr>m_seen_disc := g_disc_count w, m_last_attempt := t_now e\<rparr>"
      by (auto simp: wifi_monitor_step_def)
    then show ?thesis using inv True by (auto simp: mon_inv_def h split: option.splits if_splits)
  next
    case False
    then show ?thesis using up_turn(1) [OF inv step] down_turn(2) [OF inv step] by (cases "t_connected e") (simp_all add: h)
  qed
qed

text \<open>
  C28 (monitor_respects_link). One turn of the WiFi monitor (\<open>wifi_monitor\<close>) after any sequence of turns since it started.  A turn
  that begins while setup over USB owns the station, or without a link while a connect attempt younger than 15 s is
  running, does nothing to the radio and changes no state of the component.  A turn on a live link uses
  the radio exactly when the link is at least 60 s old, the signal \<open>-50\<close> dBm or worse, the
  serial bridge and every other scan off, the last such check (or the start of the link) 5 minutes ago and the radio lock of
  some channel had; and afterwards the fallback access point runs exactly if it ran before and the link is
  younger than 10 s.
\<close>

theorem monitor_respects_link:
  assumes "mon_turns t ts = (m, h)" "wifi_monitor_step e w m = (m', w', evs)"
  shows "(g_provisioning w \<or> \<not> t_connected e \<and> g_attempt_active w \<and> t_now e - g_attempt_start w < 15000
        \<longrightarrow> evs = [] \<and> w' = w)
    \<and> (t_connected e \<and> \<not> g_provisioning w \<longrightarrow>
        (list_ex touches_link evs \<longleftrightarrow>
          (case link_since h of
             None \<Rightarrow> False
           | Some s \<Rightarrow> t_now e - s \<ge> 60000 \<and> t_rssi e \<le> - 50 \<and> \<not> t_lora_serial e \<and> \<not> g_scan_running w
               \<and> t_now e - checked_at h \<ge> 300000 \<and> (\<exists>ch \<in> {1..13}. ch_locked (t_roam_scan e ch))))
        \<and> (g_fallback_ap w' \<longleftrightarrow>
            g_fallback_ap w \<and> (case link_since h of None \<Rightarrow> True | Some s \<Rightarrow> t_now e - s < 10000)))"
proof (cases "g_provisioning w")
  case True
  then show ?thesis using assms(2) by (auto simp: wifi_monitor_step_def)
next
  case False
  note inv = mon_turns_inv [OF assms(1)]
  show ?thesis
  proof (cases "t_connected e")
    case True
    then show ?thesis using up_turn(2,3) [OF inv assms(2) False] False by (auto split: option.splits)
  next
    case down: False
    with False assms(2) have "mon_down e w (mon_disconnects w m) = (m', w', evs)" by (simp add: wifi_monitor_step_def Let_def)
    from mon_down_live [OF _ this] show ?thesis using down False by (auto simp: live_means)
  qed
qed

text \<open>A turn without a link, and one on a link with a weak signal.\<close>

definition no_hits :: "int \<Rightarrow> chan_answer" where
  "no_hits ch = \<lparr>ch_locked = True, ch_first = Some [], ch_retry = None\<rparr>"

definition sample_turn :: "u32 \<Rightarrow> u32 \<Rightarrow> mon_env" where
  "sample_turn now end =
     \<lparr>t_now = now, t_connected = False, t_rssi = -70, t_lora_serial = False, t_roam_scan = no_hits, t_roam_end = now,
      t_roam_others = [], t_still_connected = False, t_rssi2 = 0, t_bssid = None, t_roam_begin = now,
      t_ap = \<lparr>ap_mac = [1, 2, 3, 4, 5, 6], ap_started = (True, True), ap_uname = [], ap_radio_channel = 6\<rparr>,
      t_connect = \<lparr>c_connected = False, c_connected2 = False, c_scan = no_hits, c_rescan = no_hits, c_begin = now,
        c_others = []\<rparr>,
      t_attempt_end = end\<rparr>"

definition live_turn :: "u32 \<Rightarrow> mon_env" where
  "live_turn now = sample_turn now now\<lparr>t_connected := True\<rparr>"

theorem monitor_respects_link_witness:
  "case mon_turns 0 [(live_turn 1000, WifiState_init)] of (m, h) \<Rightarrow>
     list_ex touches_link (snd (snd (wifi_monitor_step (live_turn 400000) WifiState_init m)))
     \<and> \<not> list_ex touches_link (snd (snd (wifi_monitor_step (live_turn 400000\<lparr>t_lora_serial := True\<rparr>) WifiState_init m)))
     \<and> \<not> list_ex touches_link (snd (snd (wifi_monitor_step (live_turn 200000) WifiState_init m)))"
proof -
  obtain m h where run: "mon_turns 0 [(live_turn 1000, WifiState_init)] = (m, h)" by fastforce
  have h: "link_since h = Some 1000" "checked_at h = 1000"
    using run by (auto simp: live_turn_def sample_turn_def WifiState_init_def split: prod.splits)
  have "list_ex touches_link (snd (snd (wifi_monitor_step e WifiState_init m))) \<longleftrightarrow>
      t_now e - 1000 \<ge> 300000 \<and> \<not> t_lora_serial e"
    if e: "e = live_turn n\<lparr>t_lora_serial := b\<rparr>" "n - 1000 \<ge> 60000" for e n b
  proof -
    obtain m' w' evs where step: "wifi_monitor_step e WifiState_init m = (m', w', evs)" by (metis prod_cases3)
    have "\<exists>ch \<in> {1..13}. ch_locked (t_roam_scan e ch)"
      unfolding e by (intro bexI [of _ 1]) (simp_all add: live_turn_def sample_turn_def no_hits_def)
    moreover have "t_connected e" "t_rssi e = - 70" "t_now e = n" "\<not> g_provisioning WifiState_init"
      "\<not> g_scan_running WifiState_init"
      by (simp_all add: e live_turn_def sample_turn_def WifiState_init_def)
    ultimately show ?thesis using monitor_respects_link [OF run step] e(2) by (auto simp: step h)
  qed
  from this [of "live_turn 400000" False] this [of "live_turn 400000\<lparr>t_lora_serial := True\<rparr>" True]
    this [of "live_turn 200000" False]
  show ?thesis unfolding run by (simp add: live_turn_def sample_turn_def)
qed

text \<open>
  Only the beginning of a turn is protected: setup over USB that begins while the monitor scans is not noticed, and
  the monitor's connect attempt replaces the one of the setup.
\<close>

lemma setup_during_scan:
  assumes "\<not> g_provisioning w" "\<not> t_connected e" "tries e w (down_state e (mon_disconnects w m))"
    and "c_others (t_connect e) = [ProvisionBegins]" "wifi_monitor_step e w m = (m', w', evs)"
  shows "g_provisioning w' \<and> (\<exists>ap. last evs = WBegin (g_sta_ssid w) (g_sta_pass w) ap)"
proof -
  have keep: "g_sta_ssid (fst (start_fallback_ap a v)) = g_sta_ssid v \<and> g_sta_pass (fst (start_fallback_ap a v)) = g_sta_pass v" for a v
    by (auto simp: start_fallback_ap_def setup_ap_def Let_def split_beta)
  have conn: "g_provisioning (fst (sta_connect_best (t_connect e) v av))
      \<and> (\<exists>ap. last (snd (sta_connect_best (t_connect e) v av)) = WBegin (g_sta_ssid w) (g_sta_pass w) ap)
      \<and> snd (sta_connect_best (t_connect e) v av) \<noteq> []" if "g_sta_ssid v = g_sta_ssid w" "g_sta_pass v = g_sta_pass w" for v av
    using that by (simp add: sta_connect_best_def sta_begin_pinned_def meanwhile_def assms(4) Let_def split_beta)
  show ?thesis
    using assms(1-3,5) conn keep [of "t_ap e" w]
    by (auto simp: wifi_monitor_step_def mon_down_def tries_def down_state_def Let_def split_beta split: if_splits)
qed

section \<open>Retries\<close>

text \<open>
  C29 (wifi_retries). The connect attempts of the monitor without a link, after any sequence of turns since it started.  In a turn
  outside setup over USB it calls the driver to connect exactly when no attempt younger than 15 s is running and either it
  has not tried since the link was last seen, or since the end of its last attempt (or a turn during setup) 5 s have passed
  after one attempt, 10 s after two, 20 s after three, 40 s after four and 60 s after more: it is never too early and never
  gives up.
\<close>

theorem wifi_retries:
  assumes "mon_turns t ts = (m, h)" "wifi_monitor_step e w m = (m', w', evs)" "\<not> g_provisioning w" "\<not> t_connected e"
  shows "attempted evs \<longleftrightarrow>
    \<not> (g_attempt_active w \<and> t_now e - g_attempt_start w < 15000)
    \<and> (tries_since h = 0 \<or>
       [5000, 10000, 20000, 40000, 60000] ! (min (tries_since h) 5 - 1) \<le> t_now e - waits_from h)"
proof -
  have "[5000, 10000, 20000, 40000, 60000] ! (min n 5 - 1) = wait_after n" if "n \<noteq> 0" for n
  proof (cases "n < 5")
    case True
    with that consider "n = 1" | "n = 2" | "n = 3" | "n = 4" by linarith
    then show ?thesis by cases (simp_all add: wait_after_def)
  qed (simp add: wait_after_def)
  from this [of "tries_since h"] show ?thesis
    using down_turn(1) [OF mon_turns_inv [OF assms(1)] assms(2-4)] by (cases "tries_since h = 0") (simp_all add: live_means)
qed

theorem wifi_retries_witness:
  "case mon_turns 0 [(sample_turn 9000 9500, WifiState_init), (sample_turn 1000 3000, WifiState_init)] of (m, h) \<Rightarrow>
     attempted (snd (snd (wifi_monitor_step (sample_turn 19500 20000) WifiState_init m)))
     \<and> \<not> attempted (snd (snd (wifi_monitor_step (sample_turn 19400 20000) WifiState_init m)))"
proof -
  let ?ts = "[(sample_turn 9000 9500, WifiState_init), (sample_turn 1000 3000, WifiState_init)]"
  obtain m1 h1 where one: "mon_turns 0 [(sample_turn 1000 3000, WifiState_init)] = (m1, h1)" by fastforce
  obtain m h where two: "mon_turns 0 ?ts = (m, h)" by fastforce
  have tried: "attempted (snd (snd (wifi_monitor_step (sample_turn a b) WifiState_init m))) \<longleftrightarrow>
      tries_since h = 0 \<or> [5000, 10000, 20000, 40000, 60000] ! (min (tries_since h) 5 - 1) \<le> a - waits_from h"
    if "mon_turns 0 ts = (m, h)" for a b m h ts
  proof -
    obtain m' w' evs where step: "wifi_monitor_step (sample_turn a b) WifiState_init m = (m', w', evs)" by (metis prod_cases3)
    show ?thesis using wifi_retries [OF that step] by (simp add: step) (simp add: sample_turn_def WifiState_init_def)
  qed
  have env: "\<not> g_provisioning WifiState_init" "\<not> t_connected (sample_turn a b)" "t_attempt_end (sample_turn a b) = b" for a b
    by (simp_all add: WifiState_init_def sample_turn_def)
  have h1: "tries_since h1 = 1 \<and> waits_from h1 = 3000"
    using tried [of "[]" "MonState_init 0" "[]" 1000 3000] one by (auto simp: env split: prod.splits)
  have "tries_since h = 2 \<and> waits_from h = 9500"
    using tried [OF one, of 9000 9500] two one h1 by (auto simp: env split: prod.splits)
  then show ?thesis using tried [OF two, of 19500 20000] tried [OF two, of 19400 20000]
    unfolding two by simp
qed

section \<open>After a failed access point\<close>

text \<open>A disconnect that is the access point's fault makes the next attempt avoid it, and only that one.\<close>

lemma bad_ap_avoided_once:
  assumes "wifi_classify_reason reason = WIFI_DISC_BAD_AP" "take 6 bssid \<noteq> replicate 6 0" "w = fst (onWifiDisconnect reason bssid w0)"
    and "m_seen_disc m = g_disc_count w0" "\<not> t_connected e" "\<not> g_provisioning w"
  shows "m_avoid (mon_disconnects w m) = Some (take 6 bssid)"
    and "tries e w (down_state e (mon_disconnects w m)) \<Longrightarrow> m_avoid (fst (wifi_monitor_step e w m)) = None"
  using assms
  by (simp_all add: onWifiDisconnect_def mon_disconnects_def wifi_monitor_step_def mon_down_parts Let_def)

end
