(* ===== verification/Oled_Layout.thy ===== *)
theory Oled_Layout
  imports Voy_Prelude "HOL-Library.Sublist" "HOL-Library.Signed_Division"
begin

text \<open>
  The pure part of the display (\<open>src/src/display/oled_layout.h\<close>): fitting text into the
  screen, numbers, the geometry of the pages, the sleep and button state machine and the ring
  of received messages.  A C string is a character list without the terminating NUL;
  \<open>out_size\<close> and \<open>stride\<close> are \<open>None\<close> for a null buffer, else its size.
\<close>

section \<open>Text\<close>

definition SCREEN_W :: int where "SCREEN_W = 128"
definition SCREEN_H :: int where "SCREEN_H = 64"
definition CHAR_W :: int where "CHAR_W = 6"
definition CHAR_H :: int where "CHAR_H = 8"

definition safe_len :: "string option \<Rightarrow> nat" where
  "safe_len s = (case s of None \<Rightarrow> 0 | Some s \<Rightarrow> length s)"

definition safe_copy :: "nat \<Rightarrow> string option \<Rightarrow> string" where
  "safe_copy n src = (case src of None \<Rightarrow> [] | Some s \<Rightarrow> take (n - 1) s)"

text \<open>\<open>in_seq\<close>: the character before was part of a UTF-8 sequence.\<close>

fun fold_loop :: "bool \<Rightarrow> string \<Rightarrow> string" where
  "fold_loop in_seq [] = []"
| "fold_loop in_seq (ch # r) =
     (let c = (of_char ch :: nat) in
      if c \<ge> 0xC0 then CHR ''?'' # fold_loop True r
      else if c \<ge> 0x80 then (if \<not> in_seq then CHR ''?'' # fold_loop in_seq r else fold_loop in_seq r)
      else (if c < 0x20 \<and> ch \<noteq> CHR 0x0A \<or> c = 0x7F then CHR '' '' else ch) # fold_loop False r)"

definition ascii_fold :: "string option \<Rightarrow> string option" where
  "ascii_fold s = map_option (fold_loop False) s"

definition text_size :: "u8 \<Rightarrow> int" where
  "text_size sz = (if sz = 0 then 1 else uint sz)"

definition chars_fit :: "int \<Rightarrow> u8 \<Rightarrow> int" where
  "chars_fit px sz = (if px \<le> 0 then 0 else px div (CHAR_W * text_size sz))"

definition text_width :: "string option \<Rightarrow> u8 \<Rightarrow> int" where
  "text_width s sz = int (safe_len s) * CHAR_W * text_size sz"

text \<open>The text written, and whether it was cut.\<close>

definition truncate_ellipsis :: "string option \<Rightarrow> nat option \<Rightarrow> int \<Rightarrow> string \<times> bool" where
  "truncate_ellipsis src out_size max_chars =
     (case out_size of
        None \<Rightarrow> ([], False)
      | Some out_size \<Rightarrow>
          if out_size = 0 then ([], False)
          else if max_chars \<le> 0 then ([], safe_len src > 0)
          else
            let cap = out_size - 1;
                limit = (if nat max_chars < cap then nat max_chars else cap);
                len = safe_len src in
            if len \<le> limit then (safe_copy out_size src, False)
            else
              let dots = (if limit < 3 then limit else 3); keep = limit - dots in
              (take keep (the src) @ replicate dots (CHR ''.''), True))"

definition clamp_x :: "int \<Rightarrow> int \<Rightarrow> int \<Rightarrow> int" where
  "clamp_x x w screen_w =
     (if w \<ge> screen_w then 0 else if x < 0 then 0 else if x + w > screen_w then screen_w - w else x)"

definition center_x :: "int \<Rightarrow> int \<Rightarrow> int" where
  "center_x text_px screen_w = (if text_px \<ge> screen_w \<or> text_px < 0 then 0 else (screen_w - text_px) div 2)"

subsection \<open>Word wrap\<close>

definition newline :: char where "newline = CHR 0x0A"

definition blank :: "char \<Rightarrow> bool" where
  "blank c \<longleftrightarrow> c = CHR '' '' \<or> c = CHR 0x09 \<or> c = CHR 0x0D"

text \<open>How much fits on the line: the length reached and the last blank passed.  The first argument counts
  the characters left on the line.\<close>

fun scan_line :: "nat \<Rightarrow> nat \<Rightarrow> nat option \<Rightarrow> string \<Rightarrow> nat \<times> nat option" where
  "scan_line 0 len last_break p = (len, last_break)"
| "scan_line (Suc k) len last_break [] = (len, last_break)"
| "scan_line (Suc k) len last_break (c # p) =
     (if c = newline then (len, last_break)
      else scan_line k (len + 1) (if blank c then Some len else last_break) p)"

definition trim_spaces :: "string \<Rightarrow> string" where
  "trim_spaces s = rev (dropWhile (\<lambda>c. c = CHR '' '') (rev s))"

text \<open>One line and where the text goes on.\<close>

definition wrap_line :: "nat \<Rightarrow> string \<Rightarrow> string \<times> string" where
  "wrap_line max_chars p =
     (let (len, last_break) = scan_line max_chars 0 None p;
          in_word = (case drop len p of [] \<Rightarrow> False | c # r \<Rightarrow> c \<noteq> newline \<and> \<not> blank c);
          cut = (case last_break of Some b \<Rightarrow> if in_word \<and> b > 0 then b else len | None \<Rightarrow> len)
      in (trim_spaces (map (\<lambda>c. if c = CHR 0x09 \<or> c = CHR 0x0D then CHR '' '' else c) (take cut p)), drop cut p))"

fun wrap_loop :: "nat \<Rightarrow> nat \<Rightarrow> string \<Rightarrow> string list \<times> string" where
  "wrap_loop max_chars 0 p = ([], p)"
| "wrap_loop max_chars (Suc left) p =
     (case dropWhile blank p of
        [] \<Rightarrow> ([], [])
      | c # q \<Rightarrow>
          if c = newline then (let (ls, rest) = wrap_loop max_chars left q in ([] # ls, rest))
          else
            let (l, next) = wrap_line max_chars (c # q);
                (ls, rest) = wrap_loop max_chars left (case next of [] \<Rightarrow> [] | d # r \<Rightarrow> if d = newline then r else next)
            in (l # ls, rest))"

definition mark_cut :: "nat \<Rightarrow> string \<Rightarrow> string" where
  "mark_cut max_chars lst =
     (let dots = (if max_chars < 3 then max_chars else 3);
          l = (if length lst + dots > max_chars then max_chars - dots else length lst)
      in take l lst @ replicate dots (CHR ''.''))"

definition wrap_text :: "string option \<Rightarrow> int \<Rightarrow> int \<Rightarrow> nat option \<Rightarrow> string list" where
  "wrap_text txt max_chars max_lines stride =
     (case stride of
        None \<Rightarrow> []
      | Some stride \<Rightarrow>
          if stride < 2 \<or> max_lines \<le> 0 \<or> max_chars \<le> 0 then []
          else
            let mc = (if nat max_chars > stride - 1 then stride - 1 else nat max_chars) in
            (case txt of
               None \<Rightarrow> []
             | Some p \<Rightarrow>
                 let (ls, rest) = wrap_loop mc (nat max_lines) p in
                 if dropWhile (\<lambda>c. blank c \<or> c = newline) rest \<noteq> [] \<and> ls \<noteq> []
                 then butlast ls @ [mark_cut mc (last ls)] else ls))"

subsection \<open>Hard split\<close>

fun split_loop :: "nat \<Rightarrow> nat \<Rightarrow> nat \<Rightarrow> string \<Rightarrow> string list" where
  "split_loop max_chars stride 0 s = []"
| "split_loop max_chars stride (Suc left) s =
     (if s = [] then []
      else if left = 0 \<and> length s > max_chars then [fst (truncate_ellipsis (Some s) (Some stride) (int max_chars))]
      else take max_chars s # split_loop max_chars stride left (drop max_chars s))"

definition split_lines :: "string option \<Rightarrow> int \<Rightarrow> int \<Rightarrow> nat option \<Rightarrow> string list" where
  "split_lines txt max_chars max_lines stride =
     (case stride of
        None \<Rightarrow> []
      | Some stride \<Rightarrow>
          if stride < 2 \<or> max_lines \<le> 0 \<or> max_chars \<le> 0 then []
          else
            let mc = (if nat max_chars > stride - 1 then stride - 1 else nat max_chars) in
            if safe_len txt = 0 then [] else split_loop mc stride (nat max_lines) (the txt))"

section \<open>Numbers\<close>

definition PROGRESS_HIDE :: u8 where "PROGRESS_HIDE = 255"

definition clamp_pct :: "int \<Rightarrow> int" where
  "clamp_pct pct = (if pct < 0 then 0 else if pct > 100 then 100 else pct)"

definition progress_fill :: "int \<Rightarrow> int \<Rightarrow> int" where
  "progress_fill inner_px pct = (if inner_px \<le> 0 then 0 else inner_px * clamp_pct pct div 100)"

definition rssi_to_bars :: "int \<Rightarrow> nat" where
  "rssi_to_bars rssi =
     (if rssi \<ge> 0 then 0 else if rssi \<ge> - 55 then 4 else if rssi \<ge> - 65 then 3
      else if rssi \<ge> - 75 then 2 else if rssi \<ge> - 85 then 1 else 0)"

text \<open>The four fields of the uptime; \<open>unsigned long\<close> has 32 bits on the board.\<close>

definition uptime_fields :: "u64 \<Rightarrow> u32 \<times> nat \<times> nat \<times> nat" where
  "uptime_fields seconds =
     (ucast (seconds div 86400), unat ((seconds div 3600) mod 24), unat ((seconds div 60) mod 60), unat (seconds mod 60))"

definition two_digits :: "nat \<Rightarrow> string" where
  "two_digits n = (if n < 10 then ''0'' else []) @ dec_nat n"

definition format_uptime :: "u64 \<Rightarrow> nat option \<Rightarrow> string" where
  "format_uptime seconds out_size =
     (case out_size of
        None \<Rightarrow> []
      | Some n \<Rightarrow>
          let (d, h, m, s) = uptime_fields seconds;
              hms = two_digits h @ '':'' @ two_digits m @ '':'' @ two_digits s
          in take (n - 1) (if d > 0 then dec_nat (unat d) @ ''d '' @ hms else hms))"

section \<open>Pages\<close>

datatype Page = PAGE_STATUS | PAGE_MESSAGES | PAGE_LORA | PAGE_NETWORK | PAGE_SYSTEM

definition PAGE_COUNT :: u8 where "PAGE_COUNT = 5"

definition next_page :: "u8 \<Rightarrow> u8 \<Rightarrow> u8" where
  "next_page cur count = (if count = 0 then 0 else word_of_nat ((unat cur + 1) mod unat count))"

definition msg_select_next :: "int \<Rightarrow> u8 \<Rightarrow> int" where
  "msg_select_next sel count = (if count = 0 then - 1 else if sel + 1 \<ge> uint count then - 1 else sint (word_of_int (sel + 1) :: u8))"

section \<open>Screen layout\<close>

definition OLED_HEADER_H :: int where "OLED_HEADER_H = 16"

record Box =
  b_x :: int
  b_y :: int
  b_w :: int
  b_h :: int

definition mk_box :: "int \<Rightarrow> int \<Rightarrow> int \<Rightarrow> int \<Rightarrow> Box" where
  "mk_box x y w h = \<lparr>b_x = x, b_y = y, b_w = w, b_h = h\<rparr>"

definition box_bottom :: "Box \<Rightarrow> int" where "box_bottom b = b_y b + b_h b - 1"
definition box_right :: "Box \<Rightarrow> int" where "box_right b = b_x b + b_w b - 1"
definition box_in_header :: "Box \<Rightarrow> bool" where "box_in_header b \<longleftrightarrow> b_y b \<ge> 0 \<and> box_bottom b < OLED_HEADER_H"
definition box_in_body :: "Box \<Rightarrow> bool" where "box_in_body b \<longleftrightarrow> b_y b \<ge> OLED_HEADER_H \<and> box_bottom b < SCREEN_H"
definition box_on_screen_x :: "Box \<Rightarrow> bool" where "box_on_screen_x b \<longleftrightarrow> b_x b \<ge> 0 \<and> box_right b < SCREEN_W"

definition boxes_overlap :: "Box \<Rightarrow> Box \<Rightarrow> bool" where
  "boxes_overlap a b \<longleftrightarrow>
     b_x a \<le> box_right b \<and> b_x b \<le> box_right a \<and> b_y a \<le> box_bottom b \<and> b_y b \<le> box_bottom a"

definition HEADER_SEP_Y :: int where "HEADER_SEP_Y = OLED_HEADER_H - 1"
definition BAND_INK_H2 :: int where "BAND_INK_H2 = 7 * 2"
definition BAND_INK_H1 :: int where "BAND_INK_H1 = 7"
definition BAND_TEXT_Y2 :: int where "BAND_TEXT_Y2 = (HEADER_SEP_Y - BAND_INK_H2) div 2"
definition BAND_TEXT_Y1 :: int where "BAND_TEXT_Y1 = (HEADER_SEP_Y - BAND_INK_H1) div 2"
definition ICON_BASE_Y :: int where "ICON_BASE_Y = HEADER_SEP_Y - 2"
definition ICON_TOP_Y :: int where "ICON_TOP_Y = ICON_BASE_Y - 11"
definition ICON_WIFI_X :: int where "ICON_WIFI_X = 86"
definition ICON_WIFI_W :: int where "ICON_WIFI_W = 13"
definition ICON_LORA_X :: int where "ICON_LORA_X = 102"
definition ICON_LORA_W :: int where "ICON_LORA_W = 9"
definition ICON_BARS_X :: int where "ICON_BARS_X = 116"
definition ICON_BARS_W :: int where "ICON_BARS_W = 12"
definition HEADER_TITLE_PX :: int where "HEADER_TITLE_PX = ICON_WIFI_X - 2"
definition HEADER_TITLE_MAX2 :: int where "HEADER_TITLE_MAX2 = HEADER_TITLE_PX div (CHAR_W * 2)"
definition HEADER_TITLE_MAX1 :: int where "HEADER_TITLE_MAX1 = HEADER_TITLE_PX div CHAR_W"
definition DOTS_H :: int where "DOTS_H = 3"
definition DOTS_Y :: int where "DOTS_Y = SCREEN_H - DOTS_H"
definition DOTS_SPACING :: int where "DOTS_SPACING = 6"
definition CONTENT_Y :: int where "CONTENT_Y = OLED_HEADER_H + 1"
definition LINE_STEP :: int where "LINE_STEP = 9"
definition CONTENT_LINES :: int where "CONTENT_LINES = (DOTS_Y - CHAR_H - CONTENT_Y) div LINE_STEP + 1"
definition OVERLAY_MARGIN :: int where "OVERLAY_MARGIN = 4"
definition ALERT_TEXT_Y :: int where "ALERT_TEXT_Y = OLED_HEADER_H + 3"
definition ALERT_LINES :: int where "ALERT_LINES = (SCREEN_H - 1 - CHAR_H - ALERT_TEXT_Y) div LINE_STEP + 1"
definition PROG_BAR_Y :: int where "PROG_BAR_Y = OLED_HEADER_H + 8"
definition PROG_BAR_H :: int where "PROG_BAR_H = 12"
definition PROG_PCT_Y :: int where "PROG_PCT_Y = PROG_BAR_Y + PROG_BAR_H + 6"
definition MSGOV_FROM_Y2 :: int where "MSGOV_FROM_Y2 = OLED_HEADER_H + 4"
definition MSGOV_FROM_Y1 :: int where "MSGOV_FROM_Y1 = OLED_HEADER_H + 8"
definition MSGOV_TEXT_Y :: int where "MSGOV_TEXT_Y = OLED_HEADER_H + 26"
definition MSGOV_TEXT_LINES :: int where "MSGOV_TEXT_LINES = 2"
definition SPLASH_FRAMES :: int where "SPLASH_FRAMES = 6"
definition SPLASH_CX :: int where "SPLASH_CX = SCREEN_W div 2"
definition SPLASH_CY :: int where "SPLASH_CY = OLED_HEADER_H + (SCREEN_H - OLED_HEADER_H) div 2"
definition SPLASH_TAG_Y :: int where "SPLASH_TAG_Y = SPLASH_CY - CHAR_H div 2"

lemmas layout_consts =
  SCREEN_W_def SCREEN_H_def CHAR_W_def CHAR_H_def OLED_HEADER_H_def HEADER_SEP_Y_def BAND_INK_H2_def BAND_INK_H1_def
  BAND_TEXT_Y2_def BAND_TEXT_Y1_def ICON_BASE_Y_def ICON_TOP_Y_def ICON_WIFI_X_def ICON_WIFI_W_def ICON_LORA_X_def
  ICON_LORA_W_def ICON_BARS_X_def ICON_BARS_W_def HEADER_TITLE_PX_def HEADER_TITLE_MAX2_def HEADER_TITLE_MAX1_def
  DOTS_H_def DOTS_Y_def DOTS_SPACING_def CONTENT_Y_def LINE_STEP_def CONTENT_LINES_def OVERLAY_MARGIN_def
  ALERT_TEXT_Y_def ALERT_LINES_def PROG_BAR_Y_def PROG_BAR_H_def PROG_PCT_Y_def MSGOV_FROM_Y2_def MSGOV_FROM_Y1_def
  MSGOV_TEXT_Y_def MSGOV_TEXT_LINES_def SPLASH_FRAMES_def SPLASH_CX_def SPLASH_CY_def SPLASH_TAG_Y_def

definition band_text_size :: "string option \<Rightarrow> int \<Rightarrow> u8" where
  "band_text_size s avail_px = (if text_width s 2 \<le> avail_px then 2 else 1)"

definition band_text_y :: "u8 \<Rightarrow> int" where
  "band_text_y sz = (if sz \<ge> 2 then BAND_TEXT_Y2 else BAND_TEXT_Y1)"

text \<open>\<open>ascii_upper\<close>: the letters of a band title in upper case.\<close>

definition upper_char :: "char \<Rightarrow> char" where
  "upper_char c = (if (of_char c :: nat) \<ge> 97 \<and> (of_char c :: nat) \<le> 122 then char_of (of_char c - 97 + 65 :: nat) else c)"

definition band_upper :: "string option \<Rightarrow> string option" where
  "band_upper s = map_option (map upper_char) s"

definition header_sep_box :: Box where "header_sep_box = mk_box 0 HEADER_SEP_Y SCREEN_W 1"

definition header_title_box :: "u8 \<Rightarrow> Box" where
  "header_title_box sz = mk_box 0 (band_text_y sz)
     (if sz \<ge> 2 then HEADER_TITLE_MAX2 * CHAR_W * 2 else HEADER_TITLE_MAX1 * CHAR_W) (CHAR_H * (if sz \<ge> 2 then 2 else 1))"

definition icon_wifi_box :: Box where "icon_wifi_box = mk_box ICON_WIFI_X ICON_TOP_Y ICON_WIFI_W (ICON_BASE_Y - ICON_TOP_Y + 1)"
definition icon_lora_box :: Box where "icon_lora_box = mk_box ICON_LORA_X ICON_TOP_Y ICON_LORA_W (ICON_BASE_Y - ICON_TOP_Y + 1)"
definition icon_bars_box :: Box where "icon_bars_box = mk_box ICON_BARS_X ICON_TOP_Y ICON_BARS_W (ICON_BASE_Y - ICON_TOP_Y + 1)"
definition content_line_box :: "int \<Rightarrow> Box" where "content_line_box i = mk_box 0 (CONTENT_Y + i * LINE_STEP) SCREEN_W CHAR_H"

definition dots_x0 :: "u8 \<Rightarrow> int" where
  "dots_x0 count = (let total = (uint count - 1) * DOTS_SPACING + 3 in (SCREEN_W - total) sdiv 2 + 1)"

definition dots_box :: "u8 \<Rightarrow> Box" where
  "dots_box count = mk_box (dots_x0 count - 1) DOTS_Y ((uint count - 1) * DOTS_SPACING + 3) DOTS_H"

definition alert_band_box :: Box where "alert_band_box = mk_box 0 0 SCREEN_W OLED_HEADER_H"
definition alert_frame_box :: Box where "alert_frame_box = mk_box 0 OLED_HEADER_H SCREEN_W (SCREEN_H - OLED_HEADER_H)"

definition alert_line_box :: "int \<Rightarrow> Box" where
  "alert_line_box i = mk_box OVERLAY_MARGIN (ALERT_TEXT_Y + i * LINE_STEP) (SCREEN_W - 2 * OVERLAY_MARGIN) CHAR_H"

definition progress_bar_box :: Box where
  "progress_bar_box = mk_box (2 * OVERLAY_MARGIN) PROG_BAR_Y (SCREEN_W - 4 * OVERLAY_MARGIN) PROG_BAR_H"

definition progress_pct_box :: Box where "progress_pct_box = mk_box 0 PROG_PCT_Y SCREEN_W (2 * CHAR_H)"

definition msgov_from_box :: "u8 \<Rightarrow> Box" where
  "msgov_from_box sz = mk_box 0 (if sz \<ge> 2 then MSGOV_FROM_Y2 else MSGOV_FROM_Y1) SCREEN_W (CHAR_H * (if sz \<ge> 2 then 2 else 1))"

definition msgov_text_box :: "int \<Rightarrow> Box" where
  "msgov_text_box i = mk_box OVERLAY_MARGIN (MSGOV_TEXT_Y + i * LINE_STEP) (SCREEN_W - 2 * OVERLAY_MARGIN) CHAR_H"

definition splash_ring_r :: "int \<Rightarrow> int" where "splash_ring_r frame = 3 + frame * 3"

definition splash_ring_box :: "int \<Rightarrow> Box" where
  "splash_ring_box frame =
     (let r = splash_ring_r frame in mk_box (SPLASH_CX - r) (SPLASH_CY - r) (2 * r + 1) (2 * r + 1))"

definition splash_tag_box :: Box where "splash_tag_box = mk_box 0 SPLASH_TAG_Y SCREEN_W CHAR_H"

section \<open>Sleep, wake and buttons\<close>

definition SLEEP_TIMEOUT_MS :: u32 where "SLEEP_TIMEOUT_MS = 60000"
definition HOLD_WAKE_WINDOW_MS :: u32 where "HOLD_WAKE_WINDOW_MS = 2500"

record SleepState =
  sl_on :: bool
  last_activity :: u32
  hold_wake :: bool
  hold_wake_at :: u32

definition sleep_init :: "u32 \<Rightarrow> SleepState" where
  "sleep_init now = \<lparr>sl_on = True, last_activity = now, hold_wake = False, hold_wake_at = 0\<rparr>"

datatype ButtonAction = BTN_ACT_NONE | BTN_ACT_WAKE | BTN_ACT_SCREEN_OFF | BTN_ACT_NEXT_PAGE | BTN_ACT_BTN1

definition sleep_button :: "SleepState \<Rightarrow> u8 \<Rightarrow> bool \<Rightarrow> u32 \<Rightarrow> SleepState \<times> ButtonAction" where
  "sleep_button s btn long_press now =
     (let hold_woke = (hold_wake s \<and> btn = 1 \<and> \<not> long_press \<and> now - hold_wake_at s \<le> HOLD_WAKE_WINDOW_MS);
          s = s\<lparr>hold_wake := False, last_activity := now\<rparr> in
      if hold_woke then (s\<lparr>sl_on := True\<rparr>, BTN_ACT_WAKE)
      else if btn = 2 \<and> long_press
      then (s\<lparr>sl_on := \<not> sl_on s\<rparr>, if \<not> sl_on s then BTN_ACT_WAKE else BTN_ACT_SCREEN_OFF)
      else if \<not> sl_on s then (s\<lparr>sl_on := True\<rparr>, BTN_ACT_WAKE)
      else if btn = 2 then (s, BTN_ACT_NEXT_PAGE)
      else if btn = 1 \<and> \<not> long_press then (s, BTN_ACT_BTN1)
      else (s, BTN_ACT_NONE))"

definition sleep_wake :: "SleepState \<Rightarrow> u32 \<Rightarrow> SleepState \<times> bool" where
  "sleep_wake s now = (s\<lparr>sl_on := True, last_activity := now\<rparr>, \<not> sl_on s)"

definition sleep_wake_progress :: "SleepState \<Rightarrow> u32 \<Rightarrow> SleepState \<times> bool" where
  "sleep_wake_progress s now =
     (let (s, was_off) = sleep_wake s now in
      (if was_off then s\<lparr>hold_wake := True, hold_wake_at := now\<rparr> else s, was_off))"

definition sleep_tick :: "SleepState \<Rightarrow> u32 \<Rightarrow> u32 \<Rightarrow> SleepState \<times> bool" where
  "sleep_tick s now timeout =
     (if \<not> sl_on s then (s, False)
      else if now - last_activity s \<ge> timeout then (s\<lparr>sl_on := False\<rparr>, True)
      else (s, False))"

section \<open>Received messages\<close>

definition MSG_RING_SIZE :: nat where "MSG_RING_SIZE = 5"
definition MSG_FROM_LEN :: nat where "MSG_FROM_LEN = 33"
definition MSG_TEXT_LEN :: nat where "MSG_TEXT_LEN = 97"

record MsgRing =
  r_from :: "string list"
  r_text :: "string list"
  r_head :: nat
  r_count :: nat
  r_total :: u32

definition ring_init :: MsgRing where
  "ring_init = \<lparr>r_from = replicate MSG_RING_SIZE [], r_text = replicate MSG_RING_SIZE [], r_head = 0, r_count = 0, r_total = 0\<rparr>"

definition ring_push :: "MsgRing \<Rightarrow> string option \<Rightarrow> string option \<Rightarrow> MsgRing" where
  "ring_push r from txt =
     r\<lparr>r_from := (r_from r)[r_head r := safe_copy MSG_FROM_LEN from],
       r_text := (r_text r)[r_head r := safe_copy MSG_TEXT_LEN txt],
       r_head := (r_head r + 1) mod MSG_RING_SIZE,
       r_count := (if r_count r < MSG_RING_SIZE then r_count r + 1 else r_count r),
       r_total := r_total r + 1\<rparr>"

definition ring_slot :: "MsgRing \<Rightarrow> int \<Rightarrow> int" where
  "ring_slot r i =
     (if i < 0 \<or> i \<ge> int (r_count r) then - 1
      else (int (r_head r) + int MSG_RING_SIZE - 1 - i) mod int MSG_RING_SIZE)"

definition ring_from :: "MsgRing \<Rightarrow> int \<Rightarrow> string" where
  "ring_from r i = (let k = ring_slot r i in if k < 0 then [] else r_from r ! nat k)"

definition ring_text :: "MsgRing \<Rightarrow> int \<Rightarrow> string" where
  "ring_text r i = (let k = ring_slot r i in if k < 0 then [] else r_text r ! nat k)"

section \<open>Words keep their text\<close>

text \<open>The text without blanks and line breaks.\<close>

definition squeeze :: "string \<Rightarrow> string" where
  "squeeze s = filter (\<lambda>c. \<not> blank c \<and> c \<noteq> newline) s"

lemma squeeze_append [simp]: "squeeze (a @ b) = squeeze a @ squeeze b"
  by (simp add: squeeze_def)

lemma squeeze_Nil [simp]: "squeeze [] = []"
  by (simp add: squeeze_def)

lemma squeeze_dropWhile [simp]: "squeeze (dropWhile blank s) = squeeze s"
  by (induction s) (auto simp: squeeze_def)

lemma squeeze_take_drop: "squeeze (take n s) @ squeeze (drop n s) = squeeze s"
  by (metis squeeze_append append_take_drop_id)

lemma squeeze_trim: "squeeze (trim_spaces s) = squeeze s"
proof -
  let ?sp = "\<lambda>c. c = CHR '' ''"
  have s: "s = trim_spaces s @ rev (takeWhile ?sp (rev s))"
    unfolding trim_spaces_def rev_append [symmetric] by simp
  have "squeeze (rev (takeWhile ?sp (rev s))) = []"
    unfolding squeeze_def filter_empty_conv using set_takeWhileD [of _ ?sp "rev s"] by (simp add: blank_def)
  then show ?thesis using arg_cong [OF s, of squeeze] by simp
qed

lemma squeeze_normal:
  "squeeze (map (\<lambda>c. if c = CHR 0x09 \<or> c = CHR 0x0D then CHR '' '' else c) s) = squeeze s"
  by (induction s) (auto simp: squeeze_def blank_def newline_def)

lemma length_trim: "length (trim_spaces s) \<le> length s"
  using length_dropWhile_le [of _ "rev s"] by (simp add: trim_spaces_def)

lemma scan_line_bounds:
  assumes "scan_line k len lb p = (n, b)"
  shows "len \<le> n \<and> n \<le> len + k \<and> (\<forall>i. b = Some i \<longrightarrow> lb = Some i \<or> i < n)"
  using assms
proof (induction k len lb p rule: scan_line.induct)
  case (3 k len last_break c p)
  show ?case
  proof (cases "c = newline")
    case True
    with 3(2) show ?thesis by simp
  next
    case False
    let ?lb = "if blank c then Some len else last_break"
    from 3 False have IH: "len + 1 \<le> n" "n \<le> len + 1 + k" "\<forall>i. b = Some i \<longrightarrow> ?lb = Some i \<or> i < n" by auto
    have "last_break = Some i \<or> i < n" if "b = Some i" for i
      using IH(1) IH(3) that by (cases "blank c") auto
    then show ?thesis using IH by simp
  qed
qed simp_all

lemma wrap_line_text:
  assumes "wrap_line mc p = (l, next)"
  shows "length l \<le> mc" and "squeeze l @ squeeze next = squeeze p"
proof -
  obtain n b where sc: "scan_line mc 0 None p = (n, b)" by fastforce
  define k where "k = (case b of Some i \<Rightarrow>
      if (case drop n p of [] \<Rightarrow> False | c # r \<Rightarrow> c \<noteq> newline \<and> \<not> blank c) \<and> i > 0 then i else n | None \<Rightarrow> n)"
  have "k \<le> n" using scan_line_bounds [OF sc] by (auto simp: k_def less_imp_le split: option.split)
  then have k: "k \<le> n"
    "l = trim_spaces (map (\<lambda>c. if c = CHR 0x09 \<or> c = CHR 0x0D then CHR '' '' else c) (take k p))" "next = drop k p"
    using assms by (simp_all add: wrap_line_def sc k_def [symmetric])
  show "squeeze l @ squeeze next = squeeze p" by (simp add: k squeeze_trim squeeze_normal squeeze_take_drop)
  have "length l \<le> k" unfolding k using length_trim [THEN le_trans] by simp
  then show "length l \<le> mc" using k(1) scan_line_bounds [OF sc] by simp
qed

lemma wrap_loop_text:
  assumes "wrap_loop mc left p = (ls, rest)"
  shows "length ls \<le> left \<and> (\<forall>l \<in> set ls. length l \<le> mc) \<and> concat (map squeeze ls) @ squeeze rest = squeeze p
    \<and> (rest \<noteq> [] \<longrightarrow> length ls = left)"
  using assms
proof (induction mc left p arbitrary: ls rest rule: wrap_loop.induct)
  case (2 mc left p)
  show ?case
  proof (cases "dropWhile blank p")
    case Nil
    then have "squeeze p = []" using squeeze_dropWhile [of p] by (simp only: Nil squeeze_Nil)
    then show ?thesis using 2(3) unfolding wrap_loop.simps(2) Nil by simp
  next
    case (Cons c q)
    have p: "squeeze p = squeeze (c # q)" using squeeze_dropWhile [of p] Cons by simp
    show ?thesis
    proof (cases "c = newline")
      case True
      obtain ls' where ls': "wrap_loop mc left q = (ls', rest)" "ls = [] # ls'"
        using 2(3) Cons True by (auto simp: Let_def split: prod.splits)
      from 2(1) [OF Cons True ls'(1)] show ?thesis unfolding p ls' by (simp add: squeeze_def True)
    next
      case False
      obtain l nxt where l: "wrap_line mc (c # q) = (l, nxt)" by fastforce
      define nx where "nx = (case nxt of [] \<Rightarrow> [] | d # r \<Rightarrow> if d = newline then r else nxt)"
      have nx: "squeeze nx = squeeze nxt" by (auto simp: nx_def squeeze_def split: list.split)
      obtain ls' where ls': "wrap_loop mc left nx = (ls', rest)" "ls = l # ls'"
        using 2(3) Cons False l by (auto simp: Let_def nx_def split: prod.splits)
      from 2(2) [OF Cons False l [symmetric] refl ls'(1) [unfolded nx_def]]
      have IH: "length ls' \<le> left \<and> (\<forall>l \<in> set ls'. length l \<le> mc) \<and>
          concat (map squeeze ls') @ squeeze rest = squeeze nx \<and> (rest \<noteq> [] \<longrightarrow> length ls' = left)"
        by (simp add: nx_def)
      show ?thesis using IH wrap_line_text [OF l] nx unfolding p ls' by auto
    qed
  qed
qed auto

lemma mark_cut_length: "length lst \<le> mc \<Longrightarrow> length (mark_cut mc lst) \<le> mc"
  by (simp add: mark_cut_def Let_def)

lemma mark_cut_dots: "suffix (replicate (min 3 mc) (CHR ''.'')) (mark_cut mc lst)"
  by (simp add: mark_cut_def Let_def min_def suffix_def)

lemma nothing_left: "dropWhile (\<lambda>c. blank c \<or> c = newline) s = [] \<Longrightarrow> squeeze s = []"
  by (simp add: squeeze_def filter_empty_conv dropWhile_eq_Nil_conv)

lemma wrap_text_eq:
  assumes "2 \<le> stride" "0 < max_lines" "0 < max_chars"
  shows "wrap_text (Some s) max_chars max_lines (Some stride) =
    (case wrap_loop (min (nat max_chars) (stride - 1)) (nat max_lines) s of (ls, rest) \<Rightarrow>
       if dropWhile (\<lambda>c. blank c \<or> c = newline) rest \<noteq> [] \<and> ls \<noteq> []
       then butlast ls @ [mark_cut (min (nat max_chars) (stride - 1)) (last ls)] else ls)"
proof -
  have ok: "\<not> (stride < 2 \<or> max_lines \<le> 0 \<or> max_chars \<le> 0)" using assms by simp
  have mc: "(if nat max_chars > stride - 1 then stride - 1 else nat max_chars) = min (nat max_chars) (stride - 1)"
    by simp
  show ?thesis unfolding wrap_text_def option.case Let_def mc if_not_P [OF ok] ..
qed

text \<open>
  Word wrap (\<open>wrap_text\<close>).  For any text, line length, line count and buffer the result has at
  most \<open>max_lines\<close> lines, and no line is longer than \<open>max_chars\<close> or than the row of the buffer
  less its terminator.  The lines hold exactly the text, blanks and line breaks aside; only when every line is
  used can text be left out, and then the last line ends in dots and the others hold a
  prefix of the text.
\<close>

lemma wrap_text_sound:
  assumes "2 \<le> stride" "0 < max_lines" "0 < max_chars"
    and "wrap_text (Some s) max_chars max_lines (Some stride) = ls"
  shows "length ls \<le> nat max_lines \<and> (\<forall>l \<in> set ls. length l \<le> nat max_chars \<and> length l < stride)
    \<and> (concat (map squeeze ls) = squeeze s
       \<or> length ls = nat max_lines \<and> suffix (replicate (min 3 (min (nat max_chars) (stride - 1))) (CHR ''.'')) (last ls)
         \<and> prefix (concat (map squeeze (butlast ls))) (squeeze s))"
proof -
  define mc where mc: "mc = min (nat max_chars) (stride - 1)"
  obtain body rest where b: "wrap_loop mc (nat max_lines) s = (body, rest)" by fastforce
  note body = wrap_loop_text [OF b]
  have short: "length l \<le> nat max_chars \<and> length l < stride" if "length l \<le> mc" for l :: string
    using that mc assms(1) by linarith
  have ls: "ls = (if dropWhile (\<lambda>c. blank c \<or> c = newline) rest \<noteq> [] \<and> body \<noteq> []
      then butlast body @ [mark_cut mc (last body)] else body)"
    using assms(4) by (simp only: wrap_text_eq [OF assms(1-3)] mc [symmetric] b prod.case)
  show ?thesis
  proof (cases "dropWhile (\<lambda>c. blank c \<or> c = newline) rest \<noteq> [] \<and> body \<noteq> []")
    case True
    then have r: "rest \<noteq> []" and ls: "ls = butlast body @ [mark_cut mc (last body)]" unfolding ls by auto
    have "length ls = length body" using True by (simp add: ls)
    then have len: "length ls = nat max_lines" using body r by simp
    have "\<forall>l \<in> set ls. length l \<le> mc"
      using body True mark_cut_length unfolding ls by (auto dest: in_set_butlastD)
    moreover have "squeeze s = concat (map squeeze (butlast ls)) @ squeeze (last body) @ squeeze rest"
    proof -
      have "body = butlast body @ [last body]" using True by simp
      then have "concat (map squeeze body) = concat (map squeeze (butlast body @ [last body]))" by simp
      also have "\<dots> = concat (map squeeze (butlast ls)) @ squeeze (last body)" by (simp add: ls)
      finally have "concat (map squeeze body) = concat (map squeeze (butlast ls)) @ squeeze (last body)" .
      then show ?thesis using body by simp
    qed
    ultimately show ?thesis using len short mark_cut_dots [of mc "last body"] unfolding mc [symmetric]
      by (simp add: ls)
  next
    case False
    then have ls: "ls = body" unfolding ls by (simp only: if_False)
    have "rest = [] \<or> squeeze rest = []"
    proof (cases "body = []")
      case True
      then show ?thesis using body assms(2) by auto
    next
      case n: False
      then show ?thesis using False nothing_left by blast
    qed
    then show ?thesis using body short unfolding ls by auto
  qed
qed

section \<open>Hard splits and ellipses\<close>

lemma truncate_length:
  assumes "truncate_ellipsis src (Some n) mc = (s, short)" "0 < n"
  shows "length s \<le> nat mc \<and> length s < n \<and> (\<not> short \<longrightarrow> s = (case src of None \<Rightarrow> [] | Some t \<Rightarrow> t))"
  using assms
  by (cases src) (auto simp: truncate_ellipsis_def safe_len_def safe_copy_def Let_def split: if_splits)

text \<open>Nothing is lost in a value that is split hard and fits; one that does not fit is cut in the last line only.\<close>

lemma split_loop_text:
  assumes "0 < mc" "mc < stride"
  shows "length (split_loop mc stride left s) \<le> left \<and> (\<forall>l \<in> set (split_loop mc stride left s). length l \<le> mc)
    \<and> (length s \<le> mc * left \<longrightarrow> concat (split_loop mc stride left s) = s)
    \<and> (length s > mc * left \<and> left > 0 \<longrightarrow> concat (butlast (split_loop mc stride left s)) = take (mc * (left - 1)) s)"
  using assms
proof (induction left arbitrary: s)
  case (Suc k)
  show ?case
  proof (cases "s = []")
    case False
    note s = this
    show ?thesis
    proof (cases "k = 0 \<and> length s > mc")
      case True
      have "length (fst (truncate_ellipsis (Some s) (Some stride) (int mc))) \<le> mc"
        using truncate_length [of "Some s" stride "int mc"] assms by (metis nat_int prod.collapse gr_implies_not0 neq0_conv)
      then show ?thesis using True s by simp
    next
      case no_cut: False
      let ?r = "split_loop mc stride k (drop mc s)"
      have e: "split_loop mc stride (Suc k) s = take mc s # ?r" using no_cut s by auto
      note IH = Suc.IH [OF assms, of "drop mc s"]
      have fits: "length s \<le> mc * Suc k \<Longrightarrow> concat (take mc s # ?r) = s" using IH by simp
      have long: "concat (butlast (take mc s # ?r)) = take (mc * k) s" if l: "length s > mc * Suc k"
      proof -
        have k: "k > 0" using no_cut l by (cases k) auto
        then obtain j where j: "k = Suc j" by (cases k) auto
        have "drop mc s \<noteq> []" using l by simp
        then have "?r \<noteq> []" by (simp add: j)
        then have "concat (butlast (take mc s # ?r)) = take mc s @ concat (butlast ?r)" by simp
        also have "concat (butlast ?r) = take (mc * (k - 1)) (drop mc s)" using IH l k by simp
        also have "take mc s @ take (mc * (k - 1)) (drop mc s) = take (mc * k) s"
          unfolding take_add [symmetric] j by simp
        finally show ?thesis .
      qed
      have "length (take mc s # ?r) \<le> Suc k" "\<forall>l \<in> set (take mc s # ?r). length l \<le> mc" using IH by simp_all
      then show ?thesis unfolding e diff_Suc_1 using fits long by blast
    qed
  qed simp
qed simp

text \<open>A value that fits is shown whole; one that does not is cut in the last line, which ends in dots.\<close>

lemma split_lines_text:
  assumes "2 \<le> stride" "0 < max_lines" "0 < max_chars" "mc = min (nat max_chars) (stride - 1)"
  shows "length (split_lines (Some s) max_chars max_lines (Some stride)) \<le> nat max_lines"
    and "length s \<le> mc * nat max_lines \<Longrightarrow> concat (split_lines (Some s) max_chars max_lines (Some stride)) = s"
proof -
  have mc: "0 < mc" "mc < stride" using assms by simp_all
  have "split_lines (Some s) max_chars max_lines (Some stride) = split_loop mc stride (nat max_lines) s"
    using assms by (cases "s = []"; cases "nat max_lines") (auto simp: split_lines_def safe_len_def Let_def min_def)
  with split_loop_text [OF mc, of "nat max_lines" s]
  show "length (split_lines (Some s) max_chars max_lines (Some stride)) \<le> nat max_lines"
    "length s \<le> mc * nat max_lines \<Longrightarrow> concat (split_lines (Some s) max_chars max_lines (Some stride)) = s"
    by simp_all
qed

section \<open>Numbers and titles\<close>

text \<open>The uptime fields are the mixed-radix digits of the seconds, for 11.7 million years.\<close>

lemma uptime_fields_exact:
  assumes "uptime_fields t = (d, h, m, s)" "unat t < 86400 * 2 ^ 32"
  shows "unat t = unat d * 86400 + h * 3600 + m * 60 + s \<and> h < 24 \<and> m < 60 \<and> s < 60"
proof -
  have "unat t div 86400 < 2 ^ 32" using assms(2) by (simp add: less_mult_imp_div_less mult.commute)
  then have "unat d = unat t div 86400"
    using assms(1) by (auto simp: uptime_fields_def unsigned_ucast_eq unat_div take_bit_nat_eq_self)
  moreover have hms: "h = unat t div 3600 mod 24" "m = unat t div 60 mod 60" "s = unat t mod 60"
    using assms(1) by (auto simp: uptime_fields_def unat_div unat_mod)
  moreover have "unat t div 3600 = unat t div 60 div 60" "unat t div 86400 = unat t div 3600 div 24"
    by (simp_all flip: div_mult2_eq)
  moreover have "unat t = unat t div 60 * 60 + unat t mod 60"
    "unat t div 60 = unat t div 60 div 60 * 60 + unat t div 60 mod 60"
    "unat t div 3600 = unat t div 3600 div 24 * 24 + unat t div 3600 mod 24" by simp_all
  ultimately have "unat t = unat d * 86400 + h * 3600 + m * 60 + s" by linarith
  moreover have "h < 24" "m < 60" "s < 60" using hms by simp_all
  ultimately show ?thesis by blast
qed

text \<open>The bar never leaves its frame and is full exactly at 100 percent.\<close>

lemma progress_fill_bounds: "0 \<le> progress_fill w pct \<and> progress_fill w pct \<le> max 0 w"
proof (cases "0 < w")
  case True
  have "0 \<le> clamp_pct pct" "clamp_pct pct \<le> 100" by (simp_all add: clamp_pct_def)
  with True have "0 \<le> w * clamp_pct pct" "w * clamp_pct pct \<le> w * 100"
    by (simp, intro mult_left_mono) simp_all
  from zdiv_mono1 [OF this(2), of 100] pos_imp_zdiv_nonneg_iff [of 100 "w * clamp_pct pct"] this(1) True
  show ?thesis by (simp add: progress_fill_def)
qed (simp add: progress_fill_def)

lemma progress_full: "0 < w \<Longrightarrow> progress_fill w 100 = w"
  by (simp add: progress_fill_def clamp_pct_def)

text \<open>The size chosen for a band title is one at which it fits, if there is one.\<close>

lemma band_title_fits:
  "text_width s 1 \<le> px \<Longrightarrow> text_width s (band_text_size s px) \<le> px"
  by (simp add: band_text_size_def)

text \<open>Folded text has one printable character per glyph.\<close>

lemma fold_loop_printable: "\<forall>c \<in> set (fold_loop q s). (of_char c :: nat) < 0x7F \<and> (of_char c \<ge> (0x20 :: nat) \<or> c = newline)"
  by (induction q s rule: fold_loop.induct) (auto simp: Let_def newline_def)

lemma fold_loop_fixed:
  "\<forall>c \<in> set s. (of_char c :: nat) < 0x7F \<and> (of_char c \<ge> (0x20 :: nat) \<or> c = newline) \<Longrightarrow> fold_loop q s = s"
  by (induction q s rule: fold_loop.induct) (auto simp: Let_def newline_def)

lemma ascii_fold_idem: "ascii_fold (ascii_fold s) = ascii_fold s"
  by (cases s) (simp_all add: ascii_fold_def fold_loop_fixed fold_loop_printable)

section \<open>Nothing on the screen overlaps\<close>

definition separate :: "Box list \<Rightarrow> bool" where
  "separate bs \<longleftrightarrow> sorted_wrt (\<lambda>a b. \<not> boxes_overlap a b) bs"

lemmas layout_boxes =
  mk_box_def box_bottom_def box_right_def box_in_header_def box_in_body_def box_on_screen_x_def boxes_overlap_def
  header_sep_box_def header_title_box_def band_text_y_def icon_wifi_box_def icon_lora_box_def icon_bars_box_def
  content_line_box_def dots_x0_def dots_box_def alert_band_box_def alert_frame_box_def alert_line_box_def
  progress_bar_box_def progress_pct_box_def msgov_from_box_def msgov_text_box_def splash_ring_r_def
  splash_ring_box_def splash_tag_box_def separate_def

text \<open>
  The screen geometry.  At both title sizes the header's title and icons stay in the header rows and on
  the screen and do not overlap; so do the separator and the icons.  Every line of a page and
  the page dots lie in the body and do not overlap, and so do the parts of each overlay: the alert
  lines, the progress bar and its percentage, the sender and text of a new message.  The
  rings of the boot splash stay in the body.
\<close>

lemma layout_consistent:
  "list_all (\<lambda>sz. list_all (\<lambda>b. box_in_header b \<and> box_on_screen_x b)
       [header_title_box sz, icon_wifi_box, icon_lora_box, icon_bars_box]
     \<and> separate [header_title_box sz, icon_wifi_box, icon_lora_box, icon_bars_box]
     \<and> list_all (\<lambda>b. box_in_body b \<and> box_on_screen_x b) [msgov_from_box sz, msgov_text_box 0, msgov_text_box 1]
     \<and> separate [msgov_from_box sz, msgov_text_box 0, msgov_text_box 1]) [1, 2]
   \<and> separate [header_sep_box, icon_wifi_box, icon_lora_box, icon_bars_box]
   \<and> list_all (\<lambda>b. box_in_body b \<and> box_on_screen_x b) (dots_box PAGE_COUNT # map content_line_box [0..CONTENT_LINES - 1])
   \<and> separate (map content_line_box [0..CONTENT_LINES - 1] @ [dots_box PAGE_COUNT])
   \<and> list_all (\<lambda>b. box_in_body b \<and> box_on_screen_x b) (map alert_line_box [0..ALERT_LINES - 1])
   \<and> separate (map alert_line_box [0..ALERT_LINES - 1])
   \<and> list_all (\<lambda>b. box_in_body b \<and> box_on_screen_x b) [progress_bar_box, progress_pct_box]
   \<and> separate [progress_bar_box, progress_pct_box]
   \<and> list_all (\<lambda>b. box_in_body b \<and> box_on_screen_x b) (splash_tag_box # map splash_ring_box [0..SPLASH_FRAMES - 1])"
  by (simp add: layout_boxes layout_consts PAGE_COUNT_def upto.simps Let_def signed_divide_int_def)

section \<open>The screen sleeps on time\<close>

text \<open>Once activity stops, ticks at the offsets \<open>ds\<close> (in order) turn the screen off at the first offset of at least
  the timeout and not before, across the wrap of the millisecond counter; the tick that turns
  it off is the only one that says so.\<close>

fun tick_run :: "SleepState \<Rightarrow> u32 list \<Rightarrow> SleepState \<times> bool list" where
  "tick_run s [] = (s, [])"
| "tick_run s (now # ts) =
     (let (s, off) = sleep_tick s now SLEEP_TIMEOUT_MS; (s, offs) = tick_run s ts in (s, off # offs))"

lemma tick_run_off: "\<not> sl_on s \<Longrightarrow> tick_run s ts = (s, map (\<lambda>_. False) ts)"
  by (induction ts) (simp_all add: sleep_tick_def)

lemma tick_at:
  assumes "last_activity s = t" "d < 2 ^ 32" "sl_on s"
  shows "sleep_tick s (t + word_of_nat d) SLEEP_TIMEOUT_MS = (if 60000 \<le> d then (s\<lparr>sl_on := False\<rparr>, True) else (s, False))"
  using assms by (simp add: sleep_tick_def SLEEP_TIMEOUT_MS_def word_le_nat_alt)

lemma sleep_on_time:
  assumes "sl_on s" "last_activity s = t" "\<forall>d \<in> set ds. d < 2 ^ 32"
    and "tick_run s (map (\<lambda>d. t + word_of_nat d) ds) = (s', offs)"
  shows "sl_on s' = list_all (\<lambda>d. d < 60000) ds
    \<and> offs = map (\<lambda>i. 60000 \<le> ds ! i \<and> list_all (\<lambda>d. d < 60000) (take i ds)) [0..<length ds]"
  using assms
proof (induction ds arbitrary: s' offs)
  case (Cons d ds)
  have "d < 2 ^ 32" using Cons.prems(3) by (simp only: list.set insert_iff simp_thms ball_simps)
  note tick = tick_at [OF Cons.prems(2) this Cons.prems(1)]
  have upt: "[0..<length (d # ds)] = 0 # map Suc [0..<length ds]" by (simp add: upt_conv_Cons map_Suc_upt del: upt_Suc)
  show ?case
  proof (cases "60000 \<le> d")
    case True
    then have "s' = s\<lparr>sl_on := False\<rparr>" "offs = True # replicate (length ds) False"
      using Cons.prems(4) True
      by (simp_all add: tick tick_run_off map_replicate_const)
    then show ?thesis using True unfolding upt by (simp add: map_replicate_const comp_def)
  next
    case False
    obtain s2 o2 where 2: "tick_run s (map (\<lambda>d. t + word_of_nat d) ds) = (s2, o2)" by fastforce
    have r: "s' = s2" "offs = False # o2" using Cons.prems(4) False by (simp_all add: tick 2)
    show ?thesis using Cons.IH [OF Cons.prems(1,2) _ 2] Cons.prems(3) False unfolding r upt by (simp add: comp_def)
  qed
qed auto

text \<open>The press that wakes the screen does nothing else, also when the hold bar of the same press woke it before.\<close>

lemma waking_press_only_wakes:
  "\<not> sl_on s \<Longrightarrow> sl_on (fst (sleep_button s btn long now)) \<and> snd (sleep_button s btn long now) = BTN_ACT_WAKE"
  by (simp add: sleep_button_def Let_def)

lemma hold_then_release_only_wakes:
  assumes "\<not> sl_on s" "d \<le> 2500"
  shows "snd (sleep_button (fst (sleep_wake_progress s t)) 1 False (t + word_of_nat d)) = BTN_ACT_WAKE"
  using assms by (simp add: sleep_wake_progress_def sleep_wake_def sleep_button_def HOLD_WAKE_WINDOW_MS_def word_le_nat_alt)

section \<open>The ring holds the newest messages\<close>

definition push_all :: "(string option \<times> string option) list \<Rightarrow> MsgRing" where
  "push_all ms = foldl (\<lambda>r (f, t). ring_push r f t) ring_init ms"

definition ring_inv :: "MsgRing \<Rightarrow> (string option \<times> string option) list \<Rightarrow> bool" where
  "ring_inv r ms \<longleftrightarrow> length (r_from r) = 5 \<and> length (r_text r) = 5
     \<and> r_head r = length ms mod 5 \<and> r_count r = min 5 (length ms) \<and> r_total r = word_of_nat (length ms)
     \<and> (\<forall>j < min 5 (length ms). r_from r ! ((length ms - 1 - j) mod 5) = safe_copy 33 (fst (rev ms ! j))
          \<and> r_text r ! ((length ms - 1 - j) mod 5) = safe_copy 97 (snd (rev ms ! j)))"

lemmas ring_consts = MSG_RING_SIZE_def MSG_FROM_LEN_def MSG_TEXT_LEN_def

lemma ring_push_fields:
  "r_from (ring_push r f t) = (r_from r)[r_head r := safe_copy 33 f]"
  "r_text (ring_push r f t) = (r_text r)[r_head r := safe_copy 97 t]"
  "r_head (ring_push r f t) = (r_head r + 1) mod 5"
  "r_count (ring_push r f t) = (if r_count r < 5 then r_count r + 1 else r_count r)"
  "r_total (ring_push r f t) = r_total r + 1"
  by (simp_all add: ring_push_def ring_consts)

lemma ring_slots_apart:
  fixes n i :: nat
  assumes "i < min 5 n" "i < 4"
  shows "(n - 1 - i) mod 5 \<noteq> n mod 5"
proof -
  obtain k where n: "n = k + i + 1" using assms(1) by (metis add.commute add.left_commute less_imp_add_positive min_less_iff_conj Suc_eq_plus1 less_iff_Suc_add)
  have "i = 0 \<or> i = 1 \<or> i = 2 \<or> i = 3" using assms(2) by linarith
  then have "k mod 5 \<noteq> (k + i + 1) mod 5" by (elim disjE) (simp_all, presburger+)
  then show ?thesis by (simp add: n)
qed

lemma ring_push_inv:
  assumes "ring_inv r ms"
  shows "ring_inv (ring_push r f t) (ms @ [(f, t)])"
proof -
  let ?ms = "ms @ [(f, t)]" and ?r = "ring_push r f t" and ?n = "length ms"
  have inv: "length (r_from r) = 5" "length (r_text r) = 5" "r_head r = ?n mod 5" "r_count r = min 5 ?n"
    "r_total r = word_of_nat ?n"
    and old: "\<And>j. j < min 5 ?n \<Longrightarrow> r_from r ! ((?n - 1 - j) mod 5) = safe_copy 33 (fst (rev ms ! j))
          \<and> r_text r ! ((?n - 1 - j) mod 5) = safe_copy 97 (snd (rev ms ! j))"
    using assms by (simp_all add: ring_inv_def)
  have slot: "r_from ?r ! ((?n - j) mod 5) = safe_copy 33 (fst (rev ?ms ! j))
      \<and> r_text ?r ! ((?n - j) mod 5) = safe_copy 97 (snd (rev ?ms ! j))" if j: "j < min 5 (?n + 1)" for j
  proof (cases j)
    case 0
    then show ?thesis by (simp add: ring_push_fields inv)
  next
    case (Suc i)
    then have i: "i < min 5 ?n" "i < 4" "?n - j = ?n - 1 - i" using j by auto
    from ring_slots_apart [OF i(1,2)] old [OF i(1)] show ?thesis
      unfolding i(3) by (simp add: ring_push_fields inv Suc)
  qed
  show ?thesis unfolding ring_inv_def
  proof (intro conjI allI impI)
    show "r_count ?r = min 5 (length ?ms)" by (simp add: ring_push_fields inv min_def)
    show "r_head ?r = length ?ms mod 5" by (simp add: ring_push_fields inv mod_Suc_eq)
    show "r_from ?r ! ((length ?ms - 1 - j) mod 5) = safe_copy 33 (fst (rev ?ms ! j))"
      "r_text ?r ! ((length ?ms - 1 - j) mod 5) = safe_copy 97 (snd (rev ?ms ! j))" if "j < min 5 (length ?ms)" for j
      using slot [of j] that by simp_all
  qed (simp_all add: ring_push_fields inv)
qed

lemma push_all_inv: "ring_inv (push_all ms) ms"
proof (induction ms rule: rev_induct)
  case Nil
  show ?case by (simp add: push_all_def ring_inv_def ring_init_def ring_consts)
next
  case (snoc m ms)
  then show ?case using ring_push_inv [of "push_all ms" ms "fst m" "snd m"] by (simp add: push_all_def split_beta)
qed

text \<open>
  C30 (ring_holds_newest). The ring of received messages (\<open>ring_push\<close>, \<open>ring_from\<close>, \<open>ring_text\<close>).  After any number of
  messages the ring shows the newest five, newest first, each with the first 32 characters
  of its sender and the first 96 of its text; any other index, negative or too large, gives
  the empty string.
\<close>

theorem ring_holds_newest:
  "ring_from (push_all ms) i =
     (if 0 \<le> i \<and> i < int (min 5 (length ms)) then safe_copy 33 (fst (rev ms ! nat i)) else [])
   \<and> ring_text (push_all ms) i =
     (if 0 \<le> i \<and> i < int (min 5 (length ms)) then safe_copy 97 (snd (rev ms ! nat i)) else [])
   \<and> (\<forall>s. safe_copy 33 (Some s) = take 32 s \<and> safe_copy 97 (Some s) = take 96 s)"
proof -
  note inv = push_all_inv [of ms, unfolded ring_inv_def]
  have slot: "ring_slot (push_all ms) i = int ((length ms - 1 - nat i) mod 5)"
    if i: "0 \<le> i" "i < int (min 5 (length ms))"
  proof -
    have "ring_slot (push_all ms) i = (int (length ms mod 5) + 4 - i) mod 5"
      using inv i by (simp add: ring_slot_def ring_consts add.commute)
    also have "\<dots> = (int (length ms) mod 5 + (4 - i)) mod 5" by (simp add: zmod_int algebra_simps)
    also have "\<dots> = (int (length ms) + (4 - i)) mod 5" by (rule mod_add_left_eq)
    also have "\<dots> = (int (length ms) - 1 - i + 5) mod 5" by (simp add: algebra_simps)
    also have "\<dots> = (int (length ms) - 1 - i) mod 5" by (rule mod_add_self2)
    also have "int (length ms) - 1 - i = int (length ms - 1 - nat i)" using i by linarith
    finally show ?thesis by (simp add: zmod_int)
  qed
  show ?thesis
  proof (cases "0 \<le> i \<and> i < int (min 5 (length ms))")
    case True
    then have n: "nat i < min 5 (length ms)" by linarith
    have s: "ring_slot (push_all ms) i = int ((length ms - 1 - nat i) mod 5)" using slot True by blast
    show ?thesis using inv n True unfolding ring_from_def ring_text_def s by (simp add: Let_def safe_copy_def)
  next
    case False
    then have "ring_slot (push_all ms) i = - 1" using inv by (auto simp: ring_slot_def)
    then show ?thesis using False by (auto simp: ring_from_def ring_text_def safe_copy_def)
  qed
qed

end
