(* ===== verification/Oled_Draw.thy ===== *)
theory Oled_Draw
  imports Oled_Layout
begin

text \<open>
  What the display shows (\<open>src/src/display/oled_display.cpp\<close>, lines 40-490): the state of the display task and, for
  every page and overlay, the drawing calls it makes on the panel's frame buffer, in order.  A text call
  carries the size and the position set just before it.  The free memory, the run time and the printing of
  the one floating point number are an environment.
\<close>

section \<open>State\<close>

definition QUEUE_DEPTH :: nat where "QUEUE_DEPTH = 12"
definition MSG_OVERLAY_MS :: u32 where "MSG_OVERLAY_MS = 2500"
definition PROGRESS_STALE_MS :: u32 where "PROGRESS_STALE_MS = 60000"
definition MIN_FRAME_MS :: u32 where "MIN_FRAME_MS = 100"
definition IDLE_TICK_MS :: u32 where "IDLE_TICK_MS = 1000"
definition BLINK_MS :: u32 where "BLINK_MS = 500"
definition LINE_CHARS :: int where "LINE_CHARS = SCREEN_W div CHAR_W"
definition LINE_BUF :: nat where "LINE_BUF = nat (LINE_CHARS + 1)"

datatype WiFiStatus = WIFI_DISCONNECTED | WIFI_CONNECTING | WIFI_CONNECTED_AP | WIFI_CONNECTED_STA

datatype LoRaStatus = LORA_IDLE | LORA_TRANSMITTING | LORA_RECEIVING | LORA_ERROR

text \<open>\<open>last_snr\<close> is the float as the sender passed it; only \<open>printf\<close> looks at it.\<close>

record UiState =
  ui_wifi :: WiFiStatus
  ui_ssid :: string
  ui_ip :: string
  ap_known :: bool
  ap_ssid :: string
  ap_pass :: string
  ap_ip :: string
  wifi_rssi :: int
  ui_lora :: LoRaStatus
  params_known :: bool
  ui_freq :: int
  ui_bw :: int
  ui_sf :: int
  rx_seen :: bool
  last_rssi :: int
  last_snr :: int
  tx_ok :: u32
  tx_fail :: u32
  ui_rx :: u32
  ui_status :: string
  ring :: MsgRing
  msg_sel :: int
  page :: u8
  alert_on :: bool
  alert_sticky :: bool
  alert_until :: u32
  alert_title :: string
  alert_text :: string
  prog_on :: bool
  prog_pct :: int
  prog_last :: u32
  prog_title :: string
  msgov_on :: bool
  msgov_until :: u32
  msgov_from :: string
  msgov_text :: string
  ui_sleep :: SleepState
  panel_on :: bool
  dirty :: bool
  last_draw :: u32

record draw_env =
  d_project :: string
  d_snr :: "int \<Rightarrow> string"
  d_heap :: u32
  d_min_heap :: u32
  d_uptime :: u64
  d_built :: string
  d_dropped :: u32

datatype draw_op =
    Clear
  | Show
  | Color bool
  | Print u8 int int string
  | FillRect int int int int
  | Rect int int int int
  | Line int int int int
  | Pixel int int
  | Circle int int int
  | UpperArc int int int

text \<open>\<open>snprintf\<close> into a buffer of \<open>n\<close> bytes.\<close>

definition snp :: "nat \<Rightarrow> string \<Rightarrow> string" where
  "snp n s = take (n - 1) s"

section \<open>Drawing helpers\<close>

definition print_at :: "int \<Rightarrow> int \<Rightarrow> string \<Rightarrow> draw_op list" where
  "print_at x y txt =
     (let fit = chars_fit (SCREEN_W - (if x < 0 then 0 else x)) 1;
          max_chars = (if LINE_CHARS > fit then fit else LINE_CHARS);
          buf = fst (truncate_ellipsis (Some txt) (Some LINE_BUF) max_chars)
      in [Print 1 (clamp_x x (text_width (Some buf) 1) SCREEN_W) y buf])"

definition print_line :: "int \<Rightarrow> string \<Rightarrow> draw_op list" where
  "print_line ln txt = print_at 0 (CONTENT_Y + ln * LINE_STEP) txt"

definition print_centered :: "int \<Rightarrow> string \<Rightarrow> u8 \<Rightarrow> draw_op list" where
  "print_centered y txt sz =
     (let buf = fst (truncate_ellipsis (Some txt) (Some LINE_BUF) (chars_fit SCREEN_W sz))
      in [Print sz (center_x (text_width (Some buf) sz) SCREEN_W) y buf])"

definition draw_band_title :: "int \<Rightarrow> int \<Rightarrow> string \<Rightarrow> draw_op list" where
  "draw_band_title x avail_px title =
     (let up = safe_copy MSG_FROM_LEN (Some title); sz = band_text_size (Some up) avail_px;
          up = (if sz \<ge> 2 then map upper_char up else up);
          buf = fst (truncate_ellipsis (Some up) (Some LINE_BUF) (chars_fit avail_px sz));
          w = text_width (Some buf) sz
      in [Print sz (if x < 0 then center_x w SCREEN_W else x) (band_text_y sz) buf])"

text \<open>Lines of a block, one under the other.\<close>

fun print_rows :: "int \<Rightarrow> int \<Rightarrow> string list \<Rightarrow> draw_op list" where
  "print_rows x y [] = []"
| "print_rows x y (l # ls) = print_at x y l @ print_rows x (y + LINE_STEP) ls"

definition draw_wrapped :: "int \<Rightarrow> int \<Rightarrow> int \<Rightarrow> int \<Rightarrow> string \<Rightarrow> draw_op list" where
  "draw_wrapped x y max_px max_lines txt =
     (let max_lines = (if max_lines > CONTENT_LINES + 1 then CONTENT_LINES + 1 else max_lines)
      in print_rows x y (wrap_text (Some txt) (chars_fit max_px 1) max_lines (Some LINE_BUF)))"

text \<open>The calls and the number of lines drawn.\<close>

definition draw_split :: "int \<Rightarrow> int \<Rightarrow> string \<Rightarrow> string \<Rightarrow> draw_op list \<times> int" where
  "draw_split ln max_lines label value =
     (let joined = snp MSG_TEXT_LEN (label @ value); max_lines = (if max_lines > 3 then 3 else max_lines);
          ls = split_lines (Some joined) LINE_CHARS max_lines (Some LINE_BUF)
      in (print_rows 0 (CONTENT_Y + ln * LINE_STEP) ls, int (length ls)))"

definition draw_cross :: "int \<Rightarrow> int \<Rightarrow> int \<Rightarrow> draw_op list" where
  "draw_cross x y n = [Line x y (x + n - 1) (y + n - 1), Line x (y + n - 1) (x + n - 1) y]"

definition draw_wifi_icon :: "WiFiStatus \<Rightarrow> u32 \<Rightarrow> draw_op list" where
  "draw_wifi_icon st now =
     (let cx = ICON_WIFI_X + ICON_WIFI_W div 2; cy = ICON_BASE_Y in
      if st = WIFI_DISCONNECTED then draw_cross (cx - 4) (ICON_BASE_Y - 8) 9
      else if st = WIFI_CONNECTING \<and> (now div BLINK_MS) mod 2 = 1 then []
      else [UpperArc cx cy 6, UpperArc cx cy 4, FillRect (cx - 1) (cy - 1) 3 2])"

definition draw_lora_icon :: "LoRaStatus \<Rightarrow> draw_op list" where
  "draw_lora_icon st =
     (let x = ICON_LORA_X; y = ICON_TOP_Y; m = ICON_LORA_X + ICON_LORA_W div 2 in
      if st = LORA_ERROR then draw_cross x (ICON_BASE_Y - 8) 9
      else
        Line m (y + 3) m ICON_BASE_Y #
        (case st of
           LORA_TRANSMITTING \<Rightarrow> [Line m y x (y + 4), Line m y (x + 8) (y + 4)]
         | LORA_RECEIVING \<Rightarrow> [Line x y m (y + 4), Line (x + 8) y m (y + 4)]
         | _ \<Rightarrow> [Line x (y + 2) m (y + 4), Line (x + 8) (y + 2) m (y + 4)]))"

definition draw_bars_slot :: "WiFiStatus \<Rightarrow> nat \<Rightarrow> draw_op list" where
  "draw_bars_slot st bars =
     (if st = WIFI_CONNECTED_AP then [Print 1 ICON_BARS_X BAND_TEXT_Y1 ''AP'']
      else
        map (\<lambda>i. let h = (int i + 1) * 3; bx = ICON_BARS_X + int i * 3 in
               if i < bars then FillRect bx (ICON_BASE_Y - h + 1) 2 h else Line bx ICON_BASE_Y (bx + 1) ICON_BASE_Y) [0..<4])"

definition draw_progress_bar :: "Box \<Rightarrow> int \<Rightarrow> draw_op list" where
  "draw_progress_bar b pct =
     (let fill = progress_fill (b_w b - 2) pct in
      Rect (b_x b) (b_y b) (b_w b) (b_h b) # (if fill > 0 then [FillRect (b_x b + 1) (b_y b + 1) fill (b_h b - 2)] else []))"

definition draw_separator :: "draw_op list" where
  "draw_separator = [Line 0 HEADER_SEP_Y (SCREEN_W - 1) HEADER_SEP_Y]"

definition draw_header :: "UiState \<Rightarrow> string \<Rightarrow> u32 \<Rightarrow> draw_op list" where
  "draw_header ui title now =
     draw_band_title 0 HEADER_TITLE_PX title @ draw_wifi_icon (ui_wifi ui) now @ draw_lora_icon (ui_lora ui)
     @ draw_bars_slot (ui_wifi ui) (if ui_wifi ui = WIFI_CONNECTED_STA then rssi_to_bars (wifi_rssi ui) else 0)
     @ draw_separator"

definition draw_page_dots :: "u8 \<Rightarrow> draw_op list" where
  "draw_page_dots pg =
     (let x0 = dots_x0 PAGE_COUNT in
      map (\<lambda>i. let cx = x0 + int i * DOTS_SPACING in
             if i = unat pg then FillRect (cx - 1) DOTS_Y 3 DOTS_H else Pixel cx (DOTS_Y + 1)) [0..<unat PAGE_COUNT])"

fun lora_state_text :: "LoRaStatus \<Rightarrow> string" where
  "lora_state_text LORA_TRANSMITTING = ''TX''"
| "lora_state_text LORA_RECEIVING = ''RX''"
| "lora_state_text LORA_ERROR = ''ERROR''"
| "lora_state_text LORA_IDLE = ''idle''"

section \<open>Pages\<close>

text \<open>\<open>or_dashes\<close>: the value, or \<open>--\<close> when there is none.  \<open>pad3\<close>: \<open>%03ld\<close>.\<close>

definition or_dashes :: "string \<Rightarrow> string" where
  "or_dashes s = (if s \<noteq> [] then s else ''--'')"

definition pad3 :: "int \<Rightarrow> string" where
  "pad3 n = (let ds = dec_nat (nat \<bar>n\<bar>); sgn = (if n < 0 then ''-'' else []) in
     sgn @ replicate (3 - length sgn - length ds) (CHR ''0'') @ ds)"

definition page_status :: "draw_env \<Rightarrow> UiState \<Rightarrow> u32 \<Rightarrow> draw_op list" where
  "page_status e ui now =
     draw_header ui (d_project e) now
     @ print_line 0 (snp 64 (case ui_wifi ui of
           WIFI_CONNECTED_AP \<Rightarrow> ''AP  '' @ ui_ssid ui
         | WIFI_CONNECTED_STA \<Rightarrow> ''STA '' @ ui_ssid ui
         | WIFI_CONNECTING \<Rightarrow> ''Joining '' @ ui_ssid ui
         | WIFI_DISCONNECTED \<Rightarrow> ''WiFi offline''))
     @ print_line 1 (snp 64 (''IP  '' @ or_dashes (ui_ip ui)))
     @ print_line 2 (snp 64 (''LoRa '' @ lora_state_text (ui_lora ui) @ ''  rx '' @ dec_nat (unat (ui_rx ui))))
     @ draw_wrapped 0 (CONTENT_Y + 3 * LINE_STEP) SCREEN_W 2 (ui_status ui)"

text \<open>Line breaks and tabs of a text shown on one line become spaces.\<close>

definition one_line :: "string \<Rightarrow> string" where
  "one_line s = map (\<lambda>c. if c = newline \<or> c = CHR 0x0D \<or> c = CHR 0x09 then CHR '' '' else c) s"

definition page_messages :: "UiState \<Rightarrow> u32 \<Rightarrow> draw_op list" where
  "page_messages ui now =
     (let r = ring ui; cnt = int (r_count r);
          title = (if msg_sel ui \<ge> 0 then snp 16 (''Msg '' @ dec_int (msg_sel ui + 1) @ ''/'' @ dec_nat (r_count r)) else ''Inbox'')
      in draw_header ui title now
         @ (if cnt = 0 then print_centered (CONTENT_Y + 2 * LINE_STEP) ''No messages'' 1
            else if msg_sel ui \<ge> 0 \<and> msg_sel ui < cnt then
              let y = CONTENT_Y in
              [FillRect 0 (y - 1) SCREEN_W LINE_STEP, Color False] @ print_at 1 y (ring_from r (msg_sel ui)) @ [Color True]
              @ draw_wrapped 0 (y + LINE_STEP) SCREEN_W (CONTENT_LINES - 1) (ring_text r (msg_sel ui))
            else
              concat (map (\<lambda>i. print_line (int i)
                  (one_line (snp (MSG_FROM_LEN + MSG_TEXT_LEN + 4) (ring_from r (int i) @ '': '' @ ring_text r (int i)))))
                [0..<min (r_count r) (nat CONTENT_LINES)])))"

definition page_lora :: "draw_env \<Rightarrow> UiState \<Rightarrow> u32 \<Rightarrow> draw_op list" where
  "page_lora e ui now =
     draw_header ui ''LoRa'' now
     @ (if params_known ui then
          print_line 0 (snp 40 (''Freq '' @ dec_int (ui_freq ui sdiv 1000000) @ ''.'' @ pad3 ((ui_freq ui sdiv 1000) smod 1000) @ '' MHz''))
          @ print_line 1 (snp 40 (''SF '' @ dec_int (ui_sf ui) @ ''   BW '' @
              snp 12 (if ui_bw ui smod 1000 = 0 then dec_int (ui_bw ui sdiv 1000) @ ''k''
                      else dec_int (ui_bw ui sdiv 1000) @ ''.'' @ dec_int ((ui_bw ui smod 1000) sdiv 100) @ ''k'')))
        else print_line 0 ''Freq --'' @ print_line 1 ''SF --   BW --'')
     @ print_line 2 (snp 40 (if rx_seen ui then ''RSSI '' @ dec_int (last_rssi ui) @ ''  SNR '' @ d_snr e (last_snr ui) else ''RSSI --  SNR --''))
     @ print_line 3 (snp 40 (''TX ok '' @ dec_nat (unat (tx_ok ui)) @ ''  fail '' @ dec_nat (unat (tx_fail ui))))
     @ print_line 4 (snp 40 (''RX '' @ dec_nat (unat (ui_rx ui)) @ ''  ('' @ lora_state_text (ui_lora ui) @ '')''))"

definition page_network :: "UiState \<Rightarrow> u32 \<Rightarrow> draw_op list" where
  "page_network ui now =
     draw_header ui ''Network'' now
     @ (case ui_wifi ui of
          WIFI_CONNECTED_AP \<Rightarrow>
            let ssid = (if ap_known ui \<and> ap_ssid ui \<noteq> [] then ap_ssid ui else ui_ssid ui);
                ip = (if ap_known ui \<and> ap_ip ui \<noteq> [] then ap_ip ui else ui_ip ui);
                (name, n) = draw_split 1 2 ''SSID '' ssid
            in print_line 0 (snp 40 (''AP   '' @ or_dashes ip)) @ name
               @ fst (draw_split (1 + n) (CONTENT_LINES - 1 - n) ''Pass '' (if ap_known ui then ap_pass ui else ''--''))
        | WIFI_CONNECTED_STA \<Rightarrow>
            print_line 0 (snp 40 (''STA  '' @ or_dashes (ui_ip ui))) @ fst (draw_split 1 2 ''SSID '' (ui_ssid ui))
            @ print_line 3 (snp 40 (if wifi_rssi ui < 0 then ''RSSI '' @ dec_int (wifi_rssi ui) @ '' dBm'' else ''RSSI --''))
        | WIFI_CONNECTING \<Rightarrow> print_line 0 ''STA  joining...'' @ fst (draw_split 1 2 ''SSID '' (ui_ssid ui))
        | WIFI_DISCONNECTED \<Rightarrow>
            print_line 0 ''WiFi offline'' @ (if ui_ssid ui \<noteq> [] then fst (draw_split 1 2 ''Last '' (ui_ssid ui)) else []))"

definition page_system :: "draw_env \<Rightarrow> UiState \<Rightarrow> u32 \<Rightarrow> draw_op list" where
  "page_system e ui now =
     draw_header ui ''System'' now
     @ print_line 0 (snp 40 (''Heap '' @ dec_nat (unat (d_heap e)) @ '' B''))
     @ print_line 1 (snp 40 (''Min  '' @ dec_nat (unat (d_min_heap e)) @ '' B''))
     @ print_line 2 (snp 40 (''Up   '' @ format_uptime (d_uptime e) (Some 24)))
     @ print_line 3 (snp 40 (''Built '' @ d_built e))
     @ print_line 4 (snp 40 (''Drops '' @ dec_nat (unat (d_dropped e))))"

section \<open>Overlays\<close>

definition overlay_alert :: "UiState \<Rightarrow> draw_op list" where
  "overlay_alert ui =
     (let band = alert_band_box; f = alert_frame_box; l0 = alert_line_box 0 in
      [FillRect (b_x band) (b_y band) (b_w band) (b_h band), Color False]
      @ draw_band_title (- 1) (SCREEN_W - 2 * OVERLAY_MARGIN) (if alert_title ui \<noteq> [] then alert_title ui else ''Alert'')
      @ [Color True, Rect (b_x f) (b_y f) (b_w f) (b_h f)]
      @ draw_wrapped (b_x l0) (b_y l0) (b_w l0) ALERT_LINES (alert_text ui))"

definition overlay_progress :: "UiState \<Rightarrow> draw_op list" where
  "overlay_progress ui =
     draw_band_title (- 1) SCREEN_W (prog_title ui) @ draw_separator
     @ draw_progress_bar progress_bar_box (prog_pct ui)
     @ print_centered PROG_PCT_Y (snp 8 (dec_int (prog_pct ui) @ ''%'')) 2"

definition overlay_message :: "UiState \<Rightarrow> draw_op list" where
  "overlay_message ui =
     (let from = (if msgov_from ui \<noteq> [] then msgov_from ui else ''?'');
          sz = (if text_width (Some from) 2 \<le> SCREEN_W - OVERLAY_MARGIN then 2 else 1); t0 = msgov_text_box 0 in
      draw_band_title (- 1) SCREEN_W ''New msg'' @ draw_separator
      @ print_centered (b_y (msgov_from_box sz)) from sz
      @ draw_wrapped (b_x t0) (b_y t0) (b_w t0) MSGOV_TEXT_LINES (one_line (safe_copy MSG_TEXT_LEN (Some (msgov_text ui)))))"

definition draw_frame :: "draw_env \<Rightarrow> UiState \<Rightarrow> u32 \<Rightarrow> draw_op list" where
  "draw_frame e ui now =
     (if alert_on ui then overlay_alert ui
      else if prog_on ui then overlay_progress ui
      else if msgov_on ui then overlay_message ui
      else
        (if page ui = 1 then page_messages ui now
         else if page ui = 2 then page_lora e ui now
         else if page ui = 3 then page_network ui now
         else if page ui = 4 then page_system e ui now
         else page_status e ui now) @ draw_page_dots (page ui))"

definition render :: "draw_env \<Rightarrow> UiState \<Rightarrow> u32 \<Rightarrow> UiState \<times> draw_op list" where
  "render e ui now =
     (ui\<lparr>last_draw := now, dirty := False\<rparr>, [Clear, Color True] @ draw_frame e ui now @ [Show])"

text \<open>The frames of the boot animation.\<close>

definition splash_frame :: "string \<Rightarrow> nat \<Rightarrow> draw_op list" where
  "splash_frame project f =
     [Clear, Color True] @ draw_band_title (- 1) SCREEN_W project @ draw_separator
     @ (let r = splash_ring_r (int f) in
        Circle SPLASH_CX SPLASH_CY r # (if f \<ge> 2 then [Circle SPLASH_CX SPLASH_CY (r - 6)] else [])) @ [Show]"

definition splash_last :: "string \<Rightarrow> draw_op list" where
  "splash_last project =
     [Clear] @ draw_band_title (- 1) SCREEN_W project @ draw_separator @ print_centered SPLASH_TAG_Y ''LoRa messenger'' 1 @ [Show]"

section \<open>Everything is drawn on the screen\<close>

text \<open>A pixel area inside the 128 x 64 panel; a text inside it leaves its last row for every glyph.\<close>

definition area_ok :: "int \<Rightarrow> int \<Rightarrow> int \<Rightarrow> int \<Rightarrow> bool" where
  "area_ok x y w h \<longleftrightarrow> 0 \<le> x \<and> 0 \<le> y \<and> x + w \<le> SCREEN_W \<and> y + h \<le> SCREEN_H"

fun on_screen :: "draw_op \<Rightarrow> bool" where
  "on_screen Clear = True"
| "on_screen Show = True"
| "on_screen (Color white) = True"
| "on_screen (Print sz x y s) = area_ok x y (int (length s) * CHAR_W * text_size sz) (CHAR_H * text_size sz)"
| "on_screen (FillRect x y w h) = (area_ok x y w h \<and> 0 < w \<and> 0 < h)"
| "on_screen (Rect x y w h) = (area_ok x y w h \<and> 0 < w \<and> 0 < h)"
| "on_screen (Line a b c d) = (area_ok a b 1 1 \<and> area_ok c d 1 1)"
| "on_screen (Pixel x y) = area_ok x y 1 1"
| "on_screen (Circle x y r) = (area_ok (x - r) (y - r) (2 * r + 1) (2 * r + 1) \<and> 0 < r)"
| "on_screen (UpperArc x y r) = (area_ok (x - r) (y - r) (2 * r + 1) (r + 1) \<and> 0 < r)"

lemma on_screen_text:
  "area_ok x y (int n * CHAR_W * text_size sz) (CHAR_H * text_size sz) \<Longrightarrow> length s = n \<Longrightarrow> on_screen (Print sz x y s)"
  by simp

lemma text_sizes [simp]: "text_size 1 = 1" "text_size 2 = 2"
  by (simp_all add: text_size_def)

text \<open>A text cut to the space it has, at either size.\<close>

lemma fitted:
  assumes "sz = 1 \<or> sz = 2" "0 \<le> px"
  shows "int (length (fst (truncate_ellipsis (Some s) (Some LINE_BUF) (chars_fit px sz)))) * CHAR_W * text_size sz \<le> px"
proof -
  obtain b cut where b: "truncate_ellipsis (Some s) (Some LINE_BUF) (chars_fit px sz) = (b, cut)" by fastforce
  have "length b \<le> nat (chars_fit px sz)" using truncate_length [OF b] by (simp add: LINE_BUF_def LINE_CHARS_def layout_consts)
  then have "int (length b) \<le> px div (6 * text_size sz)" using assms by (auto simp: chars_fit_def CHAR_W_def split: if_splits)
  then show ?thesis using assms(1) by (auto simp: b CHAR_W_def)
qed

lemma print_at_ok: "0 \<le> y \<Longrightarrow> y \<le> 56 \<Longrightarrow> list_all on_screen (print_at x y s)"
proof -
  assume y: "0 \<le> y" "y \<le> 56"
  obtain b cut where b: "truncate_ellipsis (Some s) (Some LINE_BUF)
      (if LINE_CHARS > chars_fit (SCREEN_W - (if x < 0 then 0 else x)) 1 then chars_fit (SCREEN_W - (if x < 0 then 0 else x)) 1 else LINE_CHARS) = (b, cut)"
    by fastforce
  have "length b \<le> 21" using truncate_length [OF b] by (simp add: LINE_BUF_def LINE_CHARS_def layout_consts)
  then have "int (length b) * 6 < 128" by simp
  then show ?thesis using y
    by (simp only: print_at_def Let_def b fst_conv) (auto simp: area_ok_def clamp_x_def text_width_def safe_len_def layout_consts)
qed

lemma print_line_ok: "0 \<le> ln \<Longrightarrow> ln \<le> 4 \<Longrightarrow> list_all on_screen (print_line ln s)"
  unfolding print_line_def by (rule print_at_ok) (simp_all add: layout_consts)

lemma centered:
  assumes "0 \<le> w" "w \<le> SCREEN_W"
  shows "0 \<le> center_x w SCREEN_W \<and> center_x w SCREEN_W + w \<le> SCREEN_W"
  using assms by (auto simp: center_x_def layout_consts)

lemma print_centered_ok:
  assumes "sz = 1 \<or> sz = 2" "0 \<le> y" "y \<le> 48"
  shows "list_all on_screen (print_centered y s sz)"
proof -
  define b where "b = fst (truncate_ellipsis (Some s) (Some LINE_BUF) (chars_fit SCREEN_W sz))"
  have "int (length b) * CHAR_W * text_size sz \<le> SCREEN_W" unfolding b_def by (rule fitted [OF assms(1)]) (simp add: layout_consts)
  moreover have "0 \<le> int (length b) * CHAR_W * text_size sz" using assms(1) by (auto simp: layout_consts)
  ultimately have "area_ok (center_x (text_width (Some b) sz) SCREEN_W) y (int (length b) * CHAR_W * text_size sz) (CHAR_H * text_size sz)"
    using centered [of "int (length b) * CHAR_W * text_size sz"] assms
    by (auto simp: area_ok_def text_width_def safe_len_def layout_consts)
  then show ?thesis by (simp add: print_centered_def b_def [symmetric])
qed

lemma band_title_ok:
  assumes "x < 0 \<or> x = 0" "0 \<le> px" "px \<le> SCREEN_W"
  shows "list_all on_screen (draw_band_title x px title)"
proof -
  define up where "up = safe_copy MSG_FROM_LEN (Some title)"
  define sz where "sz = band_text_size (Some up) px"
  define up2 where "up2 = (if sz \<ge> 2 then map upper_char up else up)"
  define b where "b = fst (truncate_ellipsis (Some up2) (Some LINE_BUF) (chars_fit px sz))"
  have sz: "sz = 1 \<or> sz = 2" by (simp add: sz_def band_text_size_def)
  have w: "int (length b) * CHAR_W * text_size sz \<le> px" unfolding b_def by (rule fitted [OF sz assms(2)])
  have w0: "0 \<le> int (length b) * CHAR_W * text_size sz" using sz by (auto simp: layout_consts)
  have tw: "text_width (Some b) sz = int (length b) * CHAR_W * text_size sz" by (simp add: text_width_def safe_len_def)
  have "0 \<le> band_text_y sz \<and> band_text_y sz + CHAR_H * text_size sz \<le> SCREEN_H"
    using sz by (auto simp: band_text_y_def layout_consts)
  moreover have "0 \<le> (if x < 0 then center_x (text_width (Some b) sz) SCREEN_W else x)
      \<and> (if x < 0 then center_x (text_width (Some b) sz) SCREEN_W else x) + int (length b) * CHAR_W * text_size sz \<le> SCREEN_W"
    using centered [OF w0] w assms by (auto simp: tw)
  ultimately have "on_screen (Print sz (if x < 0 then center_x (text_width (Some b) sz) SCREEN_W else x) (band_text_y sz) b)"
    by (simp add: area_ok_def)
  then show ?thesis by (simp add: draw_band_title_def up_def [symmetric] sz_def [symmetric] up2_def [symmetric] b_def [symmetric] Let_def split: if_splits)
qed

lemma print_rows_ok: "0 \<le> y \<Longrightarrow> y + 9 * int (length ls) \<le> 65 \<Longrightarrow> list_all on_screen (print_rows x y ls)"
proof (induction ls arbitrary: y)
  case (Cons l ls)
  have "list_all on_screen (print_at x y l)" using Cons.prems by (intro print_at_ok) simp_all
  moreover have "list_all on_screen (print_rows x (y + LINE_STEP) ls)" using Cons.prems by (intro Cons.IH) (simp_all add: LINE_STEP_def)
  ultimately show ?case by simp
qed simp

lemma wrap_text_count: "length (wrap_text txt mc lines stride) \<le> nat lines"
proof (cases "stride = None \<or> the stride < 2 \<or> lines \<le> 0 \<or> mc \<le> 0 \<or> txt = None")
  case False
  then obtain st p where st: "stride = Some st" "txt = Some p" "2 \<le> st" "0 < lines" "0 < mc" by auto
  obtain ls rest where l: "wrap_loop (min (nat mc) (st - 1)) (nat lines) p = (ls, rest)" by fastforce
  have "length ls \<le> nat lines" using wrap_loop_text [OF l] by simp
  then show ?thesis by (simp only: st(1,2) wrap_text_eq [OF st(3-5)] l prod.case) auto
next
  case True
  then show ?thesis by (auto simp: wrap_text_def Let_def split: option.splits)
qed

lemma draw_wrapped_ok:
  assumes "0 \<le> y" "0 \<le> lines" "y + 9 * lines \<le> 65"
  shows "list_all on_screen (draw_wrapped x y px lines s)"
proof -
  have "int (length (wrap_text (Some s) (chars_fit px 1) (if lines > CONTENT_LINES + 1 then CONTENT_LINES + 1 else lines) (Some LINE_BUF))) \<le> lines"
    using wrap_text_count [of "Some s" "chars_fit px 1" "if lines > CONTENT_LINES + 1 then CONTENT_LINES + 1 else lines" "Some LINE_BUF"] assms
    by (auto split: if_splits)
  then show ?thesis unfolding draw_wrapped_def Let_def by (intro print_rows_ok assms) (use assms in linarith)
qed

lemma split_count: "int (length (split_lines (Some s) LINE_CHARS n (Some LINE_BUF))) \<le> (if n < 0 then 0 else n)"
proof (cases "0 < n")
  case True
  then show ?thesis using split_lines_text(1) [of LINE_BUF n LINE_CHARS "nat LINE_CHARS" s]
    by (simp add: LINE_BUF_def LINE_CHARS_def layout_consts)
next
  case False
  then show ?thesis by (simp add: split_lines_def)
qed

lemma draw_split_ok:
  assumes "0 \<le> ln" "0 \<le> lines" "ln + lines \<le> 5"
  shows "list_all on_screen (fst (draw_split ln lines label v)) \<and> 0 \<le> snd (draw_split ln lines label v) \<and> snd (draw_split ln lines label v) \<le> lines"
proof -
  define ls where "ls = split_lines (Some (snp MSG_TEXT_LEN (label @ v))) LINE_CHARS (if lines > 3 then 3 else lines) (Some LINE_BUF)"
  have n: "int (length ls) \<le> lines" using split_count [of "snp MSG_TEXT_LEN (label @ v)" "if lines > 3 then 3 else lines"] assms(2)
    by (auto simp: ls_def split: if_splits)
  have "list_all on_screen (print_rows 0 (CONTENT_Y + ln * LINE_STEP) ls)"
    using assms n by (intro print_rows_ok) (simp_all add: layout_consts)
  then show ?thesis using n by (simp add: draw_split_def ls_def [symmetric] Let_def)
qed

lemma icons_ok: "list_all on_screen (draw_wifi_icon w now)" "list_all on_screen (draw_lora_icon l)" "list_all on_screen (draw_bars_slot w bars)"
  "list_all on_screen draw_separator" "list_all on_screen (draw_page_dots pg)"
proof -
  show "list_all on_screen (draw_wifi_icon w now)"
    by (simp add: draw_wifi_icon_def draw_cross_def area_ok_def layout_consts Let_def)
  show "list_all on_screen (draw_lora_icon l)"
    by (cases l) (simp_all add: draw_lora_icon_def draw_cross_def area_ok_def layout_consts Let_def)
  show "list_all on_screen (draw_bars_slot w bars)"
    by (auto simp: draw_bars_slot_def area_ok_def layout_consts Let_def list_all_iff)
  show "list_all on_screen draw_separator" by (simp add: draw_separator_def area_ok_def layout_consts)
  show "list_all on_screen (draw_page_dots pg)"
  proof -
    have x0: "dots_x0 PAGE_COUNT = 51" by (simp add: dots_x0_def PAGE_COUNT_def layout_consts signed_divide_int_def)
    have "on_screen (if c then FillRect (51 + int i * DOTS_SPACING - 1) DOTS_Y 3 DOTS_H else Pixel (51 + int i * DOTS_SPACING) (DOTS_Y + 1))"
      if "i < 5" for i c using that by (simp add: area_ok_def layout_consts)
    then have "list_all (\<lambda>i. on_screen (if i = unat pg then FillRect (51 + int i * DOTS_SPACING - 1) DOTS_Y 3 DOTS_H
        else Pixel (51 + int i * DOTS_SPACING) (DOTS_Y + 1))) [0..<5]"
      unfolding list_all_iff by (metis atLeastLessThan_iff atLeastLessThan_upt)
    moreover have "unat PAGE_COUNT = 5" by (simp add: PAGE_COUNT_def)
    ultimately show ?thesis unfolding draw_page_dots_def x0 Let_def list.pred_map comp_def by metis
  qed
qed

lemma header_ok: "list_all on_screen (draw_header ui title now)"
proof -
  have "list_all on_screen (draw_band_title 0 HEADER_TITLE_PX title)" by (rule band_title_ok) (simp_all add: layout_consts)
  then show ?thesis by (simp add: draw_header_def icons_ok)
qed

lemmas row_ok = header_ok icons_ok print_line_ok

lemma pages_ok:
  "list_all on_screen (page_status e ui now)" "list_all on_screen (page_messages ui now)" "list_all on_screen (page_lora e ui now)"
  "list_all on_screen (page_network ui now)" "list_all on_screen (page_system e ui now)"
proof -
  have "list_all on_screen (draw_wrapped 0 (CONTENT_Y + 3 * LINE_STEP) SCREEN_W 2 s)" for s
    by (rule draw_wrapped_ok) (simp_all add: layout_consts)
  then show "list_all on_screen (page_status e ui now)" unfolding page_status_def by (simp add: row_ok)
  show "list_all on_screen (page_lora e ui now)" unfolding page_lora_def by (simp add: row_ok)
  show "list_all on_screen (page_system e ui now)" unfolding page_system_def by (simp add: row_ok)
  have cen: "list_all on_screen (print_centered (CONTENT_Y + 2 * LINE_STEP) ''No messages'' 1)"
    by (rule print_centered_ok) (simp_all add: layout_consts)
  have bar: "list_all on_screen (FillRect 0 (CONTENT_Y - 1) SCREEN_W LINE_STEP # Color False # print_at 1 CONTENT_Y s @ [Color True])" for s
    using print_at_ok [of CONTENT_Y 1 s] by (simp add: area_ok_def layout_consts)
  have wrapped: "list_all on_screen (draw_wrapped 0 (CONTENT_Y + LINE_STEP) SCREEN_W (CONTENT_LINES - 1) s)" for s
    by (rule draw_wrapped_ok) (simp_all add: layout_consts)
  have rows: "list_all on_screen (concat (map (\<lambda>i. print_line (int i) (f i)) [0..<min n (nat CONTENT_LINES)]))" for f n
  proof -
    have "list_all on_screen (print_line (int i) (f i))" if "i < min n (nat CONTENT_LINES)" for i
      using that by (intro print_line_ok) (simp_all add: layout_consts)
    then show ?thesis by (auto simp: list_all_iff)
  qed
  show "list_all on_screen (page_messages ui now)"
    unfolding page_messages_def Let_def using bar wrapped by (simp add: header_ok cen rows del: upt_Suc)
  have split: "list_all on_screen (fst (draw_split 1 2 label v))" for label v using draw_split_ok [of 1 2 label v] by simp
  show "list_all on_screen (page_network ui now)"
  proof (cases "ui_wifi ui")
    case WIFI_CONNECTED_AP
    define ssid where "ssid = (if ap_known ui \<and> ap_ssid ui \<noteq> [] then ap_ssid ui else ui_ssid ui)"
    obtain nm n where n: "draw_split 1 2 ''SSID '' ssid = (nm, n)" by fastforce
    have ok: "list_all on_screen nm" "0 \<le> n" "n \<le> 2" using draw_split_ok [of 1 2 "''SSID ''" ssid] by (simp_all add: n)
    have "list_all on_screen (fst (draw_split (1 + n) (CONTENT_LINES - 1 - n) ''Pass '' v))" for v
      using draw_split_ok [of "1 + n" "CONTENT_LINES - 1 - n" "''Pass ''" v] ok by (simp add: layout_consts)
    then show ?thesis using ok n by (simp add: page_network_def WIFI_CONNECTED_AP row_ok Let_def ssid_def [symmetric])
  qed (simp_all add: page_network_def row_ok split)
qed

lemma overlays_ok: "list_all on_screen (overlay_alert ui)" "list_all on_screen (overlay_progress ui)" "list_all on_screen (overlay_message ui)"
proof -
  have band: "list_all on_screen (draw_band_title (- 1) SCREEN_W s)" "list_all on_screen (draw_band_title (- 1) (SCREEN_W - 2 * OVERLAY_MARGIN) s)" for s
    by (rule band_title_ok; simp add: layout_consts)+
  have "list_all on_screen (draw_wrapped (b_x (alert_line_box 0)) (b_y (alert_line_box 0)) (b_w (alert_line_box 0)) ALERT_LINES s)" for s
    by (rule draw_wrapped_ok) (simp_all add: layout_consts alert_line_box_def mk_box_def)
  then show "list_all on_screen (overlay_alert ui)"
    using band by (simp add: overlay_alert_def Let_def) (simp add: area_ok_def alert_band_box_def alert_frame_box_def mk_box_def layout_consts)
  have "list_all on_screen (draw_progress_bar progress_bar_box pct)" for pct
    using progress_fill_bounds [of "b_w progress_bar_box - 2" pct]
    by (auto simp: draw_progress_bar_def area_ok_def progress_bar_box_def mk_box_def layout_consts Let_def)
  moreover have "list_all on_screen (print_centered PROG_PCT_Y s 2)" for s by (rule print_centered_ok) (simp_all add: layout_consts)
  ultimately show "list_all on_screen (overlay_progress ui)" using band by (simp add: overlay_progress_def icons_ok)
  have "list_all on_screen (draw_wrapped (b_x (msgov_text_box 0)) (b_y (msgov_text_box 0)) (b_w (msgov_text_box 0)) MSGOV_TEXT_LINES s)" for s
    by (rule draw_wrapped_ok) (simp_all add: layout_consts msgov_text_box_def mk_box_def)
  moreover have "list_all on_screen (print_centered (b_y (msgov_from_box sz)) s sz)" if "sz = 1 \<or> sz = 2" for s sz
    using that by (intro print_centered_ok) (auto simp: layout_consts msgov_from_box_def mk_box_def)
  ultimately show "list_all on_screen (overlay_message ui)" using band by (simp add: overlay_message_def icons_ok Let_def)
qed


end
