(* ===== verification/Oled_Task.thy ===== *)
theory Oled_Task
  imports Oled_Draw
begin

text \<open>
  The display task (\<open>src/src/display/oled_display.cpp\<close>): the messages the other tasks post, what each
  does to the state, buttons, timers and sleep, when a frame is drawn and how long the task may
  sleep.  The queue, the clock and the panel are an environment; the frames are those of
  \<open>Oled_Draw\<close>.
\<close>

section \<open>Messages\<close>

datatype OledCmd =
    CMD_WIFI | CMD_AP | CMD_WIFI_RSSI | CMD_LORA | CMD_LORA_PKT | CMD_LORA_PARAMS | CMD_MESSAGE | CMD_ALERT | CMD_PROGRESS | CMD_BUTTON | CMD_STATUS

record OledMsg =
  om_cmd :: OledCmd
  om_u8 :: u8
  om_b0 :: bool
  om_b1 :: bool
  om_i0 :: int
  om_i1 :: int
  om_i2 :: int
  om_f :: int
  om_ms :: u32
  om_s0 :: string
  om_s1 :: string
  om_s2 :: string
  om_s3 :: string

text \<open>The task's queue (\<open>None\<close> when there is no panel) and the number of messages lost.\<close>

record OledIo =
  s_queue :: "OledMsg list option"
  s_dropped :: u32

definition api_ready :: "bool \<Rightarrow> OledIo \<Rightarrow> bool" where
  "api_ready in_isr io \<longleftrightarrow> s_queue io \<noteq> None \<and> \<not> in_isr"

definition post :: "OledIo \<Rightarrow> OledMsg \<Rightarrow> OledIo" where
  "post io m =
     (case s_queue io of
        None \<Rightarrow> io
      | Some q \<Rightarrow> if length q < QUEUE_DEPTH then io\<lparr>s_queue := Some (q @ [m])\<rparr> else io\<lparr>s_dropped := s_dropped io + 1\<rparr>)"

definition msg_init :: "OledCmd \<Rightarrow> OledMsg" where
  "msg_init c = \<lparr>om_cmd = c, om_u8 = 0, om_b0 = False, om_b1 = False, om_i0 = 0, om_i1 = 0, om_i2 = 0, om_f = 0, om_ms = 0,
     om_s0 = [], om_s1 = [], om_s2 = [], om_s3 = []\<rparr>"

text \<open>An enumeration value in the byte of the message and back.\<close>

fun wifi_code :: "WiFiStatus \<Rightarrow> u8" where
  "wifi_code WIFI_DISCONNECTED = 0"
| "wifi_code WIFI_CONNECTING = 1"
| "wifi_code WIFI_CONNECTED_AP = 2"
| "wifi_code WIFI_CONNECTED_STA = 3"

definition wifi_of_code :: "u8 \<Rightarrow> WiFiStatus" where
  "wifi_of_code n = (if n = 1 then WIFI_CONNECTING else if n = 2 then WIFI_CONNECTED_AP else if n = 3 then WIFI_CONNECTED_STA else WIFI_DISCONNECTED)"

fun lora_code :: "LoRaStatus \<Rightarrow> u8" where
  "lora_code LORA_IDLE = 0"
| "lora_code LORA_TRANSMITTING = 1"
| "lora_code LORA_RECEIVING = 2"
| "lora_code LORA_ERROR = 3"

definition lora_of_code :: "u8 \<Rightarrow> LoRaStatus" where
  "lora_of_code n = (if n = 1 then LORA_TRANSMITTING else if n = 2 then LORA_RECEIVING else if n = 3 then LORA_ERROR else LORA_IDLE)"

lemma status_codes [simp]: "wifi_of_code (wifi_code w) = w" "lora_of_code (lora_code l) = l"
  by (cases w; simp add: wifi_of_code_def) (cases l; simp add: lora_of_code_def)

definition oled_set_wifi :: "bool \<Rightarrow> OledIo \<Rightarrow> WiFiStatus \<Rightarrow> string option \<Rightarrow> string option \<Rightarrow> OledIo" where
  "oled_set_wifi isr io s ssid ip =
     (if \<not> api_ready isr io then io
      else post io ((msg_init CMD_WIFI)\<lparr>om_u8 := wifi_code s, om_b0 := (ssid \<noteq> None), om_b1 := (ip \<noteq> None),
             om_s0 := safe_copy MSG_FROM_LEN ssid, om_s3 := safe_copy 16 ip\<rparr>))"

definition oled_set_ap :: "bool \<Rightarrow> OledIo \<Rightarrow> string option \<Rightarrow> string option \<Rightarrow> string option \<Rightarrow> OledIo" where
  "oled_set_ap isr io ssid pass ip =
     (if \<not> api_ready isr io then io
      else post io ((msg_init CMD_AP)\<lparr>om_s0 := safe_copy MSG_FROM_LEN ssid, om_s2 := safe_copy 65 pass, om_s3 := safe_copy 16 ip\<rparr>))"

definition oled_set_wifi_rssi :: "bool \<Rightarrow> OledIo \<Rightarrow> int \<Rightarrow> OledIo" where
  "oled_set_wifi_rssi isr io rssi = (if \<not> api_ready isr io then io else post io ((msg_init CMD_WIFI_RSSI)\<lparr>om_i0 := rssi\<rparr>))"

definition oled_set_lora :: "bool \<Rightarrow> OledIo \<Rightarrow> LoRaStatus \<Rightarrow> OledIo" where
  "oled_set_lora isr io s = (if \<not> api_ready isr io then io else post io ((msg_init CMD_LORA)\<lparr>om_u8 := lora_code s\<rparr>))"

definition oled_lora_packet :: "bool \<Rightarrow> OledIo \<Rightarrow> bool \<Rightarrow> bool \<Rightarrow> int \<Rightarrow> int \<Rightarrow> OledIo" where
  "oled_lora_packet isr io tx ok rssi snr =
     (if \<not> api_ready isr io then io
      else post io ((msg_init CMD_LORA_PKT)\<lparr>om_b0 := tx, om_b1 := ok, om_i0 := rssi, om_f := snr\<rparr>))"

definition oled_set_lora_params :: "bool \<Rightarrow> OledIo \<Rightarrow> int \<Rightarrow> int \<Rightarrow> int \<Rightarrow> OledIo" where
  "oled_set_lora_params isr io freq sf bw =
     (if \<not> api_ready isr io then io else post io ((msg_init CMD_LORA_PARAMS)\<lparr>om_i0 := freq, om_i1 := sf, om_i2 := bw\<rparr>))"

definition oled_message :: "bool \<Rightarrow> OledIo \<Rightarrow> string option \<Rightarrow> string option \<Rightarrow> OledIo" where
  "oled_message isr io from txt =
     (if \<not> api_ready isr io then io
      else post io ((msg_init CMD_MESSAGE)\<lparr>om_s0 := safe_copy MSG_FROM_LEN from, om_s1 := safe_copy MSG_TEXT_LEN txt\<rparr>))"

definition oled_alert :: "bool \<Rightarrow> OledIo \<Rightarrow> string option \<Rightarrow> string option \<Rightarrow> u32 \<Rightarrow> OledIo" where
  "oled_alert isr io title txt ms =
     (if \<not> api_ready isr io then io
      else post io ((msg_init CMD_ALERT)\<lparr>om_ms := ms, om_s0 := safe_copy MSG_FROM_LEN title, om_s1 := safe_copy MSG_TEXT_LEN txt\<rparr>))"

definition oled_progress :: "bool \<Rightarrow> OledIo \<Rightarrow> string option \<Rightarrow> u8 \<Rightarrow> OledIo" where
  "oled_progress isr io title pct =
     (if \<not> api_ready isr io then io else post io ((msg_init CMD_PROGRESS)\<lparr>om_u8 := pct, om_s0 := safe_copy MSG_FROM_LEN title\<rparr>))"

definition oled_button :: "bool \<Rightarrow> OledIo \<Rightarrow> u8 \<Rightarrow> bool \<Rightarrow> OledIo" where
  "oled_button isr io btn long_press =
     (if \<not> api_ready isr io then io else post io ((msg_init CMD_BUTTON)\<lparr>om_u8 := btn, om_b1 := long_press\<rparr>))"

definition oled_status :: "bool \<Rightarrow> OledIo \<Rightarrow> string option \<Rightarrow> OledIo" where
  "oled_status isr io txt =
     (if \<not> api_ready isr io then io else post io ((msg_init CMD_STATUS)\<lparr>om_s1 := safe_copy MSG_TEXT_LEN txt\<rparr>))"

section \<open>Applying a message\<close>

definition ui_init :: UiState where
  "ui_init = \<lparr>ui_wifi = WIFI_DISCONNECTED, ui_ssid = [], ui_ip = [], ap_known = False, ap_ssid = [], ap_pass = [], ap_ip = [],
     wifi_rssi = 0, ui_lora = LORA_IDLE, params_known = False, ui_freq = 0, ui_bw = 0, ui_sf = 0, rx_seen = False, last_rssi = 0,
     last_snr = 0, tx_ok = 0, tx_fail = 0, ui_rx = 0, ui_status = [], ring = ring_init, msg_sel = - 1, page = 0,
     alert_on = False, alert_sticky = False, alert_until = 0, alert_title = [], alert_text = [],
     prog_on = False, prog_pct = 0, prog_last = 0, prog_title = [],
     msgov_on = False, msgov_until = 0, msgov_from = [], msgov_text = [],
     ui_sleep = \<lparr>sl_on = False, last_activity = 0, hold_wake = False, hold_wake_at = 0\<rparr>, panel_on = True, dirty = False, last_draw = 0\<rparr>"

text \<open>\<open>safe_copy\<close> into a buffer of \<open>n\<close> bytes, then \<open>ascii_fold\<close>.\<close>

definition folded :: "nat \<Rightarrow> string \<Rightarrow> string" where
  "folded n s = fold_loop False (safe_copy n (Some s))"

definition land_on_messages :: "UiState \<Rightarrow> UiState" where
  "land_on_messages ui = ui\<lparr>msgov_on := False, page := 1, msg_sel := (if r_count (ring ui) > 0 then 0 else - 1)\<rparr>"

definition handle_button :: "OledMsg \<Rightarrow> u32 \<Rightarrow> UiState \<Rightarrow> UiState" where
  "handle_button m now ui =
     (let (sl, act) = sleep_button (ui_sleep ui) (om_u8 m) (om_b1 m) now; ui = ui\<lparr>ui_sleep := sl\<rparr> in
      case act of
        BTN_ACT_NEXT_PAGE \<Rightarrow>
          if alert_on ui then ui\<lparr>alert_on := False\<rparr>
          else if msgov_on ui then land_on_messages ui
          else ui\<lparr>page := next_page (page ui) PAGE_COUNT, msg_sel := - 1\<rparr>
      | BTN_ACT_BTN1 \<Rightarrow>
          if alert_on ui then ui\<lparr>alert_on := False\<rparr>
          else if msgov_on ui then land_on_messages ui
          else if page ui = 1 then ui\<lparr>msg_sel := msg_select_next (msg_sel ui) (word_of_nat (r_count (ring ui)))\<rparr> else ui
      | _ \<Rightarrow> ui)"

definition ring_fold :: "MsgRing \<Rightarrow> MsgRing" where
  "ring_fold r =
     (let k = nat (ring_slot r 0) in
      r\<lparr>r_from := (r_from r)[k := fold_loop False (r_from r ! k)], r_text := (r_text r)[k := fold_loop False (r_text r ! k)]\<rparr>)"

text \<open>The new state, and whether it must be redrawn (the early returns of the code do not set \<open>dirty\<close>).\<close>

definition apply_cmd :: "OledMsg \<Rightarrow> u32 \<Rightarrow> UiState \<Rightarrow> UiState \<times> bool" where
  "apply_cmd m now ui =
     (case om_cmd m of
        CMD_WIFI \<Rightarrow>
          (let ui = ui\<lparr>ui_wifi := wifi_of_code (om_u8 m)\<rparr>;
               ui = (if om_b0 m then ui\<lparr>ui_ssid := folded MSG_FROM_LEN (om_s0 m)\<rparr> else ui)
           in (if om_b1 m then ui\<lparr>ui_ip := safe_copy 16 (Some (om_s3 m))\<rparr> else ui, True))
      | CMD_AP \<Rightarrow>
          (ui\<lparr>ap_known := True, ap_ssid := folded MSG_FROM_LEN (om_s0 m), ap_pass := safe_copy 65 (Some (om_s2 m)),
              ap_ip := safe_copy 16 (Some (om_s3 m))\<rparr>, True)
      | CMD_WIFI_RSSI \<Rightarrow> if wifi_rssi ui = om_i0 m then (ui, False) else (ui\<lparr>wifi_rssi := om_i0 m\<rparr>, True)
      | CMD_LORA \<Rightarrow> if ui_lora ui = lora_of_code (om_u8 m) then (ui, False) else (ui\<lparr>ui_lora := lora_of_code (om_u8 m)\<rparr>, True)
      | CMD_LORA_PKT \<Rightarrow>
          (if om_b0 m then (if om_b1 m then ui\<lparr>tx_ok := tx_ok ui + 1\<rparr> else ui\<lparr>tx_fail := tx_fail ui + 1\<rparr>)
           else ui\<lparr>ui_rx := ui_rx ui + 1, rx_seen := True, last_rssi := om_i0 m, last_snr := om_f m\<rparr>, True)
      | CMD_LORA_PARAMS \<Rightarrow> (ui\<lparr>params_known := True, ui_freq := om_i0 m, ui_sf := om_i1 m, ui_bw := om_i2 m\<rparr>, True)
      | CMD_MESSAGE \<Rightarrow>
          (ui\<lparr>ring := ring_fold (ring_push (ring ui) (Some (om_s0 m)) (Some (om_s1 m))),
              msg_sel := (if msg_sel ui \<ge> 0 then 0 else msg_sel ui),
              msgov_on := True, msgov_until := now + MSG_OVERLAY_MS,
              msgov_from := folded MSG_FROM_LEN (om_s0 m), msgov_text := folded MSG_TEXT_LEN (om_s1 m),
              ui_sleep := fst (sleep_wake (ui_sleep ui) now)\<rparr>, True)
      | CMD_ALERT \<Rightarrow>
          (ui\<lparr>alert_on := True, alert_sticky := (om_ms m = 0), alert_until := now + om_ms m,
              alert_title := folded MSG_FROM_LEN (om_s0 m), alert_text := folded MSG_TEXT_LEN (om_s1 m),
              ui_sleep := fst (sleep_wake (ui_sleep ui) now)\<rparr>, True)
      | CMD_PROGRESS \<Rightarrow>
          if om_u8 m = PROGRESS_HIDE then (if \<not> prog_on ui then (ui, False) else (ui\<lparr>prog_on := False\<rparr>, True))
          else
            let pct = clamp_pct (uint (om_u8 m)); unchanged = (prog_on ui \<and> prog_pct ui = pct \<and> prog_title ui = om_s0 m) in
            (ui\<lparr>prog_on := True, prog_pct := pct, prog_last := now, prog_title := folded MSG_FROM_LEN (om_s0 m),
                ui_sleep := fst (sleep_wake_progress (ui_sleep ui) now)\<rparr>, \<not> unchanged)
      | CMD_BUTTON \<Rightarrow> (handle_button m now ui, True)
      | CMD_STATUS \<Rightarrow> if ui_status ui = om_s1 m then (ui, False) else (ui\<lparr>ui_status := folded MSG_TEXT_LEN (om_s1 m)\<rparr>, True))"

definition apply_msg :: "OledMsg \<Rightarrow> u32 \<Rightarrow> UiState \<Rightarrow> UiState" where
  "apply_msg m now ui = (let (ui, changed) = apply_cmd m now ui in if changed then ui\<lparr>dirty := True\<rparr> else ui)"

section \<open>Timers, sleep and frames\<close>

datatype panel_event = PanelPower bool | Frame u32 "draw_op list"

definition expire :: "u32 \<Rightarrow> UiState \<Rightarrow> UiState" where
  "expire now ui =
     (let ui = (if alert_on ui \<and> \<not> alert_sticky ui \<and> sint (now - alert_until ui) \<ge> 0 then ui\<lparr>alert_on := False, dirty := True\<rparr> else ui);
          ui = (if msgov_on ui \<and> sint (now - msgov_until ui) \<ge> 0 then (land_on_messages ui)\<lparr>dirty := True\<rparr> else ui)
      in if prog_on ui \<and> now - prog_last ui \<ge> PROGRESS_STALE_MS then ui\<lparr>prog_on := False, dirty := True\<rparr> else ui)"

definition service :: "draw_env \<Rightarrow> u32 \<Rightarrow> UiState \<Rightarrow> UiState \<times> panel_event list" where
  "service e now ui =
     (let ui = expire now ui;
          ui = (if alert_on ui \<or> prog_on ui then ui\<lparr>ui_sleep := (ui_sleep ui)\<lparr>last_activity := now\<rparr>\<rparr> else ui);
          ui = ui\<lparr>ui_sleep := fst (sleep_tick (ui_sleep ui) now SLEEP_TIMEOUT_MS)\<rparr>;
          power = sl_on (ui_sleep ui);
          (ui, evs) =
            (if power \<noteq> panel_on ui
             then (ui\<lparr>panel_on := power, dirty := (if power then True else dirty ui)\<rparr>, [PanelPower power])
             else (ui, []))
      in if \<not> panel_on ui then (ui, evs)
         else
           let since = now - last_draw ui; overlay = (alert_on ui \<or> prog_on ui \<or> msgov_on ui);
               tick = (\<not> overlay \<and> page ui = 4 \<and> since \<ge> IDLE_TICK_MS);
               blink = (\<not> overlay \<and> ui_wifi ui = WIFI_CONNECTING \<and> since \<ge> BLINK_MS) in
           if (dirty ui \<and> since \<ge> MIN_FRAME_MS) \<or> tick \<or> blink
           then (let (ui, ops) = render e ui now in (ui, evs @ [Frame now ops])) else (ui, evs))"

definition time_left :: "u32 \<Rightarrow> u32 \<Rightarrow> u32" where
  "time_left until now = (let left = sint (until - now) in if left < 0 then 0 else word_of_int left)"

definition next_wait_ms :: "u32 \<Rightarrow> UiState \<Rightarrow> u32" where
  "next_wait_ms now ui =
     (let w = (if ui_wifi ui = WIFI_CONNECTING then BLINK_MS else IDLE_TICK_MS);
          w = (if dirty ui \<and> panel_on ui then
                 let since = now - last_draw ui; left = (if since \<ge> MIN_FRAME_MS then 0 else MIN_FRAME_MS - since) in
                 if left < w then left else w
               else w);
          w = (if alert_on ui \<and> \<not> alert_sticky ui then min (time_left (alert_until ui) now) w else w)
      in if msgov_on ui then min (time_left (msgov_until ui) now) w else w)"

text \<open>The messages taken in one turn of the task, each with the time at which it is applied.\<close>

definition apply_all :: "(OledMsg \<times> u32) list \<Rightarrow> UiState \<Rightarrow> UiState" where
  "apply_all ms ui = foldl (\<lambda>ui (m, t). apply_msg m t ui) ui ms"

text \<open>\<open>boot_animation\<close> applies the messages that arrive between its frames; then the loop starts.\<close>

definition display_task_start :: "(OledMsg \<times> u32) list \<Rightarrow> u32 \<Rightarrow> UiState \<Rightarrow> UiState" where
  "display_task_start ms now ui =
     (let ui = apply_all ms ui in ui\<lparr>ui_sleep := sleep_init now, dirty := True, last_draw := now - MIN_FRAME_MS\<rparr>)"

definition boot_frames :: "string \<Rightarrow> draw_op list list" where
  "boot_frames project = map (splash_frame project) [0..<nat SPLASH_FRAMES] @ [splash_last project]"

definition display_task_step :: "draw_env \<Rightarrow> (OledMsg \<times> u32) list \<Rightarrow> u32 \<Rightarrow> UiState \<Rightarrow> UiState \<times> panel_event list" where
  "display_task_step e ms now ui = service e now (apply_all ms ui)"

record oled_boot_env =
  b_wire :: bool
  b_panel :: bool
  b_display :: bool
  b_queue :: bool
  b_task :: bool

definition init_oled :: "oled_boot_env \<Rightarrow> OledIo \<times> UiState \<Rightarrow> OledIo \<times> UiState" where
  "init_oled e st =
     (let (io, ui) = st in
      if s_queue io \<noteq> None then st
      else if \<not> b_wire e \<or> \<not> b_panel e \<or> \<not> b_display e then st
      else
        let ui = ui_init in
        if \<not> b_queue e \<or> \<not> b_task e then (io, ui) else (io\<lparr>s_queue := Some []\<rparr>, ui))"

section \<open>The state stays well-formed\<close>

definition printable :: "char \<Rightarrow> bool" where
  "printable c \<longleftrightarrow> (of_char c :: nat) < 0x7F \<and> ((of_char c :: nat) \<ge> 0x20 \<or> c = newline)"

definition text_ok :: "nat \<Rightarrow> string \<Rightarrow> bool" where
  "text_ok n s \<longleftrightarrow> length s < n \<and> list_all printable s"

definition ring_ok :: "MsgRing \<Rightarrow> bool" where
  "ring_ok r \<longleftrightarrow> length (r_from r) = MSG_RING_SIZE \<and> length (r_text r) = MSG_RING_SIZE \<and> r_head r < MSG_RING_SIZE \<and> r_count r \<le> MSG_RING_SIZE
     \<and> list_all (text_ok MSG_FROM_LEN) (r_from r) \<and> list_all (text_ok MSG_TEXT_LEN) (r_text r)"

definition select_ok :: "UiState \<Rightarrow> bool" where
  "select_ok ui \<longleftrightarrow> - 1 \<le> msg_sel ui \<and> msg_sel ui < int (r_count (ring ui)) \<and> page ui < PAGE_COUNT"

text \<open>What the pages and overlays show is printable ASCII inside its buffer, a selected message exists, and so does the page.\<close>

definition ui_ok :: "UiState \<Rightarrow> bool" where
  "ui_ok ui \<longleftrightarrow> ring_ok (ring ui) \<and> select_ok ui \<and> 0 \<le> prog_pct ui \<and> prog_pct ui \<le> 100
     \<and> text_ok MSG_FROM_LEN (ui_ssid ui) \<and> text_ok MSG_FROM_LEN (ap_ssid ui) \<and> length (ap_pass ui) < 65 \<and> length (ui_ip ui) < 16
     \<and> length (ap_ip ui) < 16 \<and> text_ok MSG_TEXT_LEN (ui_status ui) \<and> text_ok MSG_FROM_LEN (alert_title ui)
     \<and> text_ok MSG_TEXT_LEN (alert_text ui) \<and> text_ok MSG_FROM_LEN (prog_title ui) \<and> text_ok MSG_FROM_LEN (msgov_from ui)
     \<and> text_ok MSG_TEXT_LEN (msgov_text ui)"

lemma fold_loop_length: "length (fold_loop q s) \<le> length s"
  by (induction q s rule: fold_loop.induct) (auto simp: Let_def)

lemma folded_ok [simp]: "0 < n \<Longrightarrow> text_ok n (folded n s)"
  using fold_loop_length [of False "safe_copy n (Some s)"] fold_loop_printable [of False "safe_copy n (Some s)"]
  by (auto simp: text_ok_def folded_def list_all_iff printable_def safe_copy_def)

lemma buffer_lens [simp]: "0 < MSG_FROM_LEN" "0 < MSG_TEXT_LEN" "text_ok MSG_FROM_LEN []" "text_ok MSG_TEXT_LEN []"
  by (simp_all add: MSG_FROM_LEN_def MSG_TEXT_LEN_def text_ok_def)

lemma safe_copy_len [simp]: "0 < n \<Longrightarrow> length (safe_copy n s) < n"
  by (cases s) (auto simp: safe_copy_def)

lemma newest_slot:
  assumes "ring_ok r"
  shows "nat (ring_slot (ring_push r f t) 0) = r_head r"
proof -
  have "r_count (ring_push r f t) > 0" "r_head (ring_push r f t) = (r_head r + 1) mod 5"
    by (simp_all add: ring_push_def MSG_RING_SIZE_def)
  then have "ring_slot (ring_push r f t) 0 = (int ((r_head r + 1) mod 5) + 4) mod 5" by (simp add: ring_slot_def MSG_RING_SIZE_def add.commute)
  moreover have "r_head r \<in> {0, 1, 2, 3, 4}" using assms by (auto simp: ring_ok_def MSG_RING_SIZE_def)
  ultimately show ?thesis by auto
qed

lemma fold_frame:
  "r_head (ring_fold (ring_push r f t)) = (r_head r + 1) mod MSG_RING_SIZE"
  "r_count (ring_fold (ring_push r f t)) = (if r_count r < MSG_RING_SIZE then r_count r + 1 else r_count r)"
  "length (r_from (ring_fold (ring_push r f t))) = length (r_from r)" "length (r_text (ring_fold (ring_push r f t))) = length (r_text r)"
  by (simp_all add: ring_fold_def ring_push_def Let_def)

lemma push_fold_texts:
  assumes "ring_ok r"
  shows "r_from (ring_fold (ring_push r (Some f) (Some t))) = (r_from r)[r_head r := folded MSG_FROM_LEN f]"
    and "r_text (ring_fold (ring_push r (Some f) (Some t))) = (r_text r)[r_head r := folded MSG_TEXT_LEN t]"
proof -
  have h: "r_head r < length (r_from r)" "r_head r < length (r_text r)" using assms by (simp_all add: ring_ok_def)
  have p: "r_from (ring_push r (Some f) (Some t)) = (r_from r)[r_head r := safe_copy MSG_FROM_LEN (Some f)]"
    "r_text (ring_push r (Some f) (Some t)) = (r_text r)[r_head r := safe_copy MSG_TEXT_LEN (Some t)]"
    by (simp_all add: ring_push_def)
  show "r_from (ring_fold (ring_push r (Some f) (Some t))) = (r_from r)[r_head r := folded MSG_FROM_LEN f]"
    and "r_text (ring_fold (ring_push r (Some f) (Some t))) = (r_text r)[r_head r := folded MSG_TEXT_LEN t]"
    using h by (simp_all add: ring_fold_def newest_slot [OF assms] Let_def p folded_def)
qed

lemma list_all_update: "list_all P xs \<Longrightarrow> P y \<Longrightarrow> list_all P (xs[i := y])"
  unfolding list_all_iff by (metis insertE set_update_subset_insert subsetD)

lemma push_fold_ok: "ring_ok r \<Longrightarrow> ring_ok (ring_fold (ring_push r (Some f) (Some t)))"
  unfolding ring_ok_def fold_frame push_fold_texts [unfolded ring_ok_def]
  by (auto simp: push_fold_texts [unfolded ring_ok_def] list_all_update MSG_RING_SIZE_def)

lemma select_next_ok:
  assumes "n \<le> 5" "- 1 \<le> s" "s < int n"
  shows "- 1 \<le> msg_select_next s (word_of_nat n) \<and> msg_select_next s (word_of_nat n) < int n"
proof -
  have u: "uint (word_of_nat n :: u8) = int n" using assms(1) by (simp add: unsigned_of_nat take_bit_nat_eq_self)
  have "sint (word_of_int (s + 1) :: u8) = s + 1" if "s + 1 < int n"
  proof -
    have "s + 1 \<in> {0, 1, 2, 3, 4}" using that assms by auto
    then show ?thesis by (elim insertE emptyE) simp_all
  qed
  then show ?thesis using assms by (auto simp: msg_select_next_def u)
qed

lemma next_page_ok: "next_page p PAGE_COUNT < PAGE_COUNT"
proof -
  have "unat (next_page p PAGE_COUNT) < 5"
    by (simp add: next_page_def PAGE_COUNT_def unat_of_nat)
  then show ?thesis by (simp add: word_less_nat_alt PAGE_COUNT_def)
qed

lemmas ui_parts = ui_ok_def select_ok_def

lemma land_ok: "ui_ok ui \<Longrightarrow> ui_ok (land_on_messages ui)"
  by (auto simp: ui_parts land_on_messages_def PAGE_COUNT_def)

lemma sleep_ui_ok [simp]: "ui_ok (ui\<lparr>ui_sleep := sl\<rparr>) = ui_ok ui" "ui_ok (ui\<lparr>dirty := d\<rparr>) = ui_ok ui" "ui_ok (ui\<lparr>alert_on := d\<rparr>) = ui_ok ui"
  "ui_ok (ui\<lparr>prog_on := d\<rparr>) = ui_ok ui" "ui_ok (ui\<lparr>panel_on := d\<rparr>) = ui_ok ui" "ui_ok (ui\<lparr>last_draw := ld\<rparr>) = ui_ok ui"
  by (simp_all add: ui_parts)

lemma button_ok:
  assumes "ui_ok ui"
  shows "ui_ok (handle_button m now ui)"
proof -
  obtain sl act where s: "sleep_button (ui_sleep ui) (om_u8 m) (om_b1 m) now = (sl, act)" by fastforce
  define u where "u = ui\<lparr>ui_sleep := sl\<rparr>"
  have u: "ui_ok u" using assms by (simp add: u_def)
  then have "r_count (ring u) \<le> 5" "- 1 \<le> msg_sel u" "msg_sel u < int (r_count (ring u))"
    by (simp_all add: ui_parts ring_ok_def MSG_RING_SIZE_def)
  note sel = select_next_ok [OF this]
  have 1: "ui_ok (u\<lparr>msg_sel := msg_select_next (msg_sel u) (word_of_nat (r_count (ring u)))\<rparr>)"
    using u sel by (simp add: ui_parts)
  have 2: "ui_ok (u\<lparr>page := next_page (page u) PAGE_COUNT, msg_sel := - 1\<rparr>)"
    using u next_page_ok by (simp add: ui_parts)
  show ?thesis
    unfolding handle_button_def s Let_def prod.case u_def [symmetric]
    using u 1 2 land_ok [OF u] by (cases act) simp_all
qed

lemma apply_cmd_ok:
  assumes "ui_ok ui"
  shows "ui_ok (fst (apply_cmd m now ui))"
proof (cases "om_cmd m")
  case CMD_MESSAGE
  have "ring_ok (ring ui)" using assms by (simp add: ui_ok_def)
  note r = push_fold_ok [OF this] fold_frame(2) [of "ring ui"]
  show ?thesis using assms r by (auto simp: apply_cmd_def CMD_MESSAGE ui_parts MSG_RING_SIZE_def)
next
  case CMD_PROGRESS
  have "0 \<le> clamp_pct (uint (om_u8 m)) \<and> clamp_pct (uint (om_u8 m)) \<le> 100" by (simp add: clamp_pct_def)
  then show ?thesis using assms by (auto simp: apply_cmd_def CMD_PROGRESS ui_parts Let_def)
qed (use assms button_ok in \<open>auto simp: apply_cmd_def ui_parts Let_def\<close>)

lemma apply_msg_ok: "ui_ok ui \<Longrightarrow> ui_ok (apply_msg m now ui)"
  using apply_cmd_ok [of ui m now] by (auto simp: apply_msg_def split: prod.splits)

lemma expire_ok: "ui_ok ui \<Longrightarrow> ui_ok (expire now ui)"
  by (auto simp: expire_def Let_def land_ok)

lemma service_ok: "ui_ok ui \<Longrightarrow> ui_ok (fst (service e now ui))"
  using expire_ok [of ui now] by (auto simp: service_def render_def Let_def)

lemma init_ok: "ui_ok ui_init"
  by (simp add: ui_parts ui_init_def ring_init_def ring_ok_def MSG_RING_SIZE_def PAGE_COUNT_def MSG_FROM_LEN_def MSG_TEXT_LEN_def text_ok_def list_all_iff)

section \<open>Runs of the task\<close>

text \<open>The loop of the task as the messages it applies and the times at which it looks after timers and frames.\<close>

datatype ui_event = UiMsg OledMsg u32 | UiService draw_env u32

fun ui_run :: "ui_event list \<Rightarrow> UiState \<Rightarrow> UiState \<times> panel_event list" where
  "ui_run [] ui = (ui, [])"
| "ui_run (UiMsg m t # es) ui = ui_run es (apply_msg m t ui)"
| "ui_run (UiService e now # es) ui =
     (let (ui, evs) = service e now ui; (ui, evs') = ui_run es ui in (ui, evs @ evs'))"

fun frame_times :: "panel_event list \<Rightarrow> u32 list" where
  "frame_times [] = []"
| "frame_times (Frame t ops # es) = t # frame_times es"
| "frame_times (PanelPower on # es) = frame_times es"

fun paced :: "u32 list \<Rightarrow> bool" where
  "paced (a # b # ts) = (b - a \<ge> MIN_FRAME_MS \<and> paced (b # ts))"
| "paced _ = True"

lemma frame_times_append [simp]: "frame_times (a @ b) = frame_times a @ frame_times b"
  by (induction a rule: frame_times.induct) simp_all

lemma last_draw_kept [simp]: "last_draw (land_on_messages ui) = last_draw ui" "last_draw (expire now ui) = last_draw ui"
  "last_draw (handle_button m now ui) = last_draw ui"
  by (simp_all add: land_on_messages_def expire_def handle_button_def Let_def split: prod.split ButtonAction.split)

lemma apply_last_draw [simp]: "last_draw (apply_msg m now ui) = last_draw ui"
proof -
  have "last_draw (fst (apply_cmd m now ui)) = last_draw ui" by (cases "om_cmd m") (simp_all add: apply_cmd_def Let_def)
  then show ?thesis by (auto simp: apply_msg_def split: prod.splits)
qed

lemma service_frames:
  assumes "service e now ui = (ui', evs)"
  shows "frame_times evs = [] \<and> last_draw ui' = last_draw ui \<or>
    frame_times evs = [now] \<and> last_draw ui' = now \<and> now - last_draw ui \<ge> MIN_FRAME_MS"
proof -
  have less: "IDLE_TICK_MS \<le> x \<Longrightarrow> MIN_FRAME_MS \<le> x" "BLINK_MS \<le> x \<Longrightarrow> MIN_FRAME_MS \<le> x" for x
    by (simp_all add: IDLE_TICK_MS_def BLINK_MS_def MIN_FRAME_MS_def word_le_nat_alt)
  show ?thesis using assms
    by (auto simp: service_def render_def Let_def less split: if_splits)
qed

lemma ui_run_paced:
  "ui_run es ui = (ui', evs) \<Longrightarrow> paced (last_draw ui # frame_times evs)"
proof (induction es ui arbitrary: ui' evs rule: ui_run.induct)
  case (2 m t es ui)
  then show ?case by auto
next
  case (3 e now es ui)
  obtain u1 ev1 where 1: "service e now ui = (u1, ev1)" by fastforce
  obtain ev2 where 2: "ui_run es u1 = (ui', ev2)" "evs = ev1 @ ev2" using "3.prems" 1 by (auto split: prod.splits)
  have "paced (last_draw u1 # frame_times ev2)" using "3.IH" [OF 1 [symmetric] refl] 2(1) 1 by simp
  then show ?case using service_frames [OF 1] 2(2) by auto
qed simp

lemma ui_run_ok: "ui_ok ui \<Longrightarrow> ui_ok (fst (ui_run es ui))"
proof (induction es ui rule: ui_run.induct)
  case (3 e now es ui)
  then show ?case using service_ok [of ui e now] by (auto simp: Let_def split: prod.splits)
qed (simp_all add: apply_msg_ok)

lemma start_ok: "ui_ok (display_task_start ms now ui_init)"
proof -
  have "ui_ok (apply_all ms ui)" if "ui_ok ui" for ui
    using that by (induction ms arbitrary: ui) (auto simp: apply_all_def apply_msg_ok)
  then show ?thesis using init_ok by (simp add: display_task_start_def)
qed


section \<open>Alerts are shown\<close>

definition alert_pending :: "u32 \<Rightarrow> UiState \<Rightarrow> bool" where
  "alert_pending now ui \<longleftrightarrow> alert_on ui \<and> sl_on (ui_sleep ui) \<and> (alert_sticky ui \<or> sint (now - alert_until ui) < 0)"

lemma expire_pending:
  "alert_pending now ui \<Longrightarrow> alert_on (expire now ui) \<and> alert_sticky (expire now ui) = alert_sticky ui \<and> alert_until (expire now ui) = alert_until ui
     \<and> ui_sleep (expire now ui) = ui_sleep ui \<and> panel_on (expire now ui) = panel_on ui \<and> (dirty ui \<longrightarrow> dirty (expire now ui))"
  by (auto simp: alert_pending_def expire_def land_on_messages_def Let_def)


text \<open>A sleeping display with its frames in the past.\<close>

definition sample_alert :: OledMsg where
  "sample_alert = (msg_init CMD_ALERT)\<lparr>om_ms := 5000, om_s0 := ''SOS'', om_s1 := ''Ada''\<rparr>"

definition sample_draw_env :: draw_env where
  "sample_draw_env = \<lparr>d_project = ''Voyager'', d_snr = (\<lambda>n. []), d_heap = 0, d_min_heap = 0, d_uptime = 0, d_built = [], d_dropped = 0\<rparr>"


end
