(* ===== verification/Boot.thy ===== *)
theory Boot
  imports System Oled_Task
begin

text \<open>
  Start-up: \<open>setup\<close> of \<open>src/src/core/main.cpp\<close> with the functions it calls to bring the system up
  (\<open>config_lora\<close>, \<open>start_serial_bridge\<close>, \<open>setupTasks\<close>, \<open>config_gpios\<close>), the name services, the LED
  and the restart task.  \<open>setup\<close> is a list of statements in the order of the source; a statement
  goes on, stops this task for good after an alert, or is still waiting when the fuel of the loop
  is used up.  What exists and what was started is read off the trace of events.  Which of the
  allocations, tasks and drivers succeed is the environment \<open>boot_env\<close>.
\<close>

section \<open>Resources, tasks and events\<close>

datatype resource =
    SendQueue | RecvQueue | DebugQueue | SerialTxQueue | SerialRxQueue | RadioMutex | AckQueue | FsMutex | NetQueue

datatype boot_task =
    T_debugger_print | T_led_notifier | T_buttons | T_get_heap_info | T_get_wifi_rssi | T_config_wifi | T_lora_rx |
    T_LoRa_sendRaw | T_manage_recv_queue | T_net_writer | T_send_to_serial | T_send_to_lora | T_serial_to_lora | T_define_api

datatype pin_mode = PinOutput | PinInput | PinInputPulldown | PinInputPullup

datatype boot_event =
    Made resource
  | Started boot_task
  | RadioInterrupt
  | RadioBegun
  | WifiCallbacks
  | SerialBegin nat
  | FatalLine string string
  | OledStatus string
  | OledAlert string string u32
  | OledLora LoRaStatus
  | Logged string
  | PinMode int pin_mode
  | PinLow int

record Boot =
  bt_fs :: "FsLock \<times> files"
  bt_sys :: SysState
  bt_radio :: RadioState
  bt_oled :: "OledIo \<times> UiState"
  bt_seq :: u8
  bt_node :: u16
  bt_trace :: "boot_event list"

record boot_env =
  queue_made :: "resource \<Rightarrow> bool"
  task_made :: "boot_task \<Rightarrow> bool"
  oled_found :: oled_boot_env
  mounts :: bool
  flash :: files
  read_env :: fs_env
  setup_id :: nat
  core :: core_env
  mac6 :: bytes
  random32 :: u32
  radio_begins :: bool
  radio_free :: bool
  clock :: "nat \<Rightarrow> u32"
  wifi_up :: "nat \<Rightarrow> bool"
  state_high :: bool
  pin_led :: int
  pin_btn1 :: int
  pin_btn2 :: int
  bt_compiled :: bool

datatype outcome = Running Boot | Halted Boot | Waiting Boot

definition emit :: "boot_event \<Rightarrow> Boot \<Rightarrow> Boot" where
  "emit ev b = b\<lparr>bt_trace := bt_trace b @ [ev]\<rparr>"

text \<open>A statement that cannot fail, and statements one after the other.\<close>

definition act :: "(Boot \<Rightarrow> Boot) \<Rightarrow> Boot \<Rightarrow> outcome" where
  "act f b = Running (f b)"

fun run :: "(Boot \<Rightarrow> outcome) list \<Rightarrow> Boot \<Rightarrow> outcome" where
  "run [] b = Running b"
| "run (f # fs) b = (case f b of Running b \<Rightarrow> run fs b | Halted h \<Rightarrow> Halted h | Waiting w \<Rightarrow> Waiting w)"

section \<open>Stopping\<close>

text \<open>\<open>halt\<close> and \<open>halt_boot\<close> end in a loop that only sleeps.\<close>

definition halt :: "string \<Rightarrow> string \<Rightarrow> Boot \<Rightarrow> outcome" where
  "halt title txt b = Halted (emit (OledAlert title txt 0) (emit (FatalLine title txt) b))"

definition halt_boot :: "string \<Rightarrow> Boot \<Rightarrow> outcome" where
  "halt_boot txt b = Halted (emit (OledAlert ''Boot error'' txt 0) (emit (FatalLine ''Boot error'' txt) b))"

definition lora_fatal :: "string \<Rightarrow> Boot \<Rightarrow> outcome" where
  "lora_fatal msg b =
     Halted (emit (OledAlert ''LoRa error'' msg 0) (emit (OledLora LORA_ERROR) (emit (Logged (''ERROR: '' @ msg)) b)))"

text \<open>The depths of the queues are constants of \<open>System\<close>; here only matters whether the allocation succeeds.\<close>

definition create_queue :: "boot_env \<Rightarrow> resource \<Rightarrow> string \<Rightarrow> Boot \<Rightarrow> outcome" where
  "create_queue e q name b = (if queue_made e q then Running (emit (Made q) b) else halt ''Boot error'' name b)"

definition create_task :: "boot_env \<Rightarrow> boot_task \<Rightarrow> string \<Rightarrow> Boot \<Rightarrow> outcome" where
  "create_task e t name b = (if task_made e t then Running (emit (Started t) b) else halt ''Boot error'' name b)"

section \<open>Pins and tasks\<close>

definition config_button_pin :: "boot_env \<Rightarrow> int \<Rightarrow> Boot \<Rightarrow> Boot" where
  "config_button_pin e p =
     emit (PinMode p (if p \<ge> 34 \<and> p \<le> 39 then PinInput else if state_high e then PinInputPulldown else PinInputPullup))"

definition config_gpios :: "boot_env \<Rightarrow> Boot \<Rightarrow> Boot" where
  "config_gpios e b =
     config_button_pin e (pin_btn2 e) (config_button_pin e (pin_btn1 e) (emit (PinLow (pin_led e)) (emit (PinMode (pin_led e) PinOutput) b)))"

text \<open>A task the system can do without: a failure is only logged.\<close>

definition try_task :: "boot_env \<Rightarrow> boot_task \<Rightarrow> string \<Rightarrow> Boot \<Rightarrow> outcome" where
  "try_task e t msg b = Running (emit (if task_made e t then Started t else Logged msg) b)"

definition need_task :: "boot_env \<Rightarrow> boot_task \<Rightarrow> string \<Rightarrow> Boot \<Rightarrow> outcome" where
  "need_task e t txt b = (if task_made e t then Running (emit (Started t) b) else halt_boot txt b)"

definition setupTasks :: "boot_env \<Rightarrow> Boot \<Rightarrow> outcome" where
  "setupTasks e = run
     [try_task e T_led_notifier ''led task create failed'',
      need_task e T_buttons ''button task'',
      try_task e T_get_heap_info ''heap task create failed'',
      try_task e T_get_wifi_rssi ''rssi task create failed'']"

section \<open>The radio\<close>

definition make_radio_objects :: "boot_env \<Rightarrow> Boot \<Rightarrow> outcome" where
  "make_radio_objects e b =
     (let b = (if queue_made e RadioMutex then emit (Made RadioMutex) b else b);
          b = (if queue_made e AckQueue then emit (Made AckQueue) b else b) in
      if \<not> queue_made e RadioMutex \<or> \<not> queue_made e AckQueue then lora_fatal ''LoRa: out of memory'' b else Running b)"

definition begin_radio :: "boot_env \<Rightarrow> Boot \<Rightarrow> outcome" where
  "begin_radio e b = (if \<not> radio_begins e then lora_fatal ''LoRa init failed, check wiring'' b else Running (emit RadioBegun b))"

text \<open>The three tasks of the radio, the later ones only when the earlier ones could be created.\<close>

definition start_radio_tasks :: "boot_env \<Rightarrow> Boot \<Rightarrow> outcome" where
  "start_radio_tasks e b =
     (if \<not> task_made e T_lora_rx then lora_fatal ''LoRa: task create failed'' b
      else let b = emit (Started T_lora_rx) b in
      if \<not> task_made e T_LoRa_sendRaw then lora_fatal ''LoRa: task create failed'' b
      else let b = emit (Started T_LoRa_sendRaw) b in
      if \<not> task_made e T_manage_recv_queue then lora_fatal ''LoRa: task create failed'' b
      else Running (emit (Started T_manage_recv_queue) b))"

definition boot_read :: "boot_env \<Rightarrow> Boot \<Rightarrow> string \<Rightarrow> string option" where
  "boot_read e b p = (case read_file (read_env e) (setup_id e) (bt_fs b) (Some p) of (_, ok, c) \<Rightarrow> if ok then Some c else None)"

definition load_radio_config :: "'v json_api \<Rightarrow> (rat \<Rightarrow> int) \<Rightarrow> boot_env \<Rightarrow> Boot \<Rightarrow> Boot" where
  "load_radio_config J ub e b = b\<lparr>bt_radio := fst (set_lora_parameters J ub (boot_read e b) (radio_free e) (bt_radio b))\<rparr>"

definition config_lora :: "'v json_api \<Rightarrow> (rat \<Rightarrow> int) \<Rightarrow> boot_env \<Rightarrow> Boot \<Rightarrow> outcome" where
  "config_lora J ub e = run
     [act (emit (Logged ''Configuring LORA'')),
      make_radio_objects e,
      act (\<lambda>b. b\<lparr>bt_seq := ucast (random32 e), bt_node := net_node_id (mac6 e)\<rparr>),
      begin_radio e,
      act (load_radio_config J ub e),
      start_radio_tasks e,
      act (emit RadioInterrupt),
      act (emit (OledLora LORA_RECEIVING))]"

section \<open>The serial bridge\<close>

definition boot_net_init :: "boot_env \<Rightarrow> Boot \<Rightarrow> Boot" where
  "boot_net_init e b =
     (if s_rx_q (sys_net (bt_sys b)) \<noteq> None then b
      else
        let q = queue_made e NetQueue;
            b = b\<lparr>bt_sys := (bt_sys b)\<lparr>sys_net := net_init (sys_net (bt_sys b)) q\<rparr>\<rparr>;
            b = (if q then emit (Made NetQueue) b else b) in
        if q \<and> task_made e T_net_writer then emit (Started T_net_writer) b
        else emit (Logged ''LoRa network: init failed'') b)"

definition start_serial_bridge :: "boot_env \<Rightarrow> Boot \<Rightarrow> outcome" where
  "start_serial_bridge e = run
     [act (boot_net_init e),
      need_task e T_send_to_serial ''serial rx task'',
      need_task e T_send_to_lora ''serial tx task'',
      need_task e T_serial_to_lora ''serial in task'']"

section \<open>Waiting for the network\<close>

text \<open>Turn \<open>k\<close> of the loop, at time \<open>clock e k\<close>; the number of the turn in which it ends.\<close>

fun wait_wifi :: "boot_env \<Rightarrow> nat \<Rightarrow> nat \<Rightarrow> nat option" where
  "wait_wifi e 0 k = None"
| "wait_wifi e (Suc fuel) k =
     (if \<not> wifi_up e k \<and> clock e k - clock e 0 < WIFI_WAIT_MS then wait_wifi e fuel (Suc k) else Some k)"

definition WAIT_FUEL :: nat where "WAIT_FUEL = 451"

definition wait_for_network :: "boot_env \<Rightarrow> Boot \<Rightarrow> outcome" where
  "wait_for_network e b =
     (case wait_wifi e WAIT_FUEL 0 of
        None \<Rightarrow> Waiting b
      | Some k \<Rightarrow> Running (if \<not> wifi_up e k then emit (Logged ''WiFi setup still pending, starting API anyway'') b else b))"

section \<open>The whole start-up\<close>

definition mount_storage :: "boot_env \<Rightarrow> Boot \<Rightarrow> Boot" where
  "mount_storage e b =
     (let l = fs_lock_init (queue_made e FsMutex) (fst (bt_fs b));
          b = (if queue_made e FsMutex then emit (Made FsMutex) b else b);
          b = b\<lparr>bt_fs := (l\<lparr>fs_mounted := mounts e\<rparr>, if mounts e then flash e else snd (bt_fs b))\<rparr> in
      if \<not> mounts e
      then emit (OledAlert ''Storage error'' ''FS mount failed, OTA to recover'' 10000) (emit (Logged ''LittleFS Mount Failed'') b)
      else b)"

definition boot_lora_serial :: "'v json_api \<Rightarrow> boot_env \<Rightarrow> Boot \<Rightarrow> Boot" where
  "boot_lora_serial J e b = b\<lparr>bt_sys := get_lora_serial J (boot_read e b) (bt_sys b)\<rparr>"

definition boot_username :: "'v json_api \<Rightarrow> boot_env \<Rightarrow> Boot \<Rightarrow> Boot" where
  "boot_username J e b = b\<lparr>bt_sys := load_username J (boot_read e b) (core e) (bt_sys b)\<rparr>"

definition bool_text :: "bool \<Rightarrow> string" where
  "bool_text x = (if x then ''true'' else ''false'')"

definition init_bt_serial :: "'v json_api \<Rightarrow> boot_env \<Rightarrow> Boot \<Rightarrow> Boot" where
  "init_bt_serial J e b =
     (if bt_compiled e then
        let (st, cfg) = get_bt_config J (mac_address (core e)) (read_env e) (setup_id e) (bt_fs b) in
        emit (Logged ''Bluetooth available but not started (use enable_bt command)'')
          (emit (Logged (''BT config: name='' @ bt_name cfg @ '' enabled='' @ bool_text (bt_enabled cfg))) (b\<lparr>bt_fs := st\<rparr>))
      else emit (Logged ''Bluetooth support not compiled (VOYAGER_BT_ENABLED not defined)'') b)"

definition setup_steps :: "'v json_api \<Rightarrow> (rat \<Rightarrow> int) \<Rightarrow> boot_env \<Rightarrow> (Boot \<Rightarrow> outcome) list" where
  "setup_steps J ub e =
     [act (emit (SerialBegin 4096)),
      act (\<lambda>b. b\<lparr>bt_oled := init_oled (oled_found e) (bt_oled b)\<rparr>),
      act (emit (OledStatus ''Booting'')),
      create_queue e SendQueue ''send queue'',
      create_queue e RecvQueue ''recv queue'',
      create_queue e DebugQueue ''debug queue'',
      create_queue e SerialTxQueue ''serial tx queue'',
      create_queue e SerialRxQueue ''serial rx queue'',
      create_task e T_debugger_print ''debugger_print'',
      act (emit (OledStatus ''Mounting storage'')),
      act (mount_storage e),
      act (config_gpios e),
      act (boot_lora_serial J e),
      act (boot_username J e),
      act (init_bt_serial J e),
      setupTasks e,
      act (emit (OledStatus ''Starting WiFi'')),
      act (emit WifiCallbacks),
      create_task e T_config_wifi ''config_wifi'',
      act (emit (OledStatus ''Starting LoRa'')),
      config_lora J ub e,
      start_serial_bridge e,
      wait_for_network e,
      create_task e T_define_api ''define_api'',
      act (emit (Logged ''config done'')),
      act (emit (OledStatus ''Ready''))]"

text \<open>The state at power-on, from the initial values of the variables.\<close>

definition power_on :: Boot where
  "power_on =
     \<lparr>bt_fs = (\<lparr>fs_mounted = False, fs_mutex = None\<rparr>, Map.empty),
      bt_sys = \<lparr>lora_serial = False, s_username = [], sys_net = NetState_init\<rparr>,
      bt_radio = \<lparr>s_cfg = default_config, s_ack_airtime_ms = 0, radio_log = []\<rparr>,
      bt_oled = (\<lparr>s_queue = None, s_dropped = 0\<rparr>, ui_init),
      bt_seq = 0, bt_node = 0, bt_trace = []\<rparr>"

definition boot_setup :: "'v json_api \<Rightarrow> (rat \<Rightarrow> int) \<Rightarrow> boot_env \<Rightarrow> outcome" where
  "boot_setup J ub e = run (setup_steps J ub e) power_on"

section \<open>What runs has what it uses\<close>

text \<open>The queues and the lock each task works with (some of its functions also test for a missing queue).\<close>

fun uses :: "boot_task \<Rightarrow> resource set" where
  "uses T_debugger_print = {DebugQueue}"
| "uses T_buttons = {SendQueue}"
| "uses T_lora_rx = {RadioMutex, AckQueue, RecvQueue, SerialRxQueue}"
| "uses T_LoRa_sendRaw = {SendQueue, RadioMutex, AckQueue}"
| "uses T_manage_recv_queue = {RecvQueue}"
| "uses T_net_writer = {NetQueue}"
| "uses T_send_to_serial = {SerialRxQueue}"
| "uses T_send_to_lora = {SerialTxQueue, RadioMutex}"
| "uses T_serial_to_lora = {SerialTxQueue, SendQueue}"
| "uses T_define_api = {SendQueue, RadioMutex}"
| "uses _ = {}"

fun made :: "boot_event list \<Rightarrow> resource set" where
  "made [] = {}"
| "made (Made r # es) = insert r (made es)"
| "made (_ # es) = made es"

fun started :: "boot_event list \<Rightarrow> boot_task set" where
  "started [] = {}"
| "started (Started t # es) = insert t (started es)"
| "started (_ # es) = started es"

text \<open>A trace in which every task starts when all it uses exists, and the radio interrupt comes when the
  task it wakes is there.  \<open>R\<close> and \<open>T\<close>: what exists and runs before.\<close>

fun in_order :: "resource set \<Rightarrow> boot_task set \<Rightarrow> boot_event list \<Rightarrow> bool" where
  "in_order R T [] = True"
| "in_order R T (Made r # es) = in_order (insert r R) T es"
| "in_order R T (Started t # es) = (uses t \<subseteq> R \<and> in_order R (insert t T) es)"
| "in_order R T (RadioInterrupt # es) = (T_lora_rx \<in> T \<and> in_order R T es)"
| "in_order R T (_ # es) = in_order R T es"

lemma made_append [simp]: "made (xs @ ys) = made xs \<union> made ys"
  by (induction xs rule: made.induct) auto

lemma started_append [simp]: "started (xs @ ys) = started xs \<union> started ys"
  by (induction xs rule: started.induct) auto

lemma in_order_append [simp]:
  "in_order R T (xs @ ys) \<longleftrightarrow> in_order R T xs \<and> in_order (R \<union> made xs) (T \<union> started xs) ys"
  by (induction R T xs rule: in_order.induct) auto

text \<open>A statement with what it needs (\<open>A\<close>, \<open>S\<close>) and what exists and runs after it (\<open>B\<close>, \<open>U\<close>), whatever the environment.\<close>

definition trace_of :: "outcome \<Rightarrow> boot_event list" where
  "trace_of r = (case r of Running b \<Rightarrow> bt_trace b | Halted b \<Rightarrow> bt_trace b | Waiting b \<Rightarrow> bt_trace b)"

definition orders :: "(Boot \<Rightarrow> outcome) \<Rightarrow> resource set \<Rightarrow> boot_task set \<Rightarrow> resource set \<Rightarrow> boot_task set \<Rightarrow> bool" where
  "orders f A S B U \<longleftrightarrow>
     (\<forall>b. in_order {} {} (bt_trace b) \<and> A \<subseteq> made (bt_trace b) \<and> S \<subseteq> started (bt_trace b) \<longrightarrow>
        in_order {} {} (trace_of (f b)) \<and>
        (\<forall>b'. f b = Running b' \<longrightarrow> A \<union> B \<subseteq> made (bt_trace b') \<and> S \<union> U \<subseteq> started (bt_trace b')))"

lemma orders_nil: "orders (run []) A S {} {}"
  by (simp add: orders_def trace_of_def)

lemma orders_cons:
  assumes "orders f A S B U" "orders (run fs) (A \<union> B) (S \<union> U) B' U'"
  shows "orders (run (f # fs)) A S (B \<union> B') (U \<union> U')"
  unfolding orders_def
proof (intro allI impI)
  fix b :: Boot
  assume pre: "in_order {} {} (bt_trace b) \<and> A \<subseteq> made (bt_trace b) \<and> S \<subseteq> started (bt_trace b)"
  then have f: "in_order {} {} (trace_of (f b))"
    "\<forall>b'. f b = Running b' \<longrightarrow> A \<union> B \<subseteq> made (bt_trace b') \<and> S \<union> U \<subseteq> started (bt_trace b')"
    using assms(1) unfolding orders_def by blast+
  show "in_order {} {} (trace_of (run (f # fs) b)) \<and>
      (\<forall>b'. run (f # fs) b = Running b' \<longrightarrow> A \<union> (B \<union> B') \<subseteq> made (bt_trace b') \<and> S \<union> (U \<union> U') \<subseteq> started (bt_trace b'))"
  proof (cases "f b")
    case (Running b1)
    then have "in_order {} {} (bt_trace b1) \<and> A \<union> B \<subseteq> made (bt_trace b1) \<and> S \<union> U \<subseteq> started (bt_trace b1)"
      using f by (simp add: trace_of_def)
    then have "in_order {} {} (trace_of (run fs b1)) \<and>
      (\<forall>b'. run fs b1 = Running b' \<longrightarrow> A \<union> B \<union> B' \<subseteq> made (bt_trace b') \<and> S \<union> U \<union> U' \<subseteq> started (bt_trace b'))"
      using assms(2) unfolding orders_def by blast
    moreover have "run (f # fs) b = run fs b1"
      by (simp add: Running)
    ultimately show ?thesis
      unfolding Un_assoc by metis
  next
    case (Halted h)
    then show ?thesis
      using f(1) by (simp add: trace_of_def)
  next
    case (Waiting w)
    then show ?thesis
      using f(1) by (simp add: trace_of_def)
  qed
qed

lemma orders_run:
  assumes "orders (run fs) A S B U" "B' \<subseteq> B" "U' \<subseteq> U"
  shows "orders (run fs) A S B' U'"
  using assms unfolding orders_def by blast

lemmas stop_defs = halt_def halt_boot_def lora_fatal_def emit_def

named_theorems boot_orders

lemma orders_create_queue [boot_orders]: "orders (create_queue e q n) A S {q} {}"
  by (auto simp: orders_def trace_of_def create_queue_def stop_defs)

lemma orders_create_task [boot_orders]: "uses t \<subseteq> A \<Longrightarrow> orders (create_task e t n) A S {} {t}"
  by (auto simp: orders_def trace_of_def create_task_def stop_defs)

lemma orders_need_task [boot_orders]: "uses t \<subseteq> A \<Longrightarrow> orders (need_task e t n) A S {} {t}"
  by (auto simp: orders_def trace_of_def need_task_def stop_defs)

lemma orders_try_task [boot_orders]: "uses t \<subseteq> A \<Longrightarrow> orders (try_task e t n) A S {} {}"
  by (auto simp: orders_def trace_of_def try_task_def stop_defs)

text \<open>Statements that only report, or only change other parts of the state.\<close>

definition quiet :: "(Boot \<Rightarrow> Boot) \<Rightarrow> bool" where
  "quiet f \<longleftrightarrow>
     (\<forall>b. \<exists>xs. bt_trace (f b) = bt_trace b @ xs \<and> started xs = {} \<and> (\<forall>R T. in_order R T xs))"

lemma orders_quiet: "quiet f \<Longrightarrow> orders (act f) A S {} {}"
  unfolding orders_def
proof (intro allI impI)
  fix b :: Boot
  assume "quiet f" and pre: "in_order {} {} (bt_trace b) \<and> A \<subseteq> made (bt_trace b) \<and> S \<subseteq> started (bt_trace b)"
  then obtain xs where "bt_trace (f b) = bt_trace b @ xs" "\<forall>R T. in_order R T xs"
    unfolding quiet_def by blast
  then show "in_order {} {} (trace_of (act f b)) \<and>
      (\<forall>b'. act f b = Running b' \<longrightarrow> A \<union> {} \<subseteq> made (bt_trace b') \<and> S \<union> {} \<subseteq> started (bt_trace b'))"
    using pre by (auto simp: act_def trace_of_def)
qed

lemma quiet_emit: "started [ev] = {} \<Longrightarrow> (\<And>R T. in_order R T [ev]) \<Longrightarrow> quiet (emit ev)"
  by (simp add: quiet_def emit_def)

lemma quiet_same: "(\<And>b. bt_trace (f b) = bt_trace b) \<Longrightarrow> quiet f"
  by (simp add: quiet_def)

lemma quiet_mount: "quiet (mount_storage e)"
  by (simp add: quiet_def mount_storage_def emit_def Let_def)

lemma quiet_gpios: "quiet (config_gpios e)"
  by (simp add: quiet_def config_gpios_def config_button_pin_def emit_def)

lemma quiet_bt: "quiet (init_bt_serial J e)"
  by (simp add: quiet_def init_bt_serial_def emit_def split: prod.split)

lemma orders_act [boot_orders]:
  "orders (act (emit (SerialBegin n))) A S {} {}"
  "orders (act (emit (OledStatus s))) A S {} {}"
  "orders (act (emit WifiCallbacks)) A S {} {}"
  "orders (act (emit (OledLora st))) A S {} {}"
  "orders (act (emit (Logged m))) A S {} {}"
  "orders (act (\<lambda>b. b\<lparr>bt_oled := ol b\<rparr>)) A S {} {}"
  "orders (act (\<lambda>b. b\<lparr>bt_seq := sq b, bt_node := nd b\<rparr>)) A S {} {}"
  "orders (act (mount_storage e)) A S {} {}"
  "orders (act (config_gpios e)) A S {} {}"
  "orders (act (boot_lora_serial J e)) A S {} {}"
  "orders (act (boot_username J e)) A S {} {}"
  "orders (act (load_radio_config J ub e)) A S {} {}"
  "orders (act (init_bt_serial J e)) A S {} {}"
  by (rule orders_quiet,
      simp add: quiet_emit quiet_same quiet_mount quiet_gpios quiet_bt
        boot_lora_serial_def boot_username_def load_radio_config_def)+

lemma orders_interrupt [boot_orders]: "T_lora_rx \<in> S \<Longrightarrow> orders (act (emit RadioInterrupt)) A S {} {}"
  by (auto simp: orders_def act_def trace_of_def emit_def)

lemma orders_radio_objects [boot_orders]: "orders (make_radio_objects e) A S {RadioMutex, AckQueue} {}"
  by (auto simp: orders_def trace_of_def make_radio_objects_def stop_defs Let_def)

lemma orders_begin_radio [boot_orders]: "orders (begin_radio e) A S {} {}"
  by (auto simp: orders_def trace_of_def begin_radio_def stop_defs)

lemma orders_radio_tasks [boot_orders]:
  "{RadioMutex, AckQueue, RecvQueue, SerialRxQueue, SendQueue} \<subseteq> A \<Longrightarrow>
     orders (start_radio_tasks e) A S {} {T_lora_rx, T_LoRa_sendRaw, T_manage_recv_queue}"
  by (auto simp: orders_def trace_of_def start_radio_tasks_def stop_defs Let_def)

lemma orders_net [boot_orders]: "orders (act (boot_net_init e)) A S {} {}"
  by (auto simp: orders_def act_def trace_of_def boot_net_init_def emit_def Let_def)

lemma orders_wait [boot_orders]: "orders (wait_for_network e) A S {} {}"
  by (auto simp: orders_def trace_of_def wait_for_network_def emit_def split: option.splits)

lemma orders_setupTasks [boot_orders]:
  assumes "SendQueue \<in> A"
  shows "orders (setupTasks e) A S {} {T_buttons}"
  unfolding setupTasks_def
  by (rule orders_run, (rule orders_cons orders_nil boot_orders; (simp add: assms)?)+, simp_all)

lemma orders_config_lora [boot_orders]:
  assumes "{RecvQueue, SerialRxQueue, SendQueue} \<subseteq> A"
  shows "orders (config_lora J ub e) A S {RadioMutex, AckQueue} {T_lora_rx}"
  unfolding config_lora_def
  by (rule orders_run, (rule orders_cons orders_nil boot_orders; (use assms in auto)?)+, simp_all)

lemma orders_start_serial_bridge [boot_orders]:
  assumes "{SerialRxQueue, SerialTxQueue, SendQueue, RadioMutex} \<subseteq> A"
  shows "orders (start_serial_bridge e) A S {} {}"
  unfolding start_serial_bridge_def
  by (rule orders_run, (rule orders_cons orders_nil boot_orders; (use assms in auto)?)+, simp_all)

lemma orders_setup: "orders (run (setup_steps J ub e)) {} {} {} {}"
  unfolding setup_steps_def
  by (rule orders_run, (rule orders_cons orders_nil boot_orders; (auto)?)+, simp_all)


section \<open>How start-up ends\<close>

text \<open>What start-up cannot do without.\<close>

definition essentials :: "boot_env \<Rightarrow> bool" where
  "essentials e \<longleftrightarrow>
     list_all (queue_made e) [SendQueue, RecvQueue, DebugQueue, SerialTxQueue, SerialRxQueue, RadioMutex, AckQueue] \<and>
     radio_begins e \<and>
     list_all (task_made e) [T_debugger_print, T_buttons, T_config_wifi, T_lora_rx, T_LoRa_sendRaw, T_manage_recv_queue,
       T_send_to_serial, T_send_to_lora, T_serial_to_lora, T_define_api]"

text \<open>A lasting alert is the last thing a stopped start-up did.\<close>

definition alerted :: "Boot \<Rightarrow> bool" where
  "alerted b \<longleftrightarrow> (\<exists>t m. last (bt_trace b) = OledAlert t m 0)"

text \<open>A statement that goes on exactly when \<open>c\<close> holds, and does not start the web interface.\<close>

definition decides :: "bool \<Rightarrow> (Boot \<Rightarrow> outcome) \<Rightarrow> bool" where
  "decides c f \<longleftrightarrow>
     (\<forall>b. T_define_api \<notin> started (bt_trace b) \<longrightarrow>
        (case f b of
           Running b' \<Rightarrow> c \<and> T_define_api \<notin> started (bt_trace b')
         | Halted h \<Rightarrow> \<not> c \<and> T_define_api \<notin> started (bt_trace h) \<and> alerted h
         | Waiting w \<Rightarrow> False))"

named_theorems boot_decides

lemma decides_nil: "decides True (run [])"
  by (simp add: decides_def)

lemma decides_cons: "decides c f \<Longrightarrow> decides d (run fs) \<Longrightarrow> decides (c \<and> d) (run (f # fs))"
  unfolding decides_def by (fastforce split: outcome.splits)

lemma decides_iff: "decides c f \<Longrightarrow> (c \<longleftrightarrow> d) \<Longrightarrow> decides d f"
  by simp

lemma decides_quiet: "quiet f \<Longrightarrow> decides True (act f)"
  unfolding decides_def quiet_def act_def by (metis UnE empty_iff outcome.simps(10) started_append)

lemma decides_act [boot_decides]:
  "decides True (act (emit (SerialBegin n)))"
  "decides True (act (emit (OledStatus s)))"
  "decides True (act (emit WifiCallbacks))"
  "decides True (act (emit (OledLora st)))"
  "decides True (act (emit (Logged m)))"
  "decides True (act (\<lambda>b. b\<lparr>bt_oled := ol b\<rparr>))"
  "decides True (act (\<lambda>b. b\<lparr>bt_seq := sq b, bt_node := nd b\<rparr>))"
  "decides True (act (mount_storage e))"
  "decides True (act (config_gpios e))"
  "decides True (act (boot_lora_serial J e))"
  "decides True (act (boot_username J e))"
  "decides True (act (load_radio_config J ub e))"
  "decides True (act (init_bt_serial J e))"
  by (rule decides_quiet,
      simp add: quiet_emit quiet_same quiet_mount quiet_gpios quiet_bt
        boot_lora_serial_def boot_username_def load_radio_config_def)+

lemma decides_steps [boot_decides]:
  "decides True (act (emit RadioInterrupt))"
  "decides True (act (boot_net_init e))"
  "decides (queue_made e q) (create_queue e q n)"
  "t \<noteq> T_define_api \<Longrightarrow> decides (task_made e t) (create_task e t n)"
  "t \<noteq> T_define_api \<Longrightarrow> decides (task_made e t) (need_task e t n)"
  "t \<noteq> T_define_api \<Longrightarrow> decides True (try_task e t n)"
  "decides (queue_made e RadioMutex \<and> queue_made e AckQueue) (make_radio_objects e)"
  "decides (radio_begins e) (begin_radio e)"
  "decides (task_made e T_lora_rx \<and> task_made e T_LoRa_sendRaw \<and> task_made e T_manage_recv_queue) (start_radio_tasks e)"
  by (simp_all add: decides_def alerted_def act_def boot_net_init_def create_queue_def create_task_def need_task_def
      try_task_def make_radio_objects_def begin_radio_def start_radio_tasks_def stop_defs Let_def)

text \<open>The loop ends: with the network, or after 45 seconds, in at most 450 turns of 100 ms.\<close>

lemma wait_wifi_ends:
  assumes "clock e (k + n) - clock e 0 \<ge> WIFI_WAIT_MS"
  shows "\<exists>j. wait_wifi e (Suc n) k = Some j \<and> k \<le> j \<and> j \<le> k + n \<and>
    (wifi_up e j \<or> clock e j - clock e 0 \<ge> WIFI_WAIT_MS) \<and> (\<forall>i. k \<le> i \<and> i < j \<longrightarrow> \<not> wifi_up e i)"
  using assms
proof (induction n arbitrary: k)
  case 0
  then show ?case by (auto simp: not_less)
next
  case (Suc n)
  show ?case
  proof (cases "\<not> wifi_up e k \<and> clock e k - clock e 0 < WIFI_WAIT_MS")
    case True
    obtain j where j: "wait_wifi e (Suc n) (Suc k) = Some j" "Suc k \<le> j" "j \<le> Suc k + n"
      "wifi_up e j \<or> clock e j - clock e 0 \<ge> WIFI_WAIT_MS" "\<forall>i. Suc k \<le> i \<and> i < j \<longrightarrow> \<not> wifi_up e i"
      using Suc.IH [of "Suc k"] Suc.prems by auto
    have "\<forall>i. k \<le> i \<and> i < j \<longrightarrow> \<not> wifi_up e i"
      using j(5) True by (metis Suc_leI le_neq_implies_less)
    moreover have "wait_wifi e (Suc (Suc n)) k = Some j"
      using True j(1) by simp
    ultimately show ?thesis using j(2-4) by auto
  next
    case False
    then show ?thesis by (auto simp: not_less)
  qed
qed

text \<open>A delay of 100 ms lasts at least that long.\<close>

definition ticking :: "boot_env \<Rightarrow> bool" where
  "ticking e \<longleftrightarrow> (\<forall>k. k \<le> 450 \<longrightarrow> 100 * k \<le> unat (clock e k - clock e 0))"

lemma network_wait_ends:
  assumes "ticking e"
  shows "\<exists>k\<le>450. wait_wifi e WAIT_FUEL 0 = Some k"
proof -
  have "45000 \<le> unat (clock e 450 - clock e 0)"
    using spec [OF assms [unfolded ticking_def], of 450] by simp
  then have "clock e (0 + 450) - clock e 0 \<ge> WIFI_WAIT_MS"
    by (simp add: WIFI_WAIT_MS_def word_le_nat_alt)
  then obtain k where "wait_wifi e (Suc 450) 0 = Some k" "k \<le> 0 + 450"
    using wait_wifi_ends [of e 0 450] by blast
  moreover have "WAIT_FUEL = Suc 450"
    by (simp add: WAIT_FUEL_def)
  ultimately show ?thesis
    by (metis add_0)
qed

lemma decides_wait [boot_decides]: "ticking e \<Longrightarrow> decides True (wait_for_network e)"
  using network_wait_ends [of e]
  by (auto simp: decides_def wait_for_network_def emit_def)

lemma decides_setupTasks [boot_decides]: "decides (task_made e T_buttons) (setupTasks e)"
  unfolding setupTasks_def
  by (rule decides_iff, (rule decides_cons decides_nil boot_decides | simp)+)

lemma decides_config_lora [boot_decides]:
  "decides (list_all (queue_made e) [RadioMutex, AckQueue] \<and> radio_begins e \<and>
     list_all (task_made e) [T_lora_rx, T_LoRa_sendRaw, T_manage_recv_queue]) (config_lora J ub e)"
  unfolding config_lora_def
  by (rule decides_iff, (rule decides_cons decides_nil boot_decides)+, simp)

lemma decides_start_serial_bridge [boot_decides]:
  "decides (list_all (task_made e) [T_send_to_serial, T_send_to_lora, T_serial_to_lora]) (start_serial_bridge e)"
  unfolding start_serial_bridge_def
  by (rule decides_iff, (rule decides_cons decides_nil boot_decides | simp)+)

lemma run_append:
  "run (xs @ ys) b = (case run xs b of Running b \<Rightarrow> run ys b | Halted h \<Rightarrow> Halted h | Waiting w \<Rightarrow> Waiting w)"
  by (induction xs arbitrary: b) (auto split: outcome.split)

text \<open>The steps before the web interface is started, and those from there on.\<close>

lemma setup_steps_split:
  "setup_steps J ub e = take 23 (setup_steps J ub e) @
     [create_task e T_define_api ''define_api'', act (emit (Logged ''config done'')), act (emit (OledStatus ''Ready''))]"
  by (simp add: setup_steps_def)

definition essentials_before_api :: "boot_env \<Rightarrow> bool" where
  "essentials_before_api e \<longleftrightarrow>
     list_all (queue_made e) [SendQueue, RecvQueue, DebugQueue, SerialTxQueue, SerialRxQueue, RadioMutex, AckQueue] \<and>
     radio_begins e \<and>
     list_all (task_made e) [T_debugger_print, T_buttons, T_config_wifi, T_lora_rx, T_LoRa_sendRaw, T_manage_recv_queue,
       T_send_to_serial, T_send_to_lora, T_serial_to_lora]"

lemma essentials_split: "essentials e \<longleftrightarrow> essentials_before_api e \<and> task_made e T_define_api"
  by (auto simp: essentials_def essentials_before_api_def)

lemma decides_before_api:
  assumes "ticking e"
  shows "decides (essentials_before_api e) (run (take 23 (setup_steps J ub e)))"
  unfolding setup_steps_def take_Suc_Cons numeral_nat list.size take_Suc_Cons take_0
  by (rule decides_iff, (rule decides_cons decides_nil boot_decides assms | simp only: simp_thms boot_task.distinct)+,
      auto simp: essentials_before_api_def)

lemma boot_setup_split:
  "boot_setup J ub e =
     (case run (take 23 (setup_steps J ub e)) power_on of
        Running b \<Rightarrow> run [create_task e T_define_api ''define_api'', act (emit (Logged ''config done'')), act (emit (OledStatus ''Ready''))] b
      | Halted h \<Rightarrow> Halted h | Waiting w \<Rightarrow> Waiting w)"
  unfolding boot_setup_def by (subst setup_steps_split, rule run_append)

lemma no_api_before:
  assumes "ticking e"
  shows "case run (take 23 (setup_steps J ub e)) power_on of
      Running b \<Rightarrow> essentials_before_api e \<and> T_define_api \<notin> started (bt_trace b)
    | Halted h \<Rightarrow> \<not> essentials_before_api e \<and> T_define_api \<notin> started (bt_trace h) \<and> alerted h
    | Waiting w \<Rightarrow> False"
proof -
  have "T_define_api \<notin> started (bt_trace power_on)"
    by (simp add: power_on_def)
  then show ?thesis
    using decides_before_api [OF assms, of J ub] unfolding decides_def by blast
qed

lemma setup_completes:
  assumes "ticking e" "essentials e"
  shows "\<exists>b. boot_setup J ub e = Running b \<and> T_define_api \<in> started (bt_trace b)"
  using no_api_before [OF assms(1), of J ub] assms(2)
  by (auto simp: boot_setup_split essentials_split create_task_def act_def emit_def split: outcome.splits)


lemma ticking_exact: "clock e = (\<lambda>k. of_nat (100 * k)) \<Longrightarrow> ticking e"
  by (simp add: ticking_def unat_of_nat del: of_nat_mult)

text \<open>A start-up on a board whose flash cannot be mounted and which finds no network.\<close>

definition sample_boot_env :: boot_env where
  "sample_boot_env =
     \<lparr>queue_made = \<lambda>q. True, task_made = \<lambda>t. True,
      oled_found = \<lparr>b_wire = True, b_panel = False, b_display = True, b_queue = True, b_task = True\<rparr>,
      mounts = False, flash = Map.empty,
      read_env = \<lparr>ev_off1 = False, ev_off2 = False, ev_open = True, ev_written = 0, ev_rename = True\<rparr>, setup_id = 1,
      core = \<lparr>task_ok = True, alloc_mem = True, send_queue_ok = True, write_ok = True, save_lora_ok = True,
        bt_available = False, has_scan = False, mac_address = ''24:6F:28:00:11:22''\<rparr>,
      mac6 = [0x24, 0x6F, 0x28, 0, 0x11, 0x22], random32 = 7, radio_begins = True, radio_free = True,
      clock = \<lambda>k. of_nat (100 * k), wifi_up = \<lambda>k. False, state_high = True, pin_led = 4, pin_btn1 = 32, pin_btn2 = 36,
      bt_compiled = False\<rparr>"

lemma sample_ticking: "ticking sample_boot_env"
  by (rule ticking_exact) (simp add: sample_boot_env_def)


section \<open>Without storage\<close>

text \<open>What holds of the state as long as nothing can be read: radio and bridge settings have their default
  values and the user has no name but the address of the board.\<close>

definition default_state :: "string \<Rightarrow> Boot \<Rightarrow> bool" where
  "default_state mac b \<longleftrightarrow>
     \<not> fs_mounted (fst (bt_fs b)) \<and> s_cfg (bt_radio b) = default_config \<and> \<not> lora_serial (bt_sys b) \<and>
     s_username (bt_sys b) \<in> {[], mac}"

definition keeps :: "(Boot \<Rightarrow> bool) \<Rightarrow> (Boot \<Rightarrow> outcome) \<Rightarrow> bool" where
  "keeps P f \<longleftrightarrow> (\<forall>b b'. P b \<longrightarrow> f b = Running b' \<longrightarrow> P b')"

named_theorems boot_keeps

lemma run_Running: "run (f # fs) b = Running b' \<longleftrightarrow> (\<exists>b1. f b = Running b1 \<and> run fs b1 = Running b')"
  by (simp split: outcome.split)

lemma keeps_run: "(\<And>f. f \<in> set fs \<Longrightarrow> keeps P f) \<Longrightarrow> keeps P (run fs)"
proof (induction fs)
  case (Cons f fs)
  have "keeps P f" "keeps P (run fs)"
    using Cons by simp_all
  then show ?case
    unfolding keeps_def run_Running by blast
qed (simp add: keeps_def)

lemma keeps_all: "list_all (keeps P) fs \<Longrightarrow> keeps P (run fs)"
  by (rule keeps_run) (simp add: list_all_iff)

lemma unmounted_read: "\<not> fs_mounted (fst (bt_fs b)) \<Longrightarrow> boot_read e b = (\<lambda>_. None)"
  by (rule ext) (cases "bt_fs b", simp add: boot_read_def read_file_def fs_enter_def)

lemma default_emit [simp]: "default_state mac (emit ev b) = default_state mac b"
  by (simp add: default_state_def emit_def)

lemma unmounted_bt: "\<not> fs_mounted (fst (bt_fs b)) \<Longrightarrow> fst (get_bt_config J mac ev me (bt_fs b)) = bt_fs b"
  by (cases "bt_fs b") (simp add: get_bt_config_def read_file_def fs_enter_def)

lemma keeps_default_steps [boot_keeps]:
  "keeps (default_state mac) (act (emit ev))"
  "keeps (default_state mac) (act (\<lambda>b. b\<lparr>bt_oled := ol b\<rparr>))"
  "keeps (default_state mac) (act (\<lambda>b. b\<lparr>bt_seq := sq b, bt_node := nd b\<rparr>))"
  "keeps (default_state mac) (create_queue e q n)"
  "keeps (default_state mac) (create_task e t n)"
  "keeps (default_state mac) (need_task e t n)"
  "keeps (default_state mac) (try_task e t n)"
  "keeps (default_state mac) (make_radio_objects e)"
  "keeps (default_state mac) (begin_radio e)"
  "keeps (default_state mac) (start_radio_tasks e)"
  "keeps (default_state mac) (act (config_gpios e))"
  "keeps (default_state mac) (wait_for_network e)"
  by (auto simp: keeps_def act_def create_queue_def create_task_def need_task_def try_task_def make_radio_objects_def
      begin_radio_def start_radio_tasks_def config_gpios_def config_button_pin_def wait_for_network_def halt_def halt_boot_def
      lora_fatal_def Let_def split: if_splits option.splits) (simp_all add: default_state_def)

lemma keeps_default_loads [boot_keeps]:
  "keeps (default_state (mac_address (core e))) (act (boot_lora_serial J e))"
  "keeps (default_state (mac_address (core e))) (act (boot_username J e))"
  "keeps (default_state (mac_address (core e))) (act (load_radio_config J ub e))"
  "keeps (default_state (mac_address (core e))) (act (boot_net_init e))"
  by (auto simp: keeps_def act_def boot_lora_serial_def boot_username_def load_radio_config_def boot_net_init_def Let_def
      default_state_def unmounted_read get_lora_serial_def core_parse_lora_serial_def load_username_def
      core_parse_username_def set_lora_parameters_def read_config_file_def apply_config_def apply_config_locked_def emit_def)

lemma keeps_default_bt [boot_keeps]: "keeps (default_state mac) (act (init_bt_serial J e))"
  unfolding keeps_def act_def
proof (intro allI impI)
  fix b b' :: Boot
  assume d: "default_state mac b" and "Running (init_bt_serial J e b) = Running b'"
  moreover have "default_state mac (b\<lparr>bt_fs := fst (get_bt_config J (mac_address (core e)) (read_env e) (setup_id e) (bt_fs b))\<rparr>)"
    using d unmounted_bt [of b J "mac_address (core e)" "read_env e" "setup_id e"] by (simp add: default_state_def)
  ultimately show "default_state mac b'"
    by (auto simp: init_bt_serial_def split: prod.splits if_splits)
qed

lemma keeps_default_mount [boot_keeps]: "\<not> mounts e \<Longrightarrow> keeps (default_state mac) (act (mount_storage e))"
  by (auto simp: keeps_def act_def mount_storage_def Let_def) (simp_all add: default_state_def emit_def)

lemma keeps_default_parts [boot_keeps]:
  "keeps (default_state (mac_address (core e))) (setupTasks e)"
  "keeps (default_state (mac_address (core e))) (config_lora J ub e)"
  "keeps (default_state (mac_address (core e))) (start_serial_bridge e)"
  unfolding setupTasks_def config_lora_def start_serial_bridge_def
  by (rule keeps_all, simp add: boot_keeps)+



section \<open>A half-started LoRa network\<close>

text \<open>When the writer task of the LoRa network cannot be created, the queue exists all the same: the network
  mode can be entered although no task will ever write a packet to the port.\<close>

lemma net_mode_without_writer:
  assumes "queue_made e NetQueue" "\<not> task_made e T_net_writer" "s_rx_q (sys_net (bt_sys b)) = None"
  shows "T_net_writer \<notin> started (bt_trace b) \<Longrightarrow> T_net_writer \<notin> started (bt_trace (boot_net_init e b))"
    "snd (snd (net_enter (sys_net (bt_sys (boot_net_init e b))) False now nid))"
  using assms by (simp_all add: boot_net_init_def emit_def net_init_def net_enter_def Let_def)

section \<open>Names\<close>

datatype name_event =
    MdnsBegin string | MdnsService string nat | DnsSettings nat | DnsStart nat | DnsTask | DnsStop | NameLog string

text \<open>The first component is the static flag; the arguments say which calls of the libraries succeed.\<close>

definition setup_mdns :: "bool \<Rightarrow> string \<Rightarrow> bool \<Rightarrow> bool \<times> name_event list" where
  "setup_mdns mdns_ok hostname mdns_started =
     (if mdns_started then (mdns_started, [])
      else if mdns_ok then (True, [MdnsBegin hostname, MdnsService ''http'' 80, NameLog (''Started mDNS service: '' @ hostname)])
      else (mdns_started, [MdnsBegin hostname, NameLog ''mDNS start failed'']))"

definition setup_dns :: "bool \<Rightarrow> bool \<Rightarrow> string \<Rightarrow> bool \<Rightarrow> bool \<times> name_event list" where
  "setup_dns listen_ok made_task ip dns_started =
     (if dns_started then (dns_started, [])
      else if \<not> listen_ok then (dns_started, [DnsSettings 3600, NameLog ''DNS server start failed''])
      else if \<not> made_task then (dns_started, [DnsSettings 3600, DnsStart 53, DnsStop, NameLog ''DNS task create failed''])
      else (True, [DnsSettings 3600, DnsStart 53, DnsTask, NameLog (''DNS service started on '' @ ip)]))"

text \<open>Whether the server listens and how many tasks serve it, after a list of events.\<close>

fun dns_state :: "bool \<times> nat \<Rightarrow> name_event list \<Rightarrow> bool \<times> nat" where
  "dns_state s [] = s"
| "dns_state (l, n) (DnsStart p # es) = dns_state (True, n) es"
| "dns_state (l, n) (DnsStop # es) = dns_state (False, n) es"
| "dns_state (l, n) (DnsTask # es) = dns_state (l, Suc n) es"
| "dns_state s (_ # es) = dns_state s es"

lemma dns_served:
  assumes "(l, n) = (on, if on then 1 else 0)" "setup_dns ok tk ip on = (on', es)"
  shows "dns_state (l, n) es = (on', if on' then 1 else 0)"
  using assms by (auto simp: setup_dns_def split: if_splits)

section \<open>Restart and LED\<close>

datatype task_event = TaskLog string | TaskDelay nat | EspRestart | NotifyLed | NotifyLedFromIsr | YieldFromIsr

definition restart :: "task_event list" where
  "restart = [TaskLog ''Restarting esp.'', TaskDelay 500, EspRestart]"

definition led_nortifier :: "bool \<Rightarrow> bool \<Rightarrow> bool \<Rightarrow> task_event list" where
  "led_nortifier has_task in_isr woken =
     (if \<not> has_task then []
      else if in_isr then NotifyLedFromIsr # (if woken then [YieldFromIsr] else [])
      else [NotifyLed])"

end
