(* ===== verification/Spec2Isabelle.thy ===== *)
theory Spec2Isabelle
  imports Lora_Airtime Lora_Dedup Net_Mode Improv Delivery Button System Ota Wifi_Monitor Boot
begin

text \<open>
  Project Voyager: the firmware of a messenger for ESP32 boards with a LoRa radio, an OLED display,
  two buttons, a web interface and a USB serial port.  The C++ sources are in \<open>src/src/\<close>; this
  development models them and proves what makes each part, and the parts together, correct.

  \<^bold>\<open>The program and how its parts interact.\<close>  \<open>setup\<close> (\<open>core/main.cpp\<close>) creates the queues and starts
  the tasks; from then on the tasks talk through queues and a few flags.  A message typed in a
  browser comes in over a WebSocket (\<open>web/web_sockets.cpp\<close>) or by HTTP (\<open>web/web_server.cpp\<close>, behind the
  checks of \<open>web/web_validate.h\<close> and the sessions of \<open>web/auth.cpp\<close>), is checked and routed by
  \<open>core/core_dispatch.h\<close> and \<open>core/support_method.cpp\<close>, and is queued for the radio.  The sending task
  (\<open>lora/lora_support.cpp\<close>, with the protocol in \<open>lora/lora_proto.h\<close>) frames it, listens before it
  talks, waits for the acknowledgement and retries.  The receiving task of another board checks the
  frame, drops duplicates, acknowledges and forwards the message to browser and display.  The USB
  port belongs in turn to Improv (setting up WiFi, \<open>core/improv.h\<close> and \<open>core/improv_serial.cpp\<close>), to the
  LoRa-to-serial bridge and to the LoRa network mode (IP packets in SLIP frames,
  \<open>core/net_serial.cpp\<close>).  \<open>wifi/\<close> keeps the link up, \<open>display/\<close> draws, and settings live in small files.

  \<^bold>\<open>How it is modelled.\<close>  A struct or the static variables of a file are a \<open>record\<close>, an enum a
  \<open>datatype\<close>, integers of the code words of their width (\<open>u8\<close>, \<open>u16\<close>, \<open>u32\<close> of \<open>Voy_Prelude\<close>), C strings
  lists of characters, null pointers \<open>None\<close>.  A function takes the state and returns it updated; what
  it has other parts do (send, alert, start a task) is a list of events in order.  The handler of
  one task's turn is one function, named after the task with \<open>_step\<close>.  Handlers are atomic: turns of
  different tasks interleave, the statements inside a turn do not, except where a property is
  about just that (the lock of the file system in \<open>Storage\<close>, the order of writes to flash, the
  sequence of starts in \<open>Boot\<close>).  The one race
  that was taken apart statement by statement is that of the two port switches (\<open>Serial_Port.switch_race\<close>).

  \<^bold>\<open>Theories.\<close>
  \<^item> \<open>Voy_Prelude\<close>: machine types, bytes of words, C strings, collections of rewrite rules.
  \<open>Byte_Stream\<close>: the contract of a decoder fed byte by byte, as the locale \<open>stream_codec\<close>, interpreted
  by \<open>Slip\<close> and \<open>Improv\<close>.  \<open>Insertion_Sort\<close>: the sort written out twice in the WiFi code.
  \<open>Json_Api\<close>: the JSON library as a record of functions with its documented laws.
  \<^item> \<open>Lora_Frame\<close>, \<open>Lora_Retry\<close>, \<open>Lora_Dedup\<close>, \<open>Lora_Airtime\<close>, \<open>Net_Packet\<close>, \<open>Slip\<close> and the first part of
  \<open>Lora_Config\<close>: \<open>lora/lora_proto.h\<close>.  \<open>Lora_Dedup\<close> states what a duplicate filter promises
  (locale \<open>duplicate_filter\<close>), with both filters of the code as interpretations.
  \<^item> \<open>Lora_Config\<close>, \<open>Lora_Tx\<close>, \<open>Lora_Rx\<close>: \<open>lora/lora_support.cpp\<close> (configuration, sending task,
  receiving task).  \<open>Delivery\<close>: a sender and a receiver over a link that loses frames both ways;
  what the argument needs of a receiver is the locale \<open>copy_receiver\<close>, interpreted on messages and
  on network packets.
  \<^item> \<open>Net_Mode\<close>: \<open>core/net_serial.cpp\<close>.  \<open>Improv\<close>, \<open>Improv_Serial\<close>: \<open>core/improv.h\<close>,
  \<open>core/improv_serial.cpp\<close>.  \<open>Serial_Port\<close>: the bridge and who owns the port, as a step relation with
  its reachable states.  \<open>Bluetooth\<close>: \<open>core/bt_serial.cpp\<close> and \<open>bt_serial.h\<close>.
  \<^item> \<open>Core_Dispatch\<close>: \<open>core/core_dispatch.h\<close> and the routing in \<open>core/support_method.cpp\<close>.
  \<open>Button\<close>: its button machine.  \<open>Storage\<close>: settings files, with the locale \<open>config_store\<close> and its
  interpretation \<open>flash\<close>.  \<open>System\<close>: log, alerts, SOS, telemetry, factory reset.  \<open>Boot\<close>: start-up.
  \<^item> \<open>Web_Validate\<close>, \<open>Auth\<close>, \<open>Web_Sockets\<close>, \<open>Web_Api\<close>, \<open>Ota\<close>: the files of \<open>web/\<close>; \<open>Ota\<close> the
  firmware and file system updates of \<open>web/web_server.cpp\<close>.
  \<^item> \<open>Wifi_Config\<close>: \<open>wifi/wifi_config.h\<close>.  \<open>Wifi_Support\<close>, \<open>Wifi_Monitor\<close>: \<open>wifi/wifi_support.cpp\<close>.
  \<^item> \<open>Oled_Layout\<close>: \<open>display/oled_layout.h\<close>.  \<open>Oled_Draw\<close>, \<open>Oled_Task\<close>: \<open>display/oled_display.cpp\<close>.

  \<^bold>\<open>What the theorems show.\<close>
  \<^item> Messages: frames and their parser invert each other, one corrupted byte is always noticed
  (\<open>Lora_Frame\<close>); sending ends after at most four attempts with exactly one verdict, within the time
  announced (\<open>Lora_Tx\<close>, with \<open>Lora_Airtime\<close> for the airtime in double arithmetic); the duplicate
  filter is exact for up to four sources and never drops a new packet with any number
  (\<open>Lora_Dedup\<close>).  Together (\<open>posted_message_arrives\<close> below, \<open>net_transfer\<close> of \<open>Delivery\<close>): whatever
  the link loses, a message posted in a browser, or an IP packet of a PC, is queued at the receiver
  at most once, it is queued whenever success is reported, one clean attempt suffices, and the
  other end gets it unchanged.
  \<^item> USB: the codecs are lossless, packets are forwarded to exactly the right node and in order, and
  the port never has two owners.
  \<^item> Settings: only valid radio, WiFi and access point settings are ever applied; what is saved is
  what the next start finds; a write of a file is atomic wherever power fails; the factory reset
  and the firmware updates keep and drop what they should.
  \<^item> Web: a request without login or from another site changes nothing; sessions behave as a window
  of the newest four; paths to the settings are blocked; messages split over frames are
  reassembled.
  \<^item> Display and buttons: everything drawn is on the panel, the texts fit their buffers, frames are
  paced, alerts appear; buttons report alternating edges under any bouncing.
  \<^item> Start-up: it always ends, exactly with the web interface running when all essentials are there,
  else with a lasting alert; no task starts before what it uses exists; without a file system it
  comes up with defaults so that an update can repair it.

  \<^bold>\<open>Parameters.\<close>  Code that is not in the repository is an argument: the JSON library
  (\<open>json_api\<close>; hypotheses such as \<open>json_integers\<close> state that it reads back what was written), the
  conversion of a double outside the range of \<open>long\<close>, MD5 and the Digest check, the radio, WiFi, display
  and flash drivers, the allocator, clock and scheduler (records of the form \<open>..._env\<close>: what one
  call returns).  Witnesses instantiate them with concrete functions.

  \<^bold>\<open>Loops and fuel.\<close>  Most loops are structural recursions or have a termination proof.  The retry loop
  of the sender (\<open>send_loop\<close>) is a partial function and shown to return; the loop that collects
  bytes of the bridge may end or not with the polls given to it; the wait for the network at
  start-up has fuel for 451 turns, and \<open>wait_wifi_ends\<close> shows this to be enough when a delay of 100 ms
  lasts at least 100 ms (45 seconds are 450 such turns).

  \<^bold>\<open>Not modelled.\<close>  The text of the HTML pages and of most log lines; the registers of the radio
  beyond the two that channel sensing reads; the set-up of SPI, I2C, GPIO and mDNS inside their
  libraries; the matching of routes and the serving of static files inside the HTTP library; the
  DNS answers; the build variant without authentication used by tests.  The web pages
  (\<open>src/data\<close>), the tools and the tests are not part of the firmware.
\<close>

section \<open>From browser to browser\<close>

lemma guard_refusals: "guard e a r sc = (a', False, rs) \<Longrightarrow> Json 202 body \<notin> set rs"
  by (auto simp: guard_def auth_require_def login_reply_def http_error_def Let_def split: prod.splits if_splits)

text \<open>A message the web interface answers with 202 is on the queue of the sending task, and fits a packet.\<close>

lemma posted_is_queued:
  assumes "handle_lora_transmit J e w rq = (w', [Json 202 body], effs)"
    and "msg = jser J (fill_lora_msg (Some (x_username e)) (Some (x_mac e)) (q_data rq))"
  shows "\<exists>items p. w_queue w = Some items \<and> w_queue w' = Some (items @ [p]) \<and>
    q_type p = LORA_MSG \<and> q_message p = str_bytes msg \<and> q_id p \<noteq> 0 \<and> length msg \<le> 251"
proof -
  obtain a ok rs where g: "guard e (w_auth w) rq True = (a, ok, rs)" by (metis prod_cases3)
  have ok: "ok"
    using assms(1) guard_refusals [of e "w_auth w" rq True a rs body] g by (auto simp: handle_lora_transmit_def Let_def split: if_splits)
  let ?c = "check_lora_transmit J (q_data rq) (Some (x_username e)) (Some (x_mac e)) LORA_MAX_PAYLOAD"
  have c: "fst ?c = TX_OK"
    using assms(1) g ok
    by (cases "fst ?c") (auto simp: handle_lora_transmit_def http_error_def Let_def split: if_splits prod.splits)
  have len: "length msg \<le> 251"
    using c by (auto simp: check_lora_transmit_def lora_msg_wrapped_len_def assms(2) LORA_MAX_PAYLOAD_eq Let_def
        split: option.splits if_splits)
  have "enqueue_tx e (w\<lparr>w_auth := a\<rparr>) LORA_MSG msg = (w', Json 202 body)"
    using assms(1) g ok c by (auto simp: handle_lora_transmit_def assms(2) Let_def split: prod.splits)
  from accepted_is_queued [OF this] len show ?thesis by auto
qed

text \<open>
  C1 (posted_message_arrives).  From browser to browser.  When the web interface of one board answers a posted message with
  202, exactly one packet is added to the sending queue.  Sending it always returns, whatever the link loses.  The other
  board queues the message at most once, and has queued it when the sender reports success; its forwarding
  task sends the browsers there exactly the text that was wrapped and posted, with the entry for
  the display that belongs to it.
  One attempt of the four in which nothing goes wrong is enough.  The text must not contain
  NUL (JSON escapes it) and must be new to the receiver, which hears no other packets meanwhile.
\<close>

theorem posted_message_arrives:
  assumes "handle_lora_transmit J e w rq = (w', [Json 202 body], effs)"
    and "msg = jser J (fill_lora_msg (Some (x_username e)) (Some (x_mac e)) (q_data rq))" "CHR 0x00 \<notin> set msg"
    and "radio_idle r" "dd_shape (rx_dedup s)"
    and "\<not> rx_is_duplicate_multi (rx_dedup s) (extract_mac_key J (Some msg)) seq"
    and "\<forall>j. foreign seq (hops j)"
  shows "\<exists>items p r' ok l. w_queue w = Some items \<and> w_queue w' = Some (items @ [p]) \<and>
    send_with_retry cfg (link_env J (message_side J (air_frame seq p)) s hops) seq r p = Some (seq + 1, r', ok, l) \<and>
    (rx_queued (message_side J (air_frame seq p)) s hops (log_attempts l) = [] \<or>
     (\<exists>m. rx_queued (message_side J (air_frame seq p)) s hops (log_attempts l) = [m] \<and>
       (\<forall>st ms. recv_packets st = m # ms \<longrightarrow>
          snd (manage_recv_queue_step J st) = WsLoraRx msg # handle_lora_msg_for_oled J msg))) \<and>
    (ok \<longrightarrow> rx_queued (message_side J (air_frame seq p)) s hops (log_attempts l) \<noteq> []) \<and>
    ((\<exists>j<4. clean (message_room (q_message p)) (message_side J (air_frame seq p)) s hops (ack_wait cfg p) j) \<longrightarrow> ok)"
proof -
  from posted_is_queued [OF assms(1,2)] obtain items p
    where q: "w_queue w = Some items" "w_queue w' = Some (items @ [p])" and p: "q_type p = LORA_MSG" "q_message p = str_bytes msg"
      and len: "length (q_message p) \<le> 251"
    by auto
  have same_text: "c_str (q_message p) = msg"
    using c_str_str_bytes [OF assms(3)] p(2) by simp
  have new: "\<not> rx_is_duplicate_multi (rx_dedup s) (extract_mac_key J (Some (c_str (q_message p)))) seq"
    using assms(6) by (simp add: same_text)
  from message_transfer [OF assms(4) p(1) len assms(5) new assms(7) refl, of cfg] obtain r' ok l
    where send: "send_with_retry cfg (link_env J (message_side J (air_frame seq p)) s hops) seq r p = Some (seq + 1, r', ok, l)"
      and once: "rx_queued (message_side J (air_frame seq p)) s hops (log_attempts l) = [] \<or>
        rx_queued (message_side J (air_frame seq p)) s hops (log_attempts l) = [\<lparr>q_type = LORA_MSG, q_message = q_message p, q_id = 0\<rparr>]"
      and ok: "ok \<longrightarrow> rx_queued (message_side J (air_frame seq p)) s hops (log_attempts l) \<noteq> []"
      and clean: "(\<exists>j<4. clean (message_room (q_message p)) (message_side J (air_frame seq p)) s hops (ack_wait cfg p) j) \<longrightarrow> ok"
    by blast
  have "snd (manage_recv_queue_step J st) = WsLoraRx msg # handle_lora_msg_for_oled J msg"
    if "recv_packets st = \<lparr>q_type = LORA_MSG, q_message = q_message p, q_id = 0\<rparr> # ms" for st ms
    using that by (simp add: manage_recv_queue_step_def same_text)
  then show ?thesis using q send once ok clean by blast
qed

definition sample_message_post :: web_request where
  "sample_message_post = (sample_post None)\<lparr>q_url := ''/lora_transmit'', q_data := Some ''cfg'',
     q_auth := \<lparr>rq_cookie = None, rq_authorization = Some ''Digest x'', rq_authenticate = (\<lambda>u h realm k. True)\<rparr>\<rparr>"

theorem posted_message_arrives_witness:
  "\<exists>w' body p r' ok l. handle_lora_transmit sample_json sample_web_env sample_web_state sample_message_post = (w', [Json 202 body], []) \<and>
     w_queue w' = Some [p] \<and>
     send_with_retry sample_tx_cfg (link_env sample_json (message_side sample_json (air_frame 9 p)) rx_start sample_hops) 9
       idle_radio p = Some (10, r', ok, l)"
proof -
  have o: "origin_ok sample_message_post"
    unfolding origin_ok_def sample_message_post_def sample_web by code_simp
  have a: "guard sample_web_env (w_auth sample_web_state) sample_message_post True = (w_auth sample_web_state, True, [])"
    using o by (simp add: guard_def auth_require_def auth_is_set_eq auth_check_def copy_ha1_def ensure_loaded_def equals_ignore_case_def
        lower_def ascii_lower_def sample_message_post_def sample_web Let_def)
  have c: "check_lora_transmit sample_json (q_data sample_message_post) (Some (x_username sample_web_env)) (Some (x_mac sample_web_env))
      LORA_MAX_PAYLOAD = (TX_OK, Some 3)"
    by (simp add: check_lora_transmit_def lora_msg_wrapped_len_def sample_json_def toy_json_def sample_message_post_def LORA_MAX_PAYLOAD_eq)
  have e: "x_alloc sample_web_env" "x_depth sample_web_env = 10" "w_queue sample_web_state = Some []"
    by (simp_all add: sample_web)
  obtain w' body where h: "handle_lora_transmit sample_json sample_web_env sample_web_state sample_message_post = (w', [Json 202 body], [])"
    by (simp add: handle_lora_transmit_def a c e enqueue_tx_def next_tx_id_def Let_def)
  have msg: "''cfg'' = jser sample_json (fill_lora_msg (Some (x_username sample_web_env)) (Some (x_mac sample_web_env))
      (q_data sample_message_post))"
    by (simp add: sample_json_def toy_json_def)
  have "CHR 0x00 \<notin> set ''cfg''" by simp
  from posted_message_arrives [OF h msg this sample_link(1,3,4), of sample_hops sample_tx_cfg] sample_link(2) h
  show ?thesis by (fastforce simp: sample_web_state_def)
qed

end
